(* ===== verification/Rvc_Prelude.thy ===== *)
theory Rvc_Prelude
  imports Main "HOL-Library.Word"
begin

text \<open>
  Shared vocabulary of the development: Rust's fixed-width integers as words, the two
  casts between \<open>u64\<close> and the signed 64-bit integers SQLite stores, the saturating and
  checked operations of \<open>u64\<close>, results as sums, and the generic facts on lists,
  options and results that the components use.
\<close>

named_theorems result_iff \<open>when a fallible step returns Ok or Err\<close>
named_theorems cast_simps \<open>casts between u64 and i64\<close>

section \<open>Integers\<close>

type_synonym u64 = "64 word"
type_synonym u32 = "32 word"
type_synonym byte = "8 word"
type_synonym epoch = u64
type_synonym slot = u64

text \<open>\<open>x as i64\<close> and \<open>v as u64\<close>: both keep the 64 bits.\<close>

definition as_i64 :: "u64 \<Rightarrow> int" where
  "as_i64 w = sint w"

definition as_u64 :: "int \<Rightarrow> u64" where
  "as_u64 v = word_of_int v"

text \<open>The values on which the signed and the unsigned reading agree.\<close>

definition i64_safe :: "u64 \<Rightarrow> bool" where
  "i64_safe w \<longleftrightarrow> w < 0x8000000000000000"

lemma as_u64_as_i64 [simp, cast_simps]: "as_u64 (as_i64 w) = w"
  by (simp add: as_u64_def as_i64_def)

lemma as_i64_inj [simp, cast_simps]: "as_i64 a = as_i64 b \<longleftrightarrow> a = b"
  by (metis as_u64_as_i64)

lemma as_i64_safe [cast_simps]: "i64_safe w \<Longrightarrow> as_i64 w = uint w"
proof -
  assume "i64_safe w"
  then have "uint w < 2 ^ 63" by (simp add: i64_safe_def word_less_def)
  moreover have "- (2 ^ 63) \<le> uint w" by (rule order_trans [OF _ uint_ge_0]) simp
  ultimately show ?thesis
    by (simp add: as_i64_def sint_uint signed_take_bit_int_eq_self_iff)
qed

lemma as_i64_less: "i64_safe a \<Longrightarrow> i64_safe b \<Longrightarrow> as_i64 a < as_i64 b \<longleftrightarrow> a < b"
  by (simp add: as_i64_safe word_less_def)

lemma as_i64_le: "i64_safe a \<Longrightarrow> i64_safe b \<Longrightarrow> as_i64 a \<le> as_i64 b \<longleftrightarrow> a \<le> b"
  by (simp add: as_i64_safe word_le_def)

lemma i64_safe_mono: "a \<le> b \<Longrightarrow> i64_safe b \<Longrightarrow> i64_safe a"
  by (simp add: i64_safe_def)

definition saturating_sub :: "u64 \<Rightarrow> u64 \<Rightarrow> u64" where
  "saturating_sub a b = (if a < b then 0 else a - b)"

definition saturating_add :: "u64 \<Rightarrow> u64 \<Rightarrow> u64" where
  "saturating_add a b = (if unat a + unat b < 2 ^ 64 then a + b else - 1)"

definition saturating_mul :: "u64 \<Rightarrow> u64 \<Rightarrow> u64" where
  "saturating_mul a b = (if unat a * unat b < 2 ^ 64 then a * b else - 1)"

definition checked_add :: "u64 \<Rightarrow> u64 \<Rightarrow> u64 option" where
  "checked_add a b = (if unat a + unat b < 2 ^ 64 then Some (a + b) else None)"

definition checked_mul :: "u64 \<Rightarrow> u64 \<Rightarrow> u64 option" where
  "checked_mul a b = (if unat a * unat b < 2 ^ 64 then Some (a * b) else None)"

lemma unat_saturating_sub: "unat (saturating_sub a b) = unat a - unat b"
  by (simp add: saturating_sub_def unat_sub_if' word_less_nat_alt)

lemma unat_u64_max: "unat (- 1 :: u64) = 2 ^ 64 - 1"
  by (simp add: unsigned_minus_1_eq_mask mask_eq_exp_minus_1)

lemma unat_u64_bound: "unat (a :: u64) < 2 ^ 64"
  using unsigned_less [where 'a = nat, of a] by simp

lemma saturating_add_ge: "a \<le> saturating_add a b"
  using unat_u64_bound [of a]
  by (auto simp: saturating_add_def word_le_nat_alt unat_word_ariths unat_u64_max)

lemma unat_saturating_add:
  "unat (saturating_add a b) = min (unat a + unat b) (2 ^ 64 - 1)"
  by (auto simp: saturating_add_def unat_word_ariths unat_u64_max)

lemma checked_add_Some [result_iff]:
  "checked_add a b = Some c \<longleftrightarrow> unat a + unat b < 2 ^ 64 \<and> c = a + b"
  by (auto simp: checked_add_def)

lemma checked_mul_Some [result_iff]:
  "checked_mul a b = Some c \<longleftrightarrow> unat a * unat b < 2 ^ 64 \<and> c = a * b"
  by (auto simp: checked_mul_def)

text \<open>Evaluation stays on words and integers.\<close>

lemma nat_bound_code: "unat (a :: u64) + unat b < 2 ^ 64 \<longleftrightarrow> uint a + uint b < 0x10000000000000000"
  "unat a * unat b < 2 ^ 64 \<longleftrightarrow> uint a * uint b < 0x10000000000000000"
proof -
  have "unat a + unat b < 2 ^ 64 \<longleftrightarrow> int (unat a + unat b) < int (2 ^ 64)" by (simp only: of_nat_less_iff)
  also have "int (2 ^ 64) = 0x10000000000000000" by simp
  also have "int (unat a + unat b) = uint a + uint b" by simp
  finally show "unat a + unat b < 2 ^ 64 \<longleftrightarrow> uint a + uint b < 0x10000000000000000" .
  have "unat a * unat b < 2 ^ 64 \<longleftrightarrow> int (unat a * unat b) < int (2 ^ 64)" by (simp only: of_nat_less_iff)
  also have "int (2 ^ 64) = 0x10000000000000000" by simp
  also have "int (unat a * unat b) = uint a * uint b" by simp
  finally show "unat a * unat b < 2 ^ 64 \<longleftrightarrow> uint a * uint b < 0x10000000000000000" .
qed

lemma saturating_code [code]:
  "saturating_add a b = (if uint a + uint b < 0x10000000000000000 then a + b else - 1)"
  "saturating_mul a b = (if uint a * uint b < 0x10000000000000000 then a * b else - 1)"
  "checked_add a b = (if uint a + uint b < 0x10000000000000000 then Some (a + b) else None)"
  "checked_mul a b = (if uint a * uint b < 0x10000000000000000 then Some (a * b) else None)"
  unfolding saturating_add_def saturating_mul_def checked_add_def checked_mul_def nat_bound_code by simp_all

lemma unat_saturating_mul: "unat (saturating_mul a b) = min (unat a * unat b) (2 ^ 64 - 1)"
  by (auto simp: saturating_mul_def unat_word_ariths unat_u64_max)

section \<open>Options and lists\<close>

text \<open>\<open>iter().min()\<close> and SQL's \<open>MIN\<close>/\<open>MAX\<close>: nothing on an empty list.\<close>

definition min_opt :: "'a::linorder list \<Rightarrow> 'a option" where
  "min_opt xs = (if xs = [] then None else Some (Min (set xs)))"

definition max_opt :: "'a::linorder list \<Rightarrow> 'a option" where
  "max_opt xs = (if xs = [] then None else Some (Max (set xs)))"

lemma min_opt_None [simp]: "min_opt xs = None \<longleftrightarrow> xs = []"
  by (simp add: min_opt_def)

lemma max_opt_None [simp]: "max_opt xs = None \<longleftrightarrow> xs = []"
  by (simp add: max_opt_def)

lemma min_opt_Some:
  "min_opt xs = Some m \<longleftrightarrow> m \<in> set xs \<and> (\<forall>x\<in>set xs. m \<le> x)"
  by (auto simp: min_opt_def Min_in intro: Min_eqI)

lemma max_opt_Some:
  "max_opt xs = Some m \<longleftrightarrow> m \<in> set xs \<and> (\<forall>x\<in>set xs. x \<le> m)"
  by (auto simp: max_opt_def Max_in intro: Max_eqI)

text \<open>
  One row of a result set whose order the query leaves open: the \<open>n\<close>-th, counted
  modulo the number of rows.
\<close>

definition pick :: "nat \<Rightarrow> 'a list \<Rightarrow> 'a option" where
  "pick n xs = (if xs = [] then None else Some (xs ! (n mod length xs)))"

lemma pick_None [simp]: "pick n xs = None \<longleftrightarrow> xs = []"
  by (simp add: pick_def)

lemma pick_in: "pick n xs = Some x \<Longrightarrow> x \<in> set xs"
  by (auto simp: pick_def split: if_splits)

lemma find_Some_in: "find P xs = Some x \<Longrightarrow> x \<in> set xs \<and> P x"
  by (auto simp: find_Some_iff)

lemma find_None_iff': "find P xs = None \<longleftrightarrow> (\<forall>x\<in>set xs. \<not> P x)"
  by (auto simp: find_None_iff)

section \<open>Fallible computations over a state\<close>

text \<open>
  A method that takes \<open>&self\<close> over interior-mutable state and returns a
  \<open>Result\<close> is a function from the state to a result and the next state; \<open>bindE\<close>
  is the \<open>?\<close> operator.
\<close>

type_synonym ('s, 'e, 'a) action = "'s \<Rightarrow> ('e + 'a) \<times> 's"

definition retE :: "'a \<Rightarrow> ('s, 'e, 'a) action" where
  "retE x = (\<lambda>s. (Inr x, s))"

definition throwE :: "'e \<Rightarrow> ('s, 'e, 'a) action" where
  "throwE e = (\<lambda>s. (Inl e, s))"

definition bindE :: "('s, 'e, 'a) action \<Rightarrow> ('a \<Rightarrow> ('s, 'e, 'b) action) \<Rightarrow> ('s, 'e, 'b) action" where
  "bindE m f = (\<lambda>s. case m s of (Inl e, s') \<Rightarrow> (Inl e, s') | (Inr x, s') \<Rightarrow> f x s')"

lemma retE_run [simp]: "retE x s = (Inr x, s)"
  by (simp add: retE_def)

lemma throwE_run [simp]: "throwE e s = (Inl e, s)"
  by (simp add: throwE_def)

lemma bindE_Inr [simp]: "m s = (Inr x, s') \<Longrightarrow> bindE m f s = f x s'"
  by (simp add: bindE_def)

lemma bindE_Inl [simp]: "m s = (Inl e, s') \<Longrightarrow> bindE m f s = (Inl e, s')"
  by (simp add: bindE_def)

lemma bindE_cases:
  assumes "bindE m f s = (r, t)"
  obtains (err) e where "m s = (Inl e, t)" and "r = Inl e"
  | (ok) x s' where "m s = (Inr x, s')" and "f x s' = (r, t)"
  using assms by (auto simp: bindE_def split: prod.splits sum.splits)

lemma bindE_Inr_iff [result_iff]:
  "bindE m f s = (Inr y, t) \<longleftrightarrow> (\<exists>x s'. m s = (Inr x, s') \<and> f x s' = (Inr y, t))"
  by (auto simp: bindE_def split: prod.splits sum.splits)

lemma bindE_Inl_iff [result_iff]:
  "bindE m f s = (Inl e, t) \<longleftrightarrow>
     m s = (Inl e, t) \<or> (\<exists>x s'. m s = (Inr x, s') \<and> f x s' = (Inl e, t))"
  by (auto simp: bindE_def split: prod.splits sum.splits)

lemma case_option_run:
  "(case x of None \<Rightarrow> m | Some y \<Rightarrow> f y) s = (case x of None \<Rightarrow> m s | Some y \<Rightarrow> f y s)"
  by (cases x) auto

text \<open>A relation between states that an action never leaves.\<close>

definition keeps :: "('s \<Rightarrow> 's \<Rightarrow> bool) \<Rightarrow> ('s, 'e, 'a) action \<Rightarrow> bool" where
  "keeps R m \<longleftrightarrow> (\<forall>s. R s (snd (m s)))"

lemma keepsD: "keeps R m \<Longrightarrow> m s = (r, t) \<Longrightarrow> R s t"
  by (metis keeps_def snd_conv)

lemma keeps_ret [intro]: "(\<And>s. R s s) \<Longrightarrow> keeps R (retE x)"
  by (simp add: keeps_def)

lemma keeps_throw [intro]: "(\<And>s. R s s) \<Longrightarrow> keeps R (throwE e)"
  by (simp add: keeps_def)

lemma keeps_bind:
  assumes "\<And>s t u. R s t \<Longrightarrow> R t u \<Longrightarrow> R s u" "keeps R m" "\<And>x. keeps R (f x)"
  shows "keeps R (bindE m f)"
  unfolding keeps_def
proof
  fix s
  show "R s (snd (bindE m f s))"
  proof (cases "m s")
    case (Pair r s')
    with assms(2) have "R s s'" by (rule keepsD)
    with Pair assms show ?thesis
      by (cases r) (auto simp: keeps_def)
  qed
qed

lemma keeps_option [intro]:
  "(x = None \<Longrightarrow> keeps R m) \<Longrightarrow> (\<And>y. x = Some y \<Longrightarrow> keeps R (f y))
     \<Longrightarrow> keeps R (case x of None \<Rightarrow> m | Some y \<Rightarrow> f y)"
  by (cases x) auto

lemma keeps_if [intro]:
  "(b \<Longrightarrow> keeps R m) \<Longrightarrow> (\<not> b \<Longrightarrow> keeps R n) \<Longrightarrow> keeps R (if b then m else n)"
  by auto

text \<open>
  The same for the runs that succeed: a failed query may leave a connection whose open
  transaction the database engine has abandoned.
\<close>

definition keeps_ok :: "('s \<Rightarrow> 's \<Rightarrow> bool) \<Rightarrow> ('s, 'e, 'a) action \<Rightarrow> bool" where
  "keeps_ok R m \<longleftrightarrow> (\<forall>s x t. m s = (Inr x, t) \<longrightarrow> R s t)"

lemma keeps_okD: "keeps_ok R m \<Longrightarrow> m s = (Inr x, t) \<Longrightarrow> R s t"
  by (auto simp: keeps_ok_def)

lemma keeps_ok_ret [intro]: "(\<And>s. R s s) \<Longrightarrow> keeps_ok R (retE x)"
  by (simp add: keeps_ok_def)

lemma keeps_ok_throw [intro]: "keeps_ok R (throwE e)"
  by (simp add: keeps_ok_def)

lemma keeps_ok_bind:
  assumes "\<And>s t u. R s t \<Longrightarrow> R t u \<Longrightarrow> R s u" "keeps_ok R m" "\<And>x. keeps_ok R (f x)"
  shows "keeps_ok R (bindE m f)"
  using assms by (simp add: keeps_ok_def bindE_Inr_iff) metis

lemma keeps_ok_option [intro]:
  "(x = None \<Longrightarrow> keeps_ok R m) \<Longrightarrow> (\<And>y. x = Some y \<Longrightarrow> keeps_ok R (f y))
     \<Longrightarrow> keeps_ok R (case x of None \<Rightarrow> m | Some y \<Rightarrow> f y)"
  by (cases x) auto

lemma keeps_ok_if [intro]:
  "(b \<Longrightarrow> keeps_ok R m) \<Longrightarrow> (\<not> b \<Longrightarrow> keeps_ok R n) \<Longrightarrow> keeps_ok R (if b then m else n)"
  by auto

text \<open>And for the runs that do not end in one of the errors \<open>F\<close>.\<close>

definition keeps_unless :: "('e \<Rightarrow> bool) \<Rightarrow> ('s \<Rightarrow> 's \<Rightarrow> bool) \<Rightarrow> ('s, 'e, 'a) action \<Rightarrow> bool" where
  "keeps_unless F R m \<longleftrightarrow>
     (\<forall>s. (case fst (m s) of Inl e \<Rightarrow> F e | Inr x \<Rightarrow> False) \<or> R s (snd (m s)))"

lemma keeps_unlessD:
  "keeps_unless F R m \<Longrightarrow> m s = (Inr x, t) \<Longrightarrow> R s t"
  "keeps_unless F R m \<Longrightarrow> m s = (Inl e, t) \<Longrightarrow> \<not> F e \<Longrightarrow> R s t"
  by (auto simp: keeps_unless_def dest!: spec [of _ s])

lemma keeps_unlessI:
  "(\<And>s x t. m s = (Inr x, t) \<Longrightarrow> R s t) \<Longrightarrow> (\<And>s e t. m s = (Inl e, t) \<Longrightarrow> F e \<or> R s t)
     \<Longrightarrow> keeps_unless F R m"
  by (auto simp: keeps_unless_def split: sum.splits) (metis prod.collapse)+

lemma keeps_unless_ret [intro]: "(\<And>s. R s s) \<Longrightarrow> keeps_unless F R (retE x)"
  by (simp add: keeps_unless_def)

lemma keeps_unless_throw [intro]: "(\<And>s. R s s) \<Longrightarrow> keeps_unless F R (throwE e)"
  by (simp add: keeps_unless_def)

lemma keeps_unless_bind:
  assumes "\<And>s t u. R s t \<Longrightarrow> R t u \<Longrightarrow> R s u" "keeps_unless F R m" "\<And>x. keeps_unless F R (f x)"
  shows "keeps_unless F R (bindE m f)"
  by (rule keeps_unlessI)
    (auto simp: result_iff dest: keeps_unlessD [OF assms(2)] keeps_unlessD [OF assms(3)] intro: assms(1))

lemma keeps_unless_option [intro]:
  "(x = None \<Longrightarrow> keeps_unless F R m) \<Longrightarrow> (\<And>y. x = Some y \<Longrightarrow> keeps_unless F R (f y))
     \<Longrightarrow> keeps_unless F R (case x of None \<Rightarrow> m | Some y \<Rightarrow> f y)"
  by (cases x) auto

lemma keeps_unless_if [intro]:
  "(b \<Longrightarrow> keeps_unless F R m) \<Longrightarrow> (\<not> b \<Longrightarrow> keeps_unless F R n)
     \<Longrightarrow> keeps_unless F R (if b then m else n)"
  by auto

text \<open>The relation a frame law is about: an invariant kept and an observation unchanged.\<close>

definition preserves :: "('s \<Rightarrow> bool) \<Rightarrow> ('s \<Rightarrow> 'v) \<Rightarrow> 's \<Rightarrow> 's \<Rightarrow> bool" where
  "preserves ok view s t \<longleftrightarrow> (ok s \<longrightarrow> ok t \<and> view t = view s)"

lemma preserves_refl [simp, intro]: "preserves ok view s s"
  by (simp add: preserves_def)

lemma preserves_trans [trans]:
  "preserves ok view s t \<Longrightarrow> preserves ok view t u \<Longrightarrow> preserves ok view s u"
  by (simp add: preserves_def)

lemma keeps_preserves_bind [intro]:
  "keeps_ok (preserves ok view) m \<Longrightarrow> (\<And>x. keeps_ok (preserves ok view) (f x))
     \<Longrightarrow> keeps_ok (preserves ok view) (bindE m f)"
  by (simp add: keeps_ok_def bindE_Inr_iff) (metis preserves_trans)

lemma keeps_preservesD:
  "keeps_ok (preserves ok view) m \<Longrightarrow> ok s \<Longrightarrow> m s = (Inr r, t) \<Longrightarrow> ok t \<and> view t = view s"
  by (drule keeps_okD, assumption) (simp add: preserves_def)

end
