(* ===== verification/Canonical_Text.thy ===== *)
theory Canonical_Text
  imports Rvc_Prelude
begin

text \<open>
  The textual encodings the program compares and stores: canonical public keys
  (\<open>crates/observability/src/pubkey.rs\<close>), the hex parsers of
  \<open>crates/eth-types/src/canonical/\<close>, the record policy on public keys of
  \<open>crates/slashing/src/types.rs\<close>, and the decimal numbers of the interchange file.
  The \<open>hex\<close> crate is a parameter (a record of its two functions); what the code relies
  on is the predicate \<open>hex_codec_ok\<close>. Strings are byte strings; \<open>to_lowercase\<close> is
  its ASCII part, which is all of it on the hex text these functions receive.
\<close>

section \<open>Prefixes and case\<close>

definition strip_prefix_str :: "string \<Rightarrow> string \<Rightarrow> string option" where
  "strip_prefix_str p s = (if take (length p) s = p then Some (drop (length p) s) else None)"

definition starts_with :: "string \<Rightarrow> string \<Rightarrow> bool" where
  "starts_with p s \<longleftrightarrow> take (length p) s = p"

text \<open>\<open>s.strip_prefix("0x").or_else(|| s.strip_prefix("0X"))\<close>.\<close>

definition strip_0x :: "string \<Rightarrow> string option" where
  "strip_0x s =
     (case strip_prefix_str ''0x'' s of
        Some r \<Rightarrow> Some r
      | None \<Rightarrow> strip_prefix_str ''0X'' s)"

definition lower_char :: "char \<Rightarrow> char" where
  "lower_char c =
     (let n = of_char c :: nat in if 65 \<le> n \<and> n \<le> 90 then char_of (n + 32) else c)"

definition to_lowercase :: "string \<Rightarrow> string" where
  "to_lowercase = map lower_char"

lemma strip_0x_0x [simp]: "strip_0x (''0x'' @ s) = Some s"
  by (simp add: strip_0x_def strip_prefix_str_def)

lemma strip_0x_0X [simp]: "strip_0x (''0X'' @ s) = Some s"
  by (simp add: strip_0x_def strip_prefix_str_def)

lemma lower_char_idem [simp]: "lower_char (lower_char c) = lower_char c"
  by (auto simp: lower_char_def Let_def)

lemma to_lowercase_idem [simp]: "to_lowercase (to_lowercase s) = to_lowercase s"
  by (simp add: to_lowercase_def comp_def)

section \<open>Canonical public keys\<close>

text \<open>\<open>CanonicalPubkey::from_str\<close>: infallible.\<close>

definition canonical_pubkey :: "string \<Rightarrow> string" where
  "canonical_pubkey s =
     ''0x'' @ to_lowercase (case strip_0x s of Some r \<Rightarrow> r | None \<Rightarrow> s)"

text \<open>\<open>normalize_pubkey\<close> of \<open>db/mod.rs\<close>: the same, behind a \<open>Result\<close> with no error.\<close>

definition normalize_pubkey :: "string \<Rightarrow> string" where
  "normalize_pubkey s = canonical_pubkey s"

lemma canonical_pubkey_idem [simp]: "canonical_pubkey (canonical_pubkey s) = canonical_pubkey s"
proof -
  have "strip_0x (''0x'' @ to_lowercase r) = Some (to_lowercase r)" for r
    by (rule strip_0x_0x)
  then show ?thesis
    unfolding canonical_pubkey_def by (simp only: option.case to_lowercase_idem)
qed

lemma normalize_pubkey_idem [simp]: "normalize_pubkey (normalize_pubkey s) = normalize_pubkey s"
  by (simp add: normalize_pubkey_def)

section \<open>The hex crate\<close>

datatype from_hex_error = OddLength | InvalidHexCharacter nat | InvalidStringLength

record hex_codec =
  hex_encode :: "byte list \<Rightarrow> string"
  hex_decode :: "string \<Rightarrow> from_hex_error + byte list"

definition hex_digits :: string where
  "hex_digits = ''0123456789abcdef''"

definition hex_codec_ok :: "hex_codec \<Rightarrow> bool" where
  "hex_codec_ok hx \<longleftrightarrow>
     (\<forall>b. hex_decode hx (hex_encode hx b) = Inr b
        \<and> length (hex_encode hx b) = 2 * length b
        \<and> set (hex_encode hx b) \<subseteq> set hex_digits)"

lemma hex_decode_encode: "hex_codec_ok hx \<Longrightarrow> hex_decode hx (hex_encode hx b) = Inr b"
  by (simp add: hex_codec_ok_def)

lemma hex_encode_inj: "hex_codec_ok hx \<Longrightarrow> hex_encode hx a = hex_encode hx b \<longleftrightarrow> a = b"
  by (metis hex_decode_encode sum.inject(2))

lemma hex_encode_digits:
  "hex_codec_ok hx \<Longrightarrow> set (hex_encode hx b) \<subseteq> set hex_digits"
  by (simp add: hex_codec_ok_def)

lemma hex_digits_lower: "set s \<subseteq> set hex_digits \<Longrightarrow> to_lowercase s = s"
  by (induction s) (auto simp: to_lowercase_def hex_digits_def lower_char_def)

lemma hex_digits_no_prefix: "set s \<subseteq> set hex_digits \<Longrightarrow> strip_0x s = None"
proof -
  assume *: "set s \<subseteq> set hex_digits"
  have "CHR ''x'' \<notin> set hex_digits" "CHR ''X'' \<notin> set hex_digits"
    by (simp_all add: hex_digits_def)
  with * have "CHR ''x'' \<notin> set s" "CHR ''X'' \<notin> set s" by auto
  then have "take 2 s \<noteq> ''0x''" "take 2 s \<noteq> ''0X''"
    by (metis in_set_takeD list.set_intros)+
  then show ?thesis by (simp add: strip_0x_def strip_prefix_str_def numeral_2_eq_2)
qed

section \<open>Decimal numbers\<close>

definition digit_char :: "nat \<Rightarrow> char" where
  "digit_char d = char_of (48 + d)"

definition is_digit :: "char \<Rightarrow> bool" where
  "is_digit c \<longleftrightarrow> 48 \<le> (of_char c :: nat) \<and> (of_char c :: nat) \<le> 57"

definition digit_val :: "char \<Rightarrow> nat" where
  "digit_val c = of_char c - 48"

fun dec_digits :: "nat \<Rightarrow> string" where
  "dec_digits n = (if n < 10 then [digit_char n] else dec_digits (n div 10) @ [digit_char (n mod 10)])"

declare dec_digits.simps [simp del]

definition u64_to_string :: "u64 \<Rightarrow> string" where
  "u64_to_string w = dec_digits (unat w)"

definition dec_value :: "string \<Rightarrow> nat" where
  "dec_value s = foldl (\<lambda>a c. a * 10 + digit_val c) 0 s"

text \<open>
  \<open>str::parse::<u64>\<close>: an optional plus sign, at least one digit, nothing else, and no
  overflow.
\<close>

definition parse_u64 :: "string \<Rightarrow> u64 option" where
  "parse_u64 s =
     (let body = (case s of c # r \<Rightarrow> if c = CHR ''+'' then r else s | [] \<Rightarrow> s)
      in if body = [] \<or> \<not> list_all is_digit body then None
         else if dec_value body < 2 ^ 64 then Some (of_nat (dec_value body)) else None)"

lemma digit_char_simps [simp]:
  "d < 10 \<Longrightarrow> is_digit (digit_char d)" "d < 10 \<Longrightarrow> digit_val (digit_char d) = d"
  "d < 10 \<Longrightarrow> digit_char d \<noteq> CHR ''+''"
proof -
  assume "d < 10"
  then have n: "(of_char (char_of (48 + d)) :: nat) = 48 + d" by simp
  show "is_digit (digit_char d)" "digit_val (digit_char d) = d"
    using n \<open>d < 10\<close> by (simp_all add: is_digit_def digit_val_def digit_char_def)
  have "\<not> is_digit (CHR ''+'')" by (simp add: is_digit_def)
  with \<open>is_digit (digit_char d)\<close> show "digit_char d \<noteq> CHR ''+''" by metis
qed

lemma dec_digits_all: "list_all is_digit (dec_digits n) \<and> dec_digits n \<noteq> []"
proof (induction n rule: dec_digits.induct)
  case (1 n)
  then show ?case by (subst (1 2) dec_digits.simps) auto
qed

lemma dec_value_digits: "dec_value (dec_digits n) = n"
proof (induction n rule: dec_digits.induct)
  case (1 n)
  then show ?case
    by (subst dec_digits.simps) (auto simp: dec_value_def)
qed

lemma dec_digits_hd: "hd (dec_digits n) \<noteq> CHR ''+''"
proof (induction n rule: dec_digits.induct)
  case (1 n)
  then show ?case
    by (subst dec_digits.simps) (auto simp: dec_digits_all hd_append)
qed

lemma parse_u64_to_string: "parse_u64 (u64_to_string w) = Some w"
proof -
  obtain c r where cr: "dec_digits (unat w) = c # r"
    using dec_digits_all by (cases "dec_digits (unat w)") auto
  with dec_digits_hd [of "unat w"] have "c \<noteq> CHR ''+''" by simp
  moreover have "dec_value (c # r) = unat w" "list_all is_digit (c # r)"
    using dec_value_digits dec_digits_all cr by metis+
  ultimately show ?thesis
    using unat_u64_bound [of w] by (simp add: parse_u64_def u64_to_string_def cr)
qed

text \<open>The same over binary integers, for evaluation.\<close>

definition dec_value_int :: "string \<Rightarrow> int" where
  "dec_value_int s = foldl (\<lambda>a c. a * 10 + int (digit_val c)) 0 s"

lemma dec_value_int: "dec_value_int s = int (dec_value s)"
proof -
  have "foldl (\<lambda>a c. a * 10 + int (digit_val c)) (int n) s = int (foldl (\<lambda>a c. a * 10 + digit_val c) n s)" for n
  proof (induction s arbitrary: n)
    case (Cons c s)
    from Cons [of "n * 10 + digit_val c"] show ?case by simp
  qed simp
  from this [of 0] show ?thesis by (simp add: dec_value_int_def dec_value_def)
qed

lemma parse_u64_code [code]:
  "parse_u64 s =
     (let body = (case s of c # r \<Rightarrow> if c = CHR ''+'' then r else s | [] \<Rightarrow> s)
      in if body = [] \<or> \<not> list_all is_digit body then None
         else if dec_value_int body < 2 ^ 64 then Some (word_of_int (dec_value_int body)) else None)"
proof -
  have "int n < 2 ^ 64 \<longleftrightarrow> n < 2 ^ 64" for n
    using of_nat_less_iff [of n "2 ^ 64", where 'a = int] by simp
  then show ?thesis by (simp add: parse_u64_def dec_value_int Let_def)
qed

section \<open>Hex parsers\<close>

datatype parse_error =
    InvalidHex string
  | InvalidLength nat nat
  | DoublePrefix

definition strip_prefix :: "string \<Rightarrow> parse_error + string" where
  "strip_prefix s =
     (case strip_0x s of
        Some rest \<Rightarrow>
          if starts_with ''0x'' rest \<or> starts_with ''0X'' rest then Inl DoublePrefix
          else Inr rest
      | None \<Rightarrow> Inr s)"

definition decode_hex :: "hex_codec \<Rightarrow> string \<Rightarrow> parse_error + byte list" where
  "decode_hex hx s =
     (case hex_decode hx s of
        Inr bytes \<Rightarrow> Inr bytes
      | Inl OddLength \<Rightarrow> Inl (InvalidHex ''odd number of hex digits'')
      | Inl (InvalidHexCharacter index) \<Rightarrow>
          Inl (InvalidHex (''non-hex character at index '' @ dec_digits index))
      | Inl InvalidStringLength \<Rightarrow> Inl (InvalidHex ''invalid string length''))"

text \<open>The three typed parsers differ in the length they ask for only.\<close>

definition parse_fixed_hex :: "hex_codec \<Rightarrow> nat \<Rightarrow> string \<Rightarrow> parse_error + byte list" where
  "parse_fixed_hex hx n s =
     (case strip_prefix s of
        Inl e \<Rightarrow> Inl e
      | Inr h \<Rightarrow>
          (case decode_hex hx h of
             Inl e \<Rightarrow> Inl e
           | Inr bytes \<Rightarrow>
               if length bytes \<noteq> n then Inl (InvalidLength n (length bytes)) else Inr bytes))"

type_synonym root = "byte list"

definition parse_gvr_hex :: "hex_codec \<Rightarrow> string \<Rightarrow> parse_error + root" where
  "parse_gvr_hex hx s = parse_fixed_hex hx 32 s"

definition parse_pubkey_hex :: "hex_codec \<Rightarrow> string \<Rightarrow> parse_error + byte list" where
  "parse_pubkey_hex hx s = parse_fixed_hex hx 48 s"

definition parse_signing_root_hex :: "hex_codec \<Rightarrow> string \<Rightarrow> parse_error + root" where
  "parse_signing_root_hex hx s = parse_fixed_hex hx 32 s"

text \<open>\<open>GvrHex::from_root(r).as_normalised_hex()\<close>.\<close>

definition gvr_hex_of_root :: "hex_codec \<Rightarrow> root \<Rightarrow> string" where
  "gvr_hex_of_root hx r = ''0x'' @ hex_encode hx r"

definition eq_gvr :: "hex_codec \<Rightarrow> string \<Rightarrow> root \<Rightarrow> bool" where
  "eq_gvr hx s r = (case parse_gvr_hex hx s of Inr parsed \<Rightarrow> parsed = r | Inl _ \<Rightarrow> False)"

lemma starts_with_digits:
  "set s \<subseteq> set hex_digits \<Longrightarrow> \<not> starts_with ''0x'' s \<and> \<not> starts_with ''0X'' s"
  using hex_digits_no_prefix [of s]
  by (auto simp: starts_with_def strip_0x_def strip_prefix_str_def split: if_splits)

lemma parse_fixed_hex_digits:
  assumes "hex_codec_ok hx" "length b = n"
  shows "parse_fixed_hex hx n (hex_encode hx b) = Inr b"
    and "parse_fixed_hex hx n (''0x'' @ hex_encode hx b) = Inr b"
    and "parse_fixed_hex hx n (''0X'' @ hex_encode hx b) = Inr b"
proof -
  have d: "set (hex_encode hx b) \<subseteq> set hex_digits"
    using assms(1) by (rule hex_encode_digits)
  have dec: "decode_hex hx (hex_encode hx b) = Inr b"
    by (simp add: decode_hex_def hex_decode_encode [OF assms(1)])
  note [simp del] = append_Cons append_Nil
  have "strip_prefix (hex_encode hx b) = Inr (hex_encode hx b)"
    using hex_digits_no_prefix [OF d] by (simp add: strip_prefix_def)
  then show "parse_fixed_hex hx n (hex_encode hx b) = Inr b"
    using dec assms(2) by (simp add: parse_fixed_hex_def)
  have "strip_prefix (''0x'' @ hex_encode hx b) = Inr (hex_encode hx b)"
    using starts_with_digits [OF d] by (simp add: strip_prefix_def)
  then show "parse_fixed_hex hx n (''0x'' @ hex_encode hx b) = Inr b"
    using dec assms(2) by (simp add: parse_fixed_hex_def)
  have "strip_prefix (''0X'' @ hex_encode hx b) = Inr (hex_encode hx b)"
    using starts_with_digits [OF d] by (simp add: strip_prefix_def)
  then show "parse_fixed_hex hx n (''0X'' @ hex_encode hx b) = Inr b"
    using dec assms(2) by (simp add: parse_fixed_hex_def)
qed

lemma parse_gvr_hex_of_root:
  "hex_codec_ok hx \<Longrightarrow> length r = 32 \<Longrightarrow> parse_gvr_hex hx (gvr_hex_of_root hx r) = Inr r"
  unfolding parse_gvr_hex_def gvr_hex_of_root_def by (rule parse_fixed_hex_digits)

lemma gvr_hex_of_root_inj:
  "hex_codec_ok hx \<Longrightarrow> gvr_hex_of_root hx a = gvr_hex_of_root hx b \<longleftrightarrow> a = b"
  by (simp add: gvr_hex_of_root_def hex_encode_inj)

section \<open>A concrete hex codec\<close>

text \<open>The instance the closed examples use; it shows that \<open>hex_codec_ok\<close> can hold.\<close>

definition nibble_char :: "nat \<Rightarrow> char" where
  "nibble_char n = hex_digits ! n"

definition nibble_val :: "char \<Rightarrow> nat option" where
  "nibble_val c =
     (let n = of_char c :: nat
      in if 48 \<le> n \<and> n \<le> 57 then Some (n - 48)
         else if 97 \<le> n \<and> n \<le> 102 then Some (n - 87)
         else if 65 \<le> n \<and> n \<le> 70 then Some (n - 55) else None)"

fun hex_pairs :: "nat \<Rightarrow> string \<Rightarrow> from_hex_error + byte list" where
  "hex_pairs i (a # b # r) =
     (case (nibble_val a, nibble_val b) of
        (Some x, Some y) \<Rightarrow>
          (case hex_pairs (i + 2) r of
             Inl e \<Rightarrow> Inl e
           | Inr bs \<Rightarrow> Inr (of_nat (16 * x + y) # bs))
      | (None, _) \<Rightarrow> Inl (InvalidHexCharacter i)
      | (Some _, None) \<Rightarrow> Inl (InvalidHexCharacter (i + 1)))"
| "hex_pairs i _ = Inr []"

definition hex_ref :: hex_codec where
  "hex_ref =
     \<lparr>hex_encode = (\<lambda>bs. concat (map (\<lambda>b. [nibble_char (unat b div 16), nibble_char (unat b mod 16)]) bs)),
      hex_decode = (\<lambda>s. if odd (length s) then Inl OddLength else hex_pairs 0 s)\<rparr>"

lemma nibble_val_char: "n < 16 \<Longrightarrow> nibble_val (nibble_char n) = Some n"
  by (auto simp: eval_nat_numeral less_Suc_eq nibble_char_def nibble_val_def hex_digits_def)

lemma nibble_char_digit: "n < 16 \<Longrightarrow> nibble_char n \<in> set hex_digits"
  unfolding nibble_char_def by (rule nth_mem) (simp add: hex_digits_def)

lemma hex_pairs_encode: "hex_pairs i (hex_encode hex_ref bs) = Inr bs"
proof (induction bs arbitrary: i)
  case (Cons b bs)
  have "unat b < 2 ^ 8" using unsigned_less [where 'a = nat, of b] by simp
  then have "unat b div 16 < 16" "unat b mod 16 < 16" by auto
  moreover have "16 * (unat b div 16) + unat b mod 16 = unat b" by simp
  ultimately show ?case
    using Cons.IH [of "i + 2"]
    by (simp add: hex_ref_def nibble_val_char del: of_nat_add of_nat_mult)
qed (simp add: hex_ref_def)

lemma hex_ref_ok: "hex_codec_ok hex_ref"
proof -
  have l: "length (hex_encode hex_ref b) = 2 * length b" for b
    by (induction b) (simp_all add: hex_ref_def)
  have d: "hex_decode hex_ref (hex_encode hex_ref b) = Inr b" for b
    using l [of b] hex_pairs_encode [of 0 b] by (simp add: hex_ref_def)
  have "set (hex_encode hex_ref b) \<subseteq> set hex_digits" for b
  proof -
    have "unat x div 16 < 16 \<and> unat x mod 16 < 16" for x :: byte
      using unsigned_less [where 'a = nat, of x] by auto
    then show ?thesis by (auto simp: hex_ref_def nibble_char_digit)
  qed
  with l d show ?thesis by (simp add: hex_codec_ok_def)
qed

end
