(* ===== verification/Slashing_Rules.thy ===== *)
theory Slashing_Rules
  imports Canonical_Text
begin

text \<open>
  The error types of \<open>crates/slashing/src/error.rs\<close> and the pure EIP-3076 rule checks of
  \<open>crates/slashing/src/rules.rs\<close>. The two history traits are records of actions over a
  store type, so that the same check runs on the vector-backed histories of this theory
  and on the SQL-backed ones of the store. What a check relies on is stated as the two
  locales \<open>attestation_history_laws\<close> and \<open>block_history_laws\<close>; soundness and
  completeness of the checks are proved once inside them.
\<close>

section \<open>Errors\<close>

datatype attestation_slashing_violation =
    DoubleVote epoch
  | SurroundingVote epoch epoch epoch epoch
  | SurroundedVote epoch epoch epoch epoch
  | TargetEpochBelowMinimum epoch epoch

datatype block_slashing_violation =
    DoubleBlockProposal slot
  | SlotBelowMinimum slot slot

datatype slashing_error =
    DatabaseError string
  | MigrationFailed string
  | SlashableAttestation attestation_slashing_violation
  | SlashableBlock block_slashing_violation
  | GenesisValidatorsRootMismatch string string
  | GenesisRootMismatch root root
  | InvalidInterchangeFormat string
  | UnrepresentableFloor string epoch epoch
  | InvalidPubkey string
  | InternalInvariant string
  | IntegrityCheckFailed string
  | WatermarkLowered string string u64 u64
  | NoWatermarksSet
  | BelowBlockWatermark string slot slot
  | BelowAttestationWatermark string epoch epoch
  | BelowAttestationSourceWatermark string epoch epoch
  | UnsafePermissions string string
  | JournalMode string string
  | CorruptOrEmpty string u64
  | InspectFailed string string
  | ReserveCommitFailed string
  | ReconcileFailed string

definition is_reserve_commit_failure :: "slashing_error \<Rightarrow> bool" where
  "is_reserve_commit_failure e = (case e of ReserveCommitFailed _ \<Rightarrow> True | _ \<Rightarrow> False)"

definition is_group_member_rejection :: "slashing_error \<Rightarrow> bool" where
  "is_group_member_rejection e =
     (case e of
        SlashableBlock _ \<Rightarrow> True
      | SlashableAttestation _ \<Rightarrow> True
      | GenesisRootMismatch _ _ \<Rightarrow> True
      | BelowBlockWatermark _ _ _ \<Rightarrow> True
      | BelowAttestationWatermark _ _ _ \<Rightarrow> True
      | BelowAttestationSourceWatermark _ _ _ \<Rightarrow> True
      | _ \<Rightarrow> False)"

text \<open>The \<open>Display\<close> text of each violation and error (the dash is its UTF-8 bytes).\<close>

definition em_dash :: string where
  "em_dash = [CHR 0xE2, CHR 0x80, CHR 0x94]"

fun show_att_violation :: "attestation_slashing_violation \<Rightarrow> string" where
  "show_att_violation (DoubleVote t) =
     ''double vote: already signed attestation for target epoch '' @ u64_to_string t"
| "show_att_violation (SurroundingVote ns nt es et) =
     ''surrounding vote: new attestation ('' @ u64_to_string ns @ '', '' @ u64_to_string nt
     @ '') surrounds existing ('' @ u64_to_string es @ '', '' @ u64_to_string et @ '')''"
| "show_att_violation (SurroundedVote ns nt es et) =
     ''surrounded vote: new attestation ('' @ u64_to_string ns @ '', '' @ u64_to_string nt
     @ '') is surrounded by existing ('' @ u64_to_string es @ '', '' @ u64_to_string et @ '')''"
| "show_att_violation (TargetEpochBelowMinimum t m) =
     ''target epoch '' @ u64_to_string t @ '' is below minimum existing target epoch ''
     @ u64_to_string m"

fun show_block_violation :: "block_slashing_violation \<Rightarrow> string" where
  "show_block_violation (DoubleBlockProposal s) =
     ''double block proposal: already signed a different block for slot '' @ u64_to_string s"
| "show_block_violation (SlotBelowMinimum s m) =
     ''slot '' @ u64_to_string s @ '' is below minimum existing slot '' @ u64_to_string m"

fun show_slashing_error :: "hex_codec \<Rightarrow> slashing_error \<Rightarrow> string" where
  "show_slashing_error hx (DatabaseError m) = ''database error: '' @ m"
| "show_slashing_error hx (MigrationFailed m) = ''schema migration failed: '' @ m"
| "show_slashing_error hx (SlashableAttestation v) =
     ''attestation slashable: '' @ show_att_violation v"
| "show_slashing_error hx (SlashableBlock v) = ''block slashable: '' @ show_block_violation v"
| "show_slashing_error hx (GenesisValidatorsRootMismatch ex act) =
     ''genesis validators root mismatch: expected '' @ ex @ '', got '' @ act"
| "show_slashing_error hx (GenesisRootMismatch ex got) =
     ''genesis root mismatch: expected 0x'' @ hex_encode hx ex @ '', got 0x'' @ hex_encode hx got"
| "show_slashing_error hx (InvalidInterchangeFormat m) = ''invalid interchange format: '' @ m"
| "show_slashing_error hx (UnrepresentableFloor pk s t) =
     ''attestation floor for '' @ pk @ '' cannot be represented (source_bound='' @ u64_to_string s
     @ '', target_bound='' @ u64_to_string t @ '')''"
| "show_slashing_error hx (InvalidPubkey m) = ''invalid slashing-record pubkey ('' @ m @ '')''"
| "show_slashing_error hx (InternalInvariant m) =
     ''internal slashing invariant violated: '' @ m"
| "show_slashing_error hx (IntegrityCheckFailed m) = ''database integrity check failed: '' @ m"
| "show_slashing_error hx (WatermarkLowered pk k cur att) =
     ''watermark can only be raised: attempted to lower '' @ k @ '' for '' @ pk @ '' (current=''
     @ u64_to_string cur @ '', attempted='' @ u64_to_string att @ '')''"
| "show_slashing_error hx NoWatermarksSet =
     ''no watermarks set '' @ em_dash @ '' import an EIP-3076 interchange (or set watermarks) before pruning; pruning without watermarks would delete all records''"
| "show_slashing_error hx (BelowBlockWatermark pk s w) =
     ''block at slot '' @ u64_to_string s @ '' is at or below watermark slot '' @ u64_to_string w
     @ '' for pubkey '' @ pk"
| "show_slashing_error hx (BelowAttestationWatermark pk t w) =
     ''attestation with target epoch '' @ u64_to_string t
     @ '' is at or below watermark target epoch '' @ u64_to_string w @ '' for pubkey '' @ pk"
| "show_slashing_error hx (BelowAttestationSourceWatermark pk s w) =
     ''attestation with source epoch '' @ u64_to_string s
     @ '' is below watermark source epoch '' @ u64_to_string w @ '' for pubkey '' @ pk"
| "show_slashing_error hx (UnsafePermissions p m) =
     ''unsafe file permissions on '' @ p @ '' (mode '' @ m @ ''): group or world accessible''"
| "show_slashing_error hx (JournalMode act hint) =
     ''Slashing DB refused to open with non-WAL journal mode: actual='' @ act @ ''. '' @ hint"
| "show_slashing_error hx (CorruptOrEmpty p n) =
     ''slashing protection database at '' @ p
     @ '' is empty or has a corrupt SQLite header (size='' @ u64_to_string n
     @ '' bytes). This is corruption, not a fresh init '' @ em_dash @ '' restore from backup. Opt-in flags (--init-slashing-db / allow_fresh_db) cannot override this.''"
| "show_slashing_error hx (InspectFailed p m) =
     ''failed to inspect slashing protection database at '' @ p @ '': '' @ m"
| "show_slashing_error hx (ReserveCommitFailed m) =
     ''slashing-protection reserve commit failed (no row written): '' @ m"
| "show_slashing_error hx (ReconcileFailed m) =
     ''slashing-protection compensating delete failed (row retained): '' @ m"

section \<open>Candidates, watermarks, verdicts, histories\<close>

record existing_att =
  ea_source_epoch :: epoch
  ea_target_epoch :: epoch
  ea_signing_root :: "string option"

record 's attestation_history =
  conflicting_at_target :: "epoch \<Rightarrow> ('s, slashing_error, existing_att option) action"
  surrounding_exists :: "epoch \<Rightarrow> epoch \<Rightarrow> ('s, slashing_error, (epoch \<times> epoch) option) action"
  surrounded_exists :: "epoch \<Rightarrow> epoch \<Rightarrow> ('s, slashing_error, (epoch \<times> epoch) option) action"
  min_target :: "('s, slashing_error, epoch option) action"

record 's block_history =
  signing_root_at_slot :: "slot \<Rightarrow> ('s, slashing_error, string option option) action"
  min_slot :: "('s, slashing_error, slot option) action"

record block_candidate =
  bc_slot :: slot
  bc_signing_root :: "string option"

record attestation_candidate =
  ac_source_epoch :: epoch
  ac_target_epoch :: epoch
  ac_signing_root :: "string option"

record block_watermarks =
  bw_block :: "slot option"

record attestation_watermarks =
  aw_source :: "epoch option"
  aw_target :: "epoch option"

datatype block_verdict = BlockStage | BlockResign

datatype attestation_verdict = AttStage | AttDuplicate

section \<open>The checks\<close>

text \<open>The match both checks make on the stored and the new signing root.\<close>

definition is_resign :: "bool \<Rightarrow> string option \<Rightarrow> string option \<Rightarrow> bool" where
  "is_resign strict existing new =
     (case (existing, new) of
        (Some er, Some nr) \<Rightarrow> er = nr
      | (None, None) \<Rightarrow> \<not> strict
      | _ \<Rightarrow> False)"

definition check_block ::
  "string \<Rightarrow> 's block_history \<Rightarrow> block_watermarks \<Rightarrow> block_candidate \<Rightarrow> bool
     \<Rightarrow> ('s, slashing_error, block_verdict) action" where
  "check_block pubkey history watermarks candidate strict =
     bindE
       (case bw_block watermarks of
          Some wm \<Rightarrow>
            if bc_slot candidate \<le> wm
            then throwE (BelowBlockWatermark pubkey (bc_slot candidate) wm) else retE ()
        | None \<Rightarrow> retE ())
     (\<lambda>_. bindE (signing_root_at_slot history (bc_slot candidate))
     (\<lambda>existing. case existing of
          Some existing_root \<Rightarrow>
            if \<not> is_resign strict existing_root (bc_signing_root candidate)
            then throwE (SlashableBlock (DoubleBlockProposal (bc_slot candidate)))
            else retE BlockResign
        | None \<Rightarrow>
            bindE (min_slot history)
            (\<lambda>mn. case mn of
                 Some m \<Rightarrow>
                   if bc_slot candidate < m
                   then throwE (SlashableBlock (SlotBelowMinimum (bc_slot candidate) m))
                   else retE BlockStage
               | None \<Rightarrow> retE BlockStage)))"

definition check_attestation ::
  "string \<Rightarrow> 's attestation_history \<Rightarrow> attestation_watermarks \<Rightarrow> attestation_candidate \<Rightarrow> bool
     \<Rightarrow> ('s, slashing_error, attestation_verdict) action" where
  "check_attestation pubkey history watermarks candidate strict =
     (let src = ac_source_epoch candidate; tgt = ac_target_epoch candidate in
      bindE
        (case aw_source watermarks of
           Some ws \<Rightarrow>
             if src < ws then throwE (BelowAttestationSourceWatermark pubkey src ws) else retE ()
         | None \<Rightarrow> retE ())
      (\<lambda>_. bindE
        (case aw_target watermarks of
           Some wt \<Rightarrow>
             if tgt \<le> wt then throwE (BelowAttestationWatermark pubkey tgt wt) else retE ()
         | None \<Rightarrow> retE ())
      (\<lambda>_. bindE (conflicting_at_target history tgt)
      (\<lambda>existing. bindE
        (case existing of
           Some ex \<Rightarrow>
             if is_resign strict (ea_signing_root ex) (ac_signing_root candidate)
             then retE True else throwE (SlashableAttestation (DoubleVote tgt))
         | None \<Rightarrow> retE False)
      (\<lambda>is_duplicate. bindE (surrounding_exists history src tgt)
      (\<lambda>sg. case sg of
           Some (es, et) \<Rightarrow> throwE (SlashableAttestation (SurroundingVote src tgt es et))
         | None \<Rightarrow>
      bindE (surrounded_exists history src tgt)
      (\<lambda>sd. case sd of
           Some (es, et) \<Rightarrow> throwE (SlashableAttestation (SurroundedVote src tgt es et))
         | None \<Rightarrow>
      if is_duplicate then retE AttDuplicate
      else bindE (min_target history)
        (\<lambda>mn. case mn of
             Some m \<Rightarrow>
               if tgt < m then throwE (SlashableAttestation (TargetEpochBelowMinimum tgt m))
               else retE AttStage
           | None \<Rightarrow> retE AttStage))))))))"

section \<open>Vector-backed histories\<close>

definition full_scan_attestation_history :: "existing_att list \<Rightarrow> 's attestation_history" where
  "full_scan_attestation_history rows =
     \<lparr>conflicting_at_target = (\<lambda>target. retE (find (\<lambda>r. ea_target_epoch r = target) rows)),
      surrounding_exists = (\<lambda>source target.
        retE (map_option (\<lambda>r. (ea_source_epoch r, ea_target_epoch r))
          (find (\<lambda>r. source < ea_source_epoch r \<and> target > ea_target_epoch r) rows))),
      surrounded_exists = (\<lambda>source target.
        retE (map_option (\<lambda>r. (ea_source_epoch r, ea_target_epoch r))
          (find (\<lambda>r. ea_source_epoch r < source \<and> ea_target_epoch r > target) rows))),
      min_target = retE (min_opt (map ea_target_epoch rows))\<rparr>"

definition full_scan_block_history :: "(slot \<times> string option) list \<Rightarrow> 's block_history" where
  "full_scan_block_history rows =
     \<lparr>signing_root_at_slot = (\<lambda>slot. retE (map_option snd (find (\<lambda>(s, _). s = slot) rows))),
      min_slot = retE (min_opt (map fst rows))\<rparr>"

section \<open>What a history promises, and what the checks then guarantee\<close>

definition surrounds :: "epoch \<times> epoch \<Rightarrow> epoch \<times> epoch \<Rightarrow> bool" where
  "surrounds a b \<longleftrightarrow> fst a < fst b \<and> snd b < snd a"

abbreviation ea_span :: "existing_att \<Rightarrow> epoch \<times> epoch" where
  "ea_span r \<equiv> (ea_source_epoch r, ea_target_epoch r)"

abbreviation ac_span :: "attestation_candidate \<Rightarrow> epoch \<times> epoch" where
  "ac_span c \<equiv> (ac_source_epoch c, ac_target_epoch c)"

definition above_att_floors :: "attestation_watermarks \<Rightarrow> attestation_candidate \<Rightarrow> bool" where
  "above_att_floors wm c \<longleftrightarrow>
     (case aw_source wm of Some ws \<Rightarrow> ws \<le> ac_source_epoch c | None \<Rightarrow> True)
     \<and> (case aw_target wm of Some wt \<Rightarrow> wt < ac_target_epoch c | None \<Rightarrow> True)"

definition above_block_floor :: "block_watermarks \<Rightarrow> block_candidate \<Rightarrow> bool" where
  "above_block_floor wm c \<longleftrightarrow> (case bw_block wm of Some w \<Rightarrow> w < bc_slot c | None \<Rightarrow> True)"

text \<open>
  The slashing conditions a candidate meets against a set of rows: a row at its target
  with a root that is not a re-sign, or a surround in either direction.
\<close>

definition att_conflict :: "existing_att set \<Rightarrow> attestation_candidate \<Rightarrow> bool \<Rightarrow> bool" where
  "att_conflict R c strict \<longleftrightarrow>
     (\<exists>r\<in>R. (ea_target_epoch r = ac_target_epoch c
              \<and> \<not> is_resign strict (ea_signing_root r) (ac_signing_root c))
           \<or> surrounds (ac_span c) (ea_span r) \<or> surrounds (ea_span r) (ac_span c))"

text \<open>What each refusal of \<open>check_attestation\<close> and \<open>check_block\<close> means.\<close>

fun att_rejection ::
  "string \<Rightarrow> attestation_watermarks \<Rightarrow> existing_att set \<Rightarrow> attestation_candidate \<Rightarrow> bool
     \<Rightarrow> slashing_error \<Rightarrow> bool" where
  "att_rejection pk wm R c strict (BelowAttestationSourceWatermark p s w) =
     (p = pk \<and> s = ac_source_epoch c \<and> aw_source wm = Some w \<and> s < w)"
| "att_rejection pk wm R c strict (BelowAttestationWatermark p t w) =
     (p = pk \<and> t = ac_target_epoch c \<and> aw_target wm = Some w \<and> t \<le> w)"
| "att_rejection pk wm R c strict (SlashableAttestation (DoubleVote t)) =
     (t = ac_target_epoch c \<and> (\<exists>r\<in>R. ea_target_epoch r = t
        \<and> \<not> is_resign strict (ea_signing_root r) (ac_signing_root c)))"
| "att_rejection pk wm R c strict (SlashableAttestation (SurroundingVote ns nt es et)) =
     ((ns, nt) = ac_span c \<and> (es, et) \<in> ea_span ` R \<and> surrounds (ns, nt) (es, et))"
| "att_rejection pk wm R c strict (SlashableAttestation (SurroundedVote ns nt es et)) =
     ((ns, nt) = ac_span c \<and> (es, et) \<in> ea_span ` R \<and> surrounds (es, et) (ns, nt))"
| "att_rejection pk wm R c strict (SlashableAttestation (TargetEpochBelowMinimum t m)) =
     (t = ac_target_epoch c \<and> m \<in> ea_target_epoch ` R
        \<and> (\<forall>r\<in>R. m \<le> ea_target_epoch r) \<and> t < m)"
| "att_rejection pk wm R c strict e = False"

fun block_rejection ::
  "string \<Rightarrow> block_watermarks \<Rightarrow> (slot \<times> string option) set \<Rightarrow> block_candidate \<Rightarrow> bool
     \<Rightarrow> slashing_error \<Rightarrow> bool" where
  "block_rejection pk wm R c strict (BelowBlockWatermark p s w) =
     (p = pk \<and> s = bc_slot c \<and> bw_block wm = Some w \<and> s \<le> w)"
| "block_rejection pk wm R c strict (SlashableBlock (DoubleBlockProposal s)) =
     (s = bc_slot c \<and> (\<exists>r. (s, r) \<in> R \<and> \<not> is_resign strict r (bc_signing_root c)))"
| "block_rejection pk wm R c strict (SlashableBlock (SlotBelowMinimum s m)) =
     (s = bc_slot c \<and> m \<in> fst ` R \<and> (\<forall>r\<in>R. m \<le> fst r) \<and> s < m)"
| "block_rejection pk wm R c strict e = False"

subsection \<open>Shape of a run\<close>

lemma floor_check_Inr:
  "(case w of None \<Rightarrow> retE v | Some x \<Rightarrow> if P x then throwE (e x) else retE v) s = (Inr u, t)
     \<longleftrightarrow> (\<forall>x. w = Some x \<longrightarrow> \<not> P x) \<and> u = v \<and> t = s"
  by (auto split: option.splits)

lemma floor_check_Inl:
  "(case w of None \<Rightarrow> retE v | Some x \<Rightarrow> if P x then throwE (e x) else retE v) s = (Inl er, t)
     \<longleftrightarrow> (\<exists>x. w = Some x \<and> P x \<and> er = e x) \<and> t = s"
  by (auto split: option.splits)

lemma resign_check_Inr:
  "(case w of None \<Rightarrow> retE False | Some x \<Rightarrow> if P x then retE True else throwE e) s = (Inr d, t)
     \<longleftrightarrow> (\<forall>x. w = Some x \<longrightarrow> P x) \<and> d = (w \<noteq> None) \<and> t = s"
  by (auto split: option.splits)

lemma resign_check_Inl:
  "(case w of None \<Rightarrow> retE False | Some x \<Rightarrow> if P x then retE True else throwE e) s = (Inl er, t)
     \<longleftrightarrow> (\<exists>x. w = Some x \<and> \<not> P x) \<and> er = e \<and> t = s"
  by (auto split: option.splits)

lemma surround_check_Inr:
  "(case w of None \<Rightarrow> m | Some (a, b) \<Rightarrow> throwE (e a b)) s = (Inr u, t)
     \<longleftrightarrow> w = None \<and> m s = (Inr u, t)"
  by (auto split: option.splits)

lemma surround_check_Inl:
  "(case w of None \<Rightarrow> m | Some (a, b) \<Rightarrow> throwE (e a b)) s = (Inl er, t)
     \<longleftrightarrow> (w = None \<and> m s = (Inl er, t)) \<or> (\<exists>a b. w = Some (a, b) \<and> er = e a b \<and> t = s)"
  by (auto split: option.splits)

lemma root_check_Inl:
  "(case w of None \<Rightarrow> m | Some x \<Rightarrow> if \<not> P x then throwE e else retE v) s = (Inl er, t)
     \<longleftrightarrow> (w = None \<and> m s = (Inl er, t)) \<or> (\<exists>x. w = Some x \<and> \<not> P x \<and> er = e \<and> t = s)"
  by (auto split: option.splits)

lemma if_run_iff:
  "(if d then retE x else m) s = (r, t) \<longleftrightarrow> (d \<and> r = Inr x \<and> t = s) \<or> (\<not> d \<and> m s = (r, t))"
  by auto

lemmas check_Inr = bindE_Inr_iff floor_check_Inr resign_check_Inr surround_check_Inr if_run_iff
lemmas check_Inl =
  bindE_Inl_iff floor_check_Inl resign_check_Inl surround_check_Inl if_run_iff check_Inr

lemma above_att_floors_iff:
  "above_att_floors wm c \<longleftrightarrow> (\<forall>w. aw_source wm = Some w \<longrightarrow> \<not> ac_source_epoch c < w)
     \<and> (\<forall>w. aw_target wm = Some w \<longrightarrow> \<not> ac_target_epoch c \<le> w)"
  by (auto simp: above_att_floors_def not_less not_le split: option.splits)

lemma check_attestation_Stage_iff:
  "check_attestation pk h wm c strict s = (Inr AttStage, s') \<longleftrightarrow>
     above_att_floors wm c \<and> (\<exists>s1 s2 s3 mn.
       conflicting_at_target h (ac_target_epoch c) s = (Inr None, s1)
     \<and> surrounding_exists h (ac_source_epoch c) (ac_target_epoch c) s1 = (Inr None, s2)
     \<and> surrounded_exists h (ac_source_epoch c) (ac_target_epoch c) s2 = (Inr None, s3)
     \<and> min_target h s3 = (Inr mn, s') \<and> (\<forall>m. mn = Some m \<longrightarrow> \<not> ac_target_epoch c < m))"
  unfolding check_attestation_def Let_def above_att_floors_iff
  by (simp only: check_Inr) auto

lemma check_attestation_Duplicate_iff:
  "check_attestation pk h wm c strict s = (Inr AttDuplicate, s') \<longleftrightarrow>
     above_att_floors wm c \<and> (\<exists>e s1 s2.
       conflicting_at_target h (ac_target_epoch c) s = (Inr (Some e), s1)
     \<and> is_resign strict (ea_signing_root e) (ac_signing_root c)
     \<and> surrounding_exists h (ac_source_epoch c) (ac_target_epoch c) s1 = (Inr None, s2)
     \<and> surrounded_exists h (ac_source_epoch c) (ac_target_epoch c) s2 = (Inr None, s'))"
  unfolding check_attestation_def Let_def above_att_floors_iff
  by (simp only: check_Inr) auto

lemma check_attestation_InlE:
  assumes "check_attestation pk h wm c strict s = (Inl er, s')"
  obtains (source_floor) w where "aw_source wm = Some w" "ac_source_epoch c < w"
      "er = BelowAttestationSourceWatermark pk (ac_source_epoch c) w"
  | (target_floor) w where "aw_target wm = Some w" "ac_target_epoch c \<le> w"
      "er = BelowAttestationWatermark pk (ac_target_epoch c) w"
  | (conflict_fault) "conflicting_at_target h (ac_target_epoch c) s = (Inl er, s')"
  | (double) e s1 where "conflicting_at_target h (ac_target_epoch c) s = (Inr (Some e), s1)"
      "\<not> is_resign strict (ea_signing_root e) (ac_signing_root c)"
      "er = SlashableAttestation (DoubleVote (ac_target_epoch c))"
  | (surrounding_fault) s1 where
      "surrounding_exists h (ac_source_epoch c) (ac_target_epoch c) s1 = (Inl er, s')"
  | (surrounding) ex s1 es et where
      "conflicting_at_target h (ac_target_epoch c) s = (Inr ex, s1)"
      "er = SlashableAttestation (SurroundingVote (ac_source_epoch c) (ac_target_epoch c) es et)"
      "surrounding_exists h (ac_source_epoch c) (ac_target_epoch c) s1 = (Inr (Some (es, et)), s')"
  | (surrounded_fault) s2 where
      "surrounded_exists h (ac_source_epoch c) (ac_target_epoch c) s2 = (Inl er, s')"
  | (surrounded) ex s1 s2 es et where
      "conflicting_at_target h (ac_target_epoch c) s = (Inr ex, s1)"
      "surrounding_exists h (ac_source_epoch c) (ac_target_epoch c) s1 = (Inr None, s2)"
      "surrounded_exists h (ac_source_epoch c) (ac_target_epoch c) s2 = (Inr (Some (es, et)), s')"
      "er = SlashableAttestation (SurroundedVote (ac_source_epoch c) (ac_target_epoch c) es et)"
  | (minimum_fault) s3 where "min_target h s3 = (Inl er, s')"
  | (minimum) s1 s2 s3 m where
      "conflicting_at_target h (ac_target_epoch c) s = (Inr None, s1)"
      "surrounding_exists h (ac_source_epoch c) (ac_target_epoch c) s1 = (Inr None, s2)"
      "surrounded_exists h (ac_source_epoch c) (ac_target_epoch c) s2 = (Inr None, s3)"
      "min_target h s3 = (Inr (Some m), s')" "ac_target_epoch c < m"
      "er = SlashableAttestation (TargetEpochBelowMinimum (ac_target_epoch c) m)"
proof -
  note run = assms [unfolded check_attestation_def Let_def check_Inl]
  show thesis
    using run
    apply (elim disjE exE conjE)
    subgoal by (rule source_floor) simp_all
    subgoal by (rule target_floor) simp_all
    subgoal by (rule conflict_fault) simp_all
    subgoal by (rule double) simp_all
    subgoal by (rule surrounding_fault) simp_all
    subgoal by (simp, rule surrounded_fault) simp_all
    subgoal by simp
    subgoal by (simp, rule minimum_fault) simp_all
    subgoal by (simp, rule minimum) simp_all
    subgoal by (simp, rule surrounded) simp_all
    subgoal by (rule surrounding) simp_all
    done
qed

lemma check_block_Stage_iff:
  "check_block pk h wm c strict s = (Inr BlockStage, s') \<longleftrightarrow>
     above_block_floor wm c \<and> (\<exists>s1 mn. signing_root_at_slot h (bc_slot c) s = (Inr None, s1)
     \<and> min_slot h s1 = (Inr mn, s') \<and> (\<forall>m. mn = Some m \<longrightarrow> \<not> bc_slot c < m))"
  unfolding check_block_def above_block_floor_def bindE_Inr_iff floor_check_Inr
  by (auto simp: bindE_Inr_iff floor_check_Inr not_le split: option.splits if_splits)

lemma check_block_Resign_iff:
  "check_block pk h wm c strict s = (Inr BlockResign, s') \<longleftrightarrow>
     above_block_floor wm c \<and> (\<exists>r. signing_root_at_slot h (bc_slot c) s = (Inr (Some r), s')
     \<and> is_resign strict r (bc_signing_root c))"
  unfolding check_block_def above_block_floor_def bindE_Inr_iff floor_check_Inr
  by (auto simp: bindE_Inr_iff floor_check_Inr not_le split: option.splits if_splits)

subsection \<open>Attestations\<close>

text \<open>
  \<open>ok\<close> are the states the provider keeps, \<open>valid\<close> the epochs it orders correctly,
  \<open>rows\<close> the history of the validator in question, \<open>fault\<close> the errors a query of the
  provider may itself end in.
\<close>

locale attestation_history_laws =
  fixes h :: "'s attestation_history"
    and rows :: "'s \<Rightarrow> existing_att set"
    and ok :: "'s \<Rightarrow> bool"
    and valid :: "epoch \<Rightarrow> bool"
    and fault :: "slashing_error \<Rightarrow> bool"
  assumes conflicting_frame: "keeps_ok (preserves ok rows) (conflicting_at_target h t)"
    and surrounding_frame: "keeps_ok (preserves ok rows) (surrounding_exists h a b)"
    and surrounded_frame: "keeps_ok (preserves ok rows) (surrounded_exists h a b)"
    and min_target_frame: "keeps_ok (preserves ok rows) (min_target h)"
    and conflicting_fault: "conflicting_at_target h t s = (Inl er, s') \<Longrightarrow> fault er"
    and surrounding_fault: "surrounding_exists h a b s = (Inl er, s') \<Longrightarrow> fault er"
    and surrounded_fault: "surrounded_exists h a b s = (Inl er, s') \<Longrightarrow> fault er"
    and min_target_fault: "min_target h s = (Inl er, s') \<Longrightarrow> fault er"
    and conflicting_None:
      "ok s \<Longrightarrow> conflicting_at_target h t s = (Inr None, s') \<Longrightarrow> e \<in> rows s
         \<Longrightarrow> ea_target_epoch e \<noteq> t"
    and conflicting_Some:
      "ok s \<Longrightarrow> conflicting_at_target h t s = (Inr (Some e), s')
         \<Longrightarrow> e \<in> rows s \<and> ea_target_epoch e = t"
    and surrounding_None:
      "ok s \<Longrightarrow> valid a \<Longrightarrow> valid b \<Longrightarrow> surrounding_exists h a b s = (Inr None, s')
         \<Longrightarrow> e \<in> rows s \<Longrightarrow> \<not> surrounds (a, b) (ea_span e)"
    and surrounding_Some:
      "ok s \<Longrightarrow> valid a \<Longrightarrow> valid b \<Longrightarrow> surrounding_exists h a b s = (Inr (Some w), s')
         \<Longrightarrow> w \<in> ea_span ` rows s \<and> surrounds (a, b) w"
    and surrounded_None:
      "ok s \<Longrightarrow> valid a \<Longrightarrow> valid b \<Longrightarrow> surrounded_exists h a b s = (Inr None, s')
         \<Longrightarrow> e \<in> rows s \<Longrightarrow> \<not> surrounds (ea_span e) (a, b)"
    and surrounded_Some:
      "ok s \<Longrightarrow> valid a \<Longrightarrow> valid b \<Longrightarrow> surrounded_exists h a b s = (Inr (Some w), s')
         \<Longrightarrow> w \<in> ea_span ` rows s \<and> surrounds w (a, b)"
    and min_target_Some:
      "ok s \<Longrightarrow> min_target h s = (Inr (Some m), s')
         \<Longrightarrow> m \<in> ea_target_epoch ` rows s \<and> (\<forall>e\<in>rows s. m \<le> ea_target_epoch e)"
    and min_target_None: "ok s \<Longrightarrow> min_target h s = (Inr None, s') \<Longrightarrow> rows s = {}"
begin

lemmas frames = keeps_preservesD [OF conflicting_frame] keeps_preservesD [OF surrounding_frame]
  keeps_preservesD [OF surrounded_frame] keeps_preservesD [OF min_target_frame]

lemmas faults = conflicting_fault surrounding_fault surrounded_fault min_target_fault

lemma check_attestation_keeps:
  "keeps_ok (preserves ok rows) (check_attestation pk h wm c strict)"
  unfolding check_attestation_def Let_def
  by (intro keeps_preserves_bind keeps_ok_option keeps_ok_if keeps_ok_ret keeps_ok_throw preserves_refl
      conflicting_frame surrounding_frame surrounded_frame min_target_frame
      | split prod.split)+ auto

lemma check_attestation_frame:
  assumes "ok s" "check_attestation pk h wm c strict s = (Inr v, s')"
  shows "ok s' \<and> rows s' = rows s"
  using check_attestation_keeps assms by (rule keeps_preservesD)

lemma check_attestation_Stage:
  assumes "ok s" "valid (ac_source_epoch c)" "valid (ac_target_epoch c)"
    and "check_attestation pk h wm c strict s = (Inr AttStage, s')"
  shows "above_att_floors wm c" "\<not> att_conflict (rows s) c strict'"
    "\<And>e. e \<in> rows s \<Longrightarrow> ea_target_epoch e \<noteq> ac_target_epoch c"
    "rows s = {} \<or> (\<exists>e\<in>rows s. ea_target_epoch e < ac_target_epoch c)"
proof -
  obtain s1 s2 s3 mn where fl: "above_att_floors wm c"
    and 1: "conflicting_at_target h (ac_target_epoch c) s = (Inr None, s1)"
    and 2: "surrounding_exists h (ac_source_epoch c) (ac_target_epoch c) s1 = (Inr None, s2)"
    and 3: "surrounded_exists h (ac_source_epoch c) (ac_target_epoch c) s2 = (Inr None, s3)"
    and 4: "min_target h s3 = (Inr mn, s')" "\<And>m. mn = Some m \<Longrightarrow> \<not> ac_target_epoch c < m"
    using assms(4) unfolding check_attestation_Stage_iff by blast
  have s1: "ok s1 \<and> rows s1 = rows s" using conflicting_frame assms(1) 1 by (rule keeps_preservesD)
  have s2: "ok s2 \<and> rows s2 = rows s" using keeps_preservesD [OF surrounding_frame _ 2] s1 by simp
  have s3: "ok s3 \<and> rows s3 = rows s" using keeps_preservesD [OF surrounded_frame _ 3] s2 by simp
  show "above_att_floors wm c" by (rule fl)
  show *: "\<And>e. e \<in> rows s \<Longrightarrow> ea_target_epoch e \<noteq> ac_target_epoch c"
    using conflicting_None [OF assms(1) 1] .
  show "\<not> att_conflict (rows s) c strict'"
    using * surrounding_None [OF _ assms(2,3) 2] surrounded_None [OF _ assms(2,3) 3] s1 s2
    by (auto simp: att_conflict_def)
  show "rows s = {} \<or> (\<exists>e\<in>rows s. ea_target_epoch e < ac_target_epoch c)"
  proof (cases mn)
    case None
    then show ?thesis using min_target_None [of s3 s'] s3 4 by simp
  next
    case (Some m)
    then show ?thesis using min_target_Some [of s3 m s'] s3 4 * by force
  qed
qed

lemma check_attestation_Duplicate:
  assumes "ok s" "valid (ac_source_epoch c)" "valid (ac_target_epoch c)"
    and "check_attestation pk h wm c strict s = (Inr AttDuplicate, s')"
  shows "above_att_floors wm c"
    "\<exists>e\<in>rows s. ea_target_epoch e = ac_target_epoch c
       \<and> is_resign strict (ea_signing_root e) (ac_signing_root c)"
    "\<And>e. e \<in> rows s \<Longrightarrow> \<not> surrounds (ac_span c) (ea_span e) \<and> \<not> surrounds (ea_span e) (ac_span c)"
proof -
  obtain e s1 s2 where fl: "above_att_floors wm c"
    and 1: "conflicting_at_target h (ac_target_epoch c) s = (Inr (Some e), s1)"
    and r: "is_resign strict (ea_signing_root e) (ac_signing_root c)"
    and 2: "surrounding_exists h (ac_source_epoch c) (ac_target_epoch c) s1 = (Inr None, s2)"
    and 3: "surrounded_exists h (ac_source_epoch c) (ac_target_epoch c) s2 = (Inr None, s')"
    using assms(4) unfolding check_attestation_Duplicate_iff by blast
  have s1: "ok s1 \<and> rows s1 = rows s" using conflicting_frame assms(1) 1 by (rule keeps_preservesD)
  have s2: "ok s2 \<and> rows s2 = rows s" using keeps_preservesD [OF surrounding_frame _ 2] s1 by simp
  show "above_att_floors wm c" by (rule fl)
  show "\<exists>e\<in>rows s. ea_target_epoch e = ac_target_epoch c
       \<and> is_resign strict (ea_signing_root e) (ac_signing_root c)"
    using conflicting_Some [OF assms(1) 1] r by blast
  show "\<And>e. e \<in> rows s \<Longrightarrow> \<not> surrounds (ac_span c) (ea_span e) \<and> \<not> surrounds (ea_span e) (ac_span c)"
    using surrounding_None [OF _ assms(2,3) 2] surrounded_None [OF _ assms(2,3) 3] s1 s2 by blast
qed

lemma check_attestation_Inl:
  assumes "ok s" "valid (ac_source_epoch c)" "valid (ac_target_epoch c)"
    and "check_attestation pk h wm c strict s = (Inl er, s')"
  shows "fault er \<or> att_rejection pk wm (rows s) c strict er"
  using assms(4)
proof (cases rule: check_attestation_InlE)
  case (surrounding ex s1 es et)
  then show ?thesis
    using surrounding_Some [OF _ assms(2,3) surrounding(3)] frames(1) [OF assms(1) surrounding(1)]
    by auto
next
  case (surrounded ex s1 s2 es et)
  then show ?thesis
    using surrounded_Some [OF _ assms(2,3) surrounded(3)] frames(1) [OF assms(1) surrounded(1)]
      frames(2) [OF _ surrounded(2)] by auto
next
  case (minimum s1 s2 s3 m)
  have "ok s3 \<and> rows s3 = rows s"
    using frames(1) [OF assms(1) minimum(1)] frames(2) [OF _ minimum(2)] frames(3) [OF _ minimum(3)]
    by simp
  then show ?thesis using minimum min_target_Some [of s3 m s'] by auto
qed (use conflicting_Some [OF assms(1)] in \<open>auto dest: faults\<close>)

end

text \<open>
  A refusal always has one of three grounds: a floor, a slashable pair, or a target below
  everything on record.
\<close>

definition below_minimum :: "'a::linorder set \<Rightarrow> 'a \<Rightarrow> bool" where
  "below_minimum T t \<longleftrightarrow> T \<noteq> {} \<and> (\<forall>x\<in>T. t < x)"

lemma att_rejection_grounds:
  "att_rejection pk wm R c strict er \<Longrightarrow>
     \<not> above_att_floors wm c \<or> att_conflict R c strict
     \<or> below_minimum (ea_target_epoch ` R) (ac_target_epoch c)"
  by (induct pk wm R c strict er rule: att_rejection.induct)
    (auto simp: above_att_floors_iff att_conflict_def below_minimum_def)

lemma block_rejection_grounds:
  "block_rejection pk wm R c strict er \<Longrightarrow>
     \<not> above_block_floor wm c
     \<or> (\<exists>r. (bc_slot c, r) \<in> R \<and> \<not> is_resign strict r (bc_signing_root c))
     \<or> below_minimum (fst ` R) (bc_slot c)"
  by (induct pk wm R c strict er rule: block_rejection.induct)
    (auto simp: above_block_floor_def below_minimum_def)

context attestation_history_laws
begin

lemma check_attestation_decides:
  assumes "ok s" "valid (ac_source_epoch c)" "valid (ac_target_epoch c)"
    and "inj_on ea_target_epoch (rows s)"
    and run: "check_attestation pk h wm c strict s = (r, s')" and "\<And>er. r = Inl er \<Longrightarrow> \<not> fault er"
  shows "(\<exists>v. r = Inr v) \<longleftrightarrow> above_att_floors wm c \<and> \<not> att_conflict (rows s) c strict
           \<and> \<not> below_minimum (ea_target_epoch ` rows s) (ac_target_epoch c)"
proof (cases r)
  case (Inl er)
  with check_attestation_Inl [OF assms(1-3)] run assms(6) att_rejection_grounds show ?thesis
    by blast
next
  case (Inr v)
  have "above_att_floors wm c \<and> \<not> att_conflict (rows s) c strict
          \<and> \<not> below_minimum (ea_target_epoch ` rows s) (ac_target_epoch c)"
  proof (cases v)
    case AttStage
    from check_attestation_Stage [OF assms(1-3) run [unfolded Inr AttStage]] show ?thesis
      by (fastforce simp: below_minimum_def dest: less_asym)
  next
    case AttDuplicate
    from check_attestation_Duplicate [OF assms(1-3) run [unfolded Inr AttDuplicate]] assms(4)
    show ?thesis
      by (fastforce simp: below_minimum_def att_conflict_def inj_on_def)
  qed
  with Inr show ?thesis by blast
qed

end

subsection \<open>Blocks\<close>

locale block_history_laws =
  fixes h :: "'s block_history"
    and rows :: "'s \<Rightarrow> (slot \<times> string option) set"
    and ok :: "'s \<Rightarrow> bool"
    and fault :: "slashing_error \<Rightarrow> bool"
  assumes root_frame: "keeps_ok (preserves ok rows) (signing_root_at_slot h sl)"
    and min_slot_frame: "keeps_ok (preserves ok rows) (min_slot h)"
    and root_fault: "signing_root_at_slot h sl s = (Inl er, s') \<Longrightarrow> fault er"
    and min_slot_fault: "min_slot h s = (Inl er, s') \<Longrightarrow> fault er"
    and root_None:
      "ok s \<Longrightarrow> signing_root_at_slot h sl s = (Inr None, s') \<Longrightarrow> (sl, r) \<notin> rows s"
    and root_Some:
      "ok s \<Longrightarrow> signing_root_at_slot h sl s = (Inr (Some r), s') \<Longrightarrow> (sl, r) \<in> rows s"
    and min_slot_Some:
      "ok s \<Longrightarrow> min_slot h s = (Inr (Some m), s')
         \<Longrightarrow> m \<in> fst ` rows s \<and> (\<forall>e\<in>rows s. m \<le> fst e)"
    and min_slot_None: "ok s \<Longrightarrow> min_slot h s = (Inr None, s') \<Longrightarrow> rows s = {}"
begin

lemmas block_frames = keeps_preservesD [OF root_frame] keeps_preservesD [OF min_slot_frame]

lemma check_block_keeps: "keeps_ok (preserves ok rows) (check_block pk h wm c strict)"
  unfolding check_block_def
  by (intro keeps_preserves_bind keeps_ok_option keeps_ok_if keeps_ok_ret keeps_ok_throw preserves_refl
      root_frame min_slot_frame)

lemma check_block_frame:
  assumes "ok s" "check_block pk h wm c strict s = (Inr v, s')"
  shows "ok s' \<and> rows s' = rows s"
  using check_block_keeps assms by (rule keeps_preservesD)

lemma check_block_Stage:
  assumes "ok s" "check_block pk h wm c strict s = (Inr BlockStage, s')"
  shows "above_block_floor wm c" "\<And>r. (bc_slot c, r) \<notin> rows s"
    "\<not> below_minimum (fst ` rows s) (bc_slot c)"
proof -
  obtain s1 mn where fl: "above_block_floor wm c"
    and 1: "signing_root_at_slot h (bc_slot c) s = (Inr None, s1)"
    and 2: "min_slot h s1 = (Inr mn, s')" "\<And>m. mn = Some m \<Longrightarrow> \<not> bc_slot c < m"
    using assms(2) unfolding check_block_Stage_iff by blast
  have s1: "ok s1 \<and> rows s1 = rows s" using block_frames(1) [OF assms(1) 1] .
  show "above_block_floor wm c" by (rule fl)
  show "\<And>r. (bc_slot c, r) \<notin> rows s" using root_None [OF assms(1) 1] .
  show "\<not> below_minimum (fst ` rows s) (bc_slot c)"
    using 2 min_slot_Some [of s1 _ s'] min_slot_None [of s1 s'] s1
    by (cases mn) (fastforce simp: below_minimum_def)+
qed

lemma check_block_Resign:
  assumes "ok s" "check_block pk h wm c strict s = (Inr BlockResign, s')"
  shows "above_block_floor wm c"
    "\<exists>r. (bc_slot c, r) \<in> rows s \<and> is_resign strict r (bc_signing_root c)"
  using assms root_Some [OF assms(1)] unfolding check_block_Resign_iff by blast+

lemma check_block_Inl:
  assumes "ok s" and run: "check_block pk h wm c strict s = (Inl er, s')"
  shows "fault er \<or> block_rejection pk wm (rows s) c strict er"
proof -
  consider (floor) w where "bw_block wm = Some w" "bc_slot c \<le> w"
      "er = BelowBlockWatermark pk (bc_slot c) w"
    | (root_fault) "signing_root_at_slot h (bc_slot c) s = (Inl er, s')"
    | (double) r s1 where "signing_root_at_slot h (bc_slot c) s = (Inr (Some r), s1)"
      "\<not> is_resign strict r (bc_signing_root c)"
      "er = SlashableBlock (DoubleBlockProposal (bc_slot c))"
    | (min_fault) s1 where "min_slot h s1 = (Inl er, s')"
    | (minimum) s1 m where "signing_root_at_slot h (bc_slot c) s = (Inr None, s1)"
      "min_slot h s1 = (Inr (Some m), s')" "bc_slot c < m"
      "er = SlashableBlock (SlotBelowMinimum (bc_slot c) m)"
    using run unfolding check_block_def check_Inl root_check_Inl by blast
  then show ?thesis
  proof cases
    case (minimum s1 m)
    then show ?thesis
      using block_frames(1) [OF assms(1) minimum(1)] min_slot_Some [of s1 m s'] by auto
  qed (use root_Some [OF assms(1)] root_fault min_slot_fault in fastforce)+
qed

end

subsection \<open>Relations that every query keeps\<close>

lemma keeps_check_attestation:
  assumes "\<And>s. R s s" "\<And>s t u. R s t \<Longrightarrow> R t u \<Longrightarrow> R s u"
    and "\<And>t. keeps R (conflicting_at_target h t)" "\<And>a b. keeps R (surrounding_exists h a b)"
    and "\<And>a b. keeps R (surrounded_exists h a b)" "keeps R (min_target h)"
  shows "keeps R (check_attestation pk h wm c strict)"
  unfolding check_attestation_def Let_def
  by (intro keeps_bind [where R = R] keeps_option keeps_if keeps_ret keeps_throw assms(1,3-6)
      | (split prod.split, intro allI impI) | (erule (1) assms(2)))+

lemma keeps_check_block:
  assumes "\<And>s. R s s" "\<And>s t u. R s t \<Longrightarrow> R t u \<Longrightarrow> R s u"
    and "\<And>sl. keeps R (signing_root_at_slot h sl)" "keeps R (min_slot h)"
  shows "keeps R (check_block pk h wm c strict)"
  unfolding check_block_def
  by (intro keeps_bind [where R = R] keeps_option keeps_if keeps_ret keeps_throw assms(1,3,4)
      | (erule (1) assms(2)))+

lemma keeps_unless_check_attestation:
  assumes "\<And>s. R s s" "\<And>s t u. R s t \<Longrightarrow> R t u \<Longrightarrow> R s u"
    and "\<And>t. keeps_unless F R (conflicting_at_target h t)" "\<And>a b. keeps_unless F R (surrounding_exists h a b)"
    and "\<And>a b. keeps_unless F R (surrounded_exists h a b)" "keeps_unless F R (min_target h)"
  shows "keeps_unless F R (check_attestation pk h wm c strict)"
  unfolding check_attestation_def Let_def
  by (intro keeps_unless_bind [where R = R and F = F] keeps_unless_option keeps_unless_if keeps_unless_ret keeps_unless_throw
      assms(1,3-6) | (split prod.split, intro allI impI) | (erule (1) assms(2)))+

lemma keeps_unless_check_block:
  assumes "\<And>s. R s s" "\<And>s t u. R s t \<Longrightarrow> R t u \<Longrightarrow> R s u"
    and "\<And>sl. keeps_unless F R (signing_root_at_slot h sl)" "keeps_unless F R (min_slot h)"
  shows "keeps_unless F R (check_block pk h wm c strict)"
  unfolding check_block_def
  by (intro keeps_unless_bind [where R = R and F = F] keeps_unless_option keeps_unless_if keeps_unless_ret keeps_unless_throw
      assms(1,3,4) | (erule (1) assms(2)))+

section \<open>The vector-backed histories keep the laws\<close>

interpretation full_att: attestation_history_laws
  "full_scan_attestation_history rs" "\<lambda>_. set rs" "\<lambda>_. True" "\<lambda>_. True" "\<lambda>_. False" for rs
  by unfold_locales
    (auto simp: full_scan_attestation_history_def keeps_ok_def preserves_def surrounds_def
      find_None_iff' min_opt_Some dest!: find_Some_in)

interpretation full_block: block_history_laws
  "full_scan_block_history rs" "\<lambda>_. set rs" "\<lambda>_. True" "\<lambda>_. False" for rs
  by unfold_locales
    (auto simp: full_scan_block_history_def keeps_ok_def preserves_def find_None_iff'
      min_opt_Some dest!: find_Some_in)

section \<open>The reference decision\<close>

text \<open>
  C2: over the vector-backed history, with at most one row per target, \<open>check_attestation\<close>
  accepts a candidate exactly when it is at or above the source floor and above the target
  floor, conflicts with no row (no double vote, no surround in either direction), and its
  target is not below everything on record.
\<close>

theorem check_attestation_full_scan_decides:
  assumes "distinct (map ea_target_epoch rs)"
  shows "(\<exists>v. fst (check_attestation pk (full_scan_attestation_history rs) wm c strict s) = Inr v)
     \<longleftrightarrow> above_att_floors wm c \<and> \<not> att_conflict (set rs) c strict
         \<and> \<not> below_minimum (ea_target_epoch ` set rs) (ac_target_epoch c)"
proof -
  obtain r s' where run:
    "check_attestation pk (full_scan_attestation_history rs) wm c strict s = (r, s')"
    by fastforce
  have "inj_on ea_target_epoch (set rs)" using assms by (simp add: distinct_map)
  from full_att.check_attestation_decides [OF _ _ _ this run] run show ?thesis by simp
qed

theorem check_attestation_full_scan_decides_witness:
  "let rs = [\<lparr>ea_source_epoch = 1, ea_target_epoch = 4, ea_signing_root = Some ''0xaa''\<rparr>];
       wm = \<lparr>aw_source = Some 0, aw_target = Some 2\<rparr>;
       c = \<lparr>ac_source_epoch = 0, ac_target_epoch = 5, ac_signing_root = Some ''0xbb''\<rparr>
   in distinct (map ea_target_epoch rs) \<and>
      \<not> (\<exists>v. fst (check_attestation ''0x1'' (full_scan_attestation_history rs) wm c False ()) = Inr v)"
  using check_attestation_full_scan_decides [of
      "[\<lparr>ea_source_epoch = 1, ea_target_epoch = 4, ea_signing_root = Some ''0xaa''\<rparr>]" "''0x1''"
      "\<lparr>aw_source = Some 0, aw_target = Some 2\<rparr>"
      "\<lparr>ac_source_epoch = 0, ac_target_epoch = 5, ac_signing_root = Some ''0xbb''\<rparr>" False "()"]
  by (simp add: att_conflict_def surrounds_def Let_def)

text \<open>
  C3: over the vector-backed history, with at most one row per slot, \<open>check_block\<close> accepts a
  proposal exactly when it is above the block floor, its slot holds no row or one it re-signs,
  and its slot is not below everything on record.
\<close>

theorem check_block_full_scan_decides:
  assumes "distinct (map fst rs)"
  shows "(\<exists>v. fst (check_block pk (full_scan_block_history rs) wm c strict s) = Inr v)
     \<longleftrightarrow> above_block_floor wm c
         \<and> (\<forall>r. (bc_slot c, r) \<in> set rs \<longrightarrow> is_resign strict r (bc_signing_root c))
         \<and> \<not> below_minimum (fst ` set rs) (bc_slot c)"
proof -
  obtain r s' where run: "check_block pk (full_scan_block_history rs) wm c strict s = (r, s')"
    by fastforce
  have inj: "inj_on fst (set rs)" using assms by (simp add: distinct_map)
  show ?thesis
  proof (cases r)
    case (Inl er)
    then show ?thesis
      using full_block.check_block_Inl [OF TrueI run [unfolded Inl]] run
      by (auto dest!: block_rejection_grounds)
  next
    case (Inr v)
    have "above_block_floor wm c
        \<and> (\<forall>r. (bc_slot c, r) \<in> set rs \<longrightarrow> is_resign strict r (bc_signing_root c))
        \<and> \<not> below_minimum (fst ` set rs) (bc_slot c)"
    proof (cases v)
      case BlockStage
      from full_block.check_block_Stage [OF TrueI run [unfolded Inr BlockStage]] show ?thesis
        by blast
    next
      case BlockResign
      from full_block.check_block_Resign [OF TrueI run [unfolded Inr BlockResign]] inj
      show ?thesis by (fastforce simp: inj_on_def below_minimum_def)
    qed
    with run Inr show ?thesis by simp
  qed
qed

theorem check_block_full_scan_decides_witness:
  "let rs = [(7, Some ''0xaa'')]; c = \<lparr>bc_slot = 7, bc_signing_root = Some ''0xaa''\<rparr>
   in distinct (map fst rs) \<and>
      (\<exists>v. fst (check_block ''0x1'' (full_scan_block_history rs) \<lparr>bw_block = Some 6\<rparr> c True ()) = Inr v)"
  using check_block_full_scan_decides [of "[(7, Some ''0xaa'')]" "''0x1''" "\<lparr>bw_block = Some 6\<rparr>"
      "\<lparr>bc_slot = 7, bc_signing_root = Some ''0xaa''\<rparr>" True "()"]
  by (simp add: above_block_floor_def below_minimum_def is_resign_def Let_def)

end
