(* ===== verification/Slashing_Store.thy ===== *)
theory Slashing_Store
  imports Slashing_Rules
begin

text \<open>
  The SQLite side of the slashing database: the tables of the schema, the connection with its
  transaction, the statements that the code issues, the watermark helpers of
  \<open>db/watermarks.rs\<close> and the one-query-per-question histories of \<open>history.rs\<close>.

  SQLite itself is not part of the sources. The model keeps what the code relies on (tables with
  unique keys, signed 64-bit integers, one open transaction at most, nothing durable before
  \<open>COMMIT\<close>) and leaves everything else to an arbitrary \<open>tape\<close>: each statement takes one
  entry, which may make it fail with any message. A failure may also end the open transaction, as
  the engine does on a full disk or an I/O error. The number in an entry decides that, and also
  which row a \<open>LIMIT 1\<close> without \<open>ORDER BY\<close> returns. An exhausted tape means no more faults.
\<close>

section \<open>Tables and connection\<close>

record att_row =
  ar_client_cn :: string
  ar_pubkey :: string
  ar_source :: int
  ar_target :: int
  ar_signing_root :: "string option"
  ar_gvr :: "string option"

record block_row =
  br_client_cn :: string
  br_pubkey :: string
  br_slot :: int
  br_signing_root :: "string option"
  br_gvr :: "string option"

datatype watermark_kind = Block | AttestationSource | AttestationTarget

definition as_sql_str :: "watermark_kind \<Rightarrow> string" where
  "as_sql_str k =
     (case k of Block \<Rightarrow> ''block'' | AttestationSource \<Rightarrow> ''att_source''
      | AttestationTarget \<Rightarrow> ''att_target'')"

record wm_row =
  wr_pubkey :: string
  wr_type :: string
  wr_value :: int

record tables =
  attestations :: "att_row list"
  blocks :: "block_row list"
  watermarks :: "wm_row list"
  metadata :: "(string \<times> string) list"

type_synonym outcome = "string option \<times> nat"

record conn =
  committed :: tables
  txn :: "tables option"
  tape :: "outcome list"

definition current :: "conn \<Rightarrow> tables" where
  "current c = (case txn c of Some t \<Rightarrow> t | None \<Rightarrow> committed c)"

definition write_tables :: "tables \<Rightarrow> conn \<Rightarrow> conn" where
  "write_tables t c =
     (case txn c of Some _ \<Rightarrow> c\<lparr>txn := Some t\<rparr> | None \<Rightarrow> c\<lparr>committed := t\<rparr>)"

section \<open>Statements\<close>

text \<open>Take one entry of the tape; a fault may abandon the open transaction.\<close>

definition statement :: "(nat \<Rightarrow> conn \<Rightarrow> (string + 'a) \<times> conn) \<Rightarrow> (conn, string, 'a) action" where
  "statement body c =
     (case tape c of
        [] \<Rightarrow> body 0 c
      | (None, n) # rest \<Rightarrow> body n (c\<lparr>tape := rest\<rparr>)
      | (Some msg, n) # rest \<Rightarrow>
          (Inl msg, if odd n then c\<lparr>tape := rest, txn := None\<rparr> else c\<lparr>tape := rest\<rparr>))"

definition sql_query :: "(nat \<Rightarrow> tables \<Rightarrow> 'a) \<Rightarrow> (conn, string, 'a) action" where
  "sql_query q = statement (\<lambda>n c. (Inr (q n (current c)), c))"

text \<open>
  A statement that writes: a violated constraint undoes the statement and leaves the transaction
  open; otherwise the number of changed rows is returned.
\<close>

definition sql_execute :: "(tables \<Rightarrow> string + nat \<times> tables) \<Rightarrow> (conn, string, nat) action" where
  "sql_execute f = statement (\<lambda>n c.
     case f (current c) of
       Inl msg \<Rightarrow> (Inl msg, c)
     | Inr (k, t) \<Rightarrow> (Inr k, write_tables t c))"

definition sql_begin_immediate :: "(conn, string, unit) action" where
  "sql_begin_immediate = statement (\<lambda>n c.
     case txn c of
       Some _ \<Rightarrow> (Inl ''cannot start a transaction within a transaction'', c)
     | None \<Rightarrow> (Inr (), c\<lparr>txn := Some (committed c)\<rparr>))"

definition sql_commit :: "(conn, string, unit) action" where
  "sql_commit = statement (\<lambda>n c.
     case txn c of
       None \<Rightarrow> (Inl ''cannot commit - no transaction is active'', c)
     | Some t \<Rightarrow> (Inr (), c\<lparr>committed := t, txn := None\<rparr>))"

definition sql_rollback :: "(conn, string, unit) action" where
  "sql_rollback = statement (\<lambda>n c.
     case txn c of
       None \<Rightarrow> (Inl ''cannot rollback - no transaction is active'', c)
     | Some _ \<Rightarrow> (Inr (), c\<lparr>txn := None\<rparr>))"

text \<open>The conversion of \<open>rusqlite::Error\<close> that \<open>?\<close> applies.\<close>

definition map_err :: "('e \<Rightarrow> 'f) \<Rightarrow> ('s, 'e, 'a) action \<Rightarrow> ('s, 'f, 'a) action" where
  "map_err f m = (\<lambda>s. case m s of (Inl e, s') \<Rightarrow> (Inl (f e), s') | (Inr x, s') \<Rightarrow> (Inr x, s'))"

abbreviation sql :: "(conn, string, 'a) action \<Rightarrow> (conn, slashing_error, 'a) action" where
  "sql \<equiv> map_err DatabaseError"

definition ignore_result :: "('s, 'e, 'a) action \<Rightarrow> ('s, 'f, unit) action" where
  "ignore_result m = (\<lambda>s. (Inr (), snd (m s)))"

text \<open>
  The inserts: the unique indexes of schema version 3 are on (pubkey, root, target) and
  (pubkey, root, slot); a NULL root is distinct from every root.
\<close>

definition att_key_taken :: "att_row \<Rightarrow> att_row list \<Rightarrow> bool" where
  "att_key_taken r rs \<longleftrightarrow> ar_gvr r \<noteq> None \<and>
     (\<exists>x\<in>set rs. ar_pubkey x = ar_pubkey r \<and> ar_gvr x = ar_gvr r \<and> ar_target x = ar_target r)"

definition block_key_taken :: "block_row \<Rightarrow> block_row list \<Rightarrow> bool" where
  "block_key_taken r rs \<longleftrightarrow> br_gvr r \<noteq> None \<and>
     (\<exists>x\<in>set rs. br_pubkey x = br_pubkey r \<and> br_gvr x = br_gvr r \<and> br_slot x = br_slot r)"

definition insert_attestation_row :: "att_row \<Rightarrow> (conn, string, nat) action" where
  "insert_attestation_row r = sql_execute (\<lambda>t.
     if att_key_taken r (attestations t) then Inl ''UNIQUE constraint failed: attestations''
     else Inr (1, t\<lparr>attestations := attestations t @ [r]\<rparr>))"

definition insert_block_row :: "block_row \<Rightarrow> (conn, string, nat) action" where
  "insert_block_row r = sql_execute (\<lambda>t.
     if block_key_taken r (blocks t) then Inl ''UNIQUE constraint failed: blocks''
     else Inr (1, t\<lparr>blocks := blocks t @ [r]\<rparr>))"

section \<open>Watermarks\<close>

definition watermark_rows :: "string \<Rightarrow> watermark_kind \<Rightarrow> tables \<Rightarrow> wm_row list" where
  "watermark_rows pk k t =
     filter (\<lambda>w. wr_pubkey w = pk \<and> wr_type w = as_sql_str k) (watermarks t)"

definition read_watermark ::
  "string \<Rightarrow> watermark_kind \<Rightarrow> (conn, slashing_error, u64 option) action" where
  "read_watermark pubkey kind =
     sql (sql_query (\<lambda>n t. map_option (\<lambda>w. as_u64 (wr_value w)) (pick n (watermark_rows pubkey kind t))))"

definition update_watermark_row :: "string \<Rightarrow> watermark_kind \<Rightarrow> int \<Rightarrow> (conn, string, nat) action" where
  "update_watermark_row pubkey kind v = sql_execute (\<lambda>t.
     Inr (length (watermark_rows pubkey kind t),
       t\<lparr>watermarks := map (\<lambda>w. if wr_pubkey w = pubkey \<and> wr_type w = as_sql_str kind
                              then w\<lparr>wr_value := v\<rparr> else w) (watermarks t)\<rparr>))"

definition insert_watermark_row :: "string \<Rightarrow> watermark_kind \<Rightarrow> int \<Rightarrow> (conn, string, nat) action" where
  "insert_watermark_row pubkey kind v = sql_execute (\<lambda>t.
     if watermark_rows pubkey kind t \<noteq> [] then Inl ''UNIQUE constraint failed: watermarks''
     else Inr (1, t\<lparr>watermarks := watermarks t
       @ [\<lparr>wr_pubkey = pubkey, wr_type = as_sql_str kind, wr_value = v\<rparr>]\<rparr>))"

definition raise_watermark ::
  "string \<Rightarrow> watermark_kind \<Rightarrow> u64 \<Rightarrow> (conn, slashing_error, unit) action" where
  "raise_watermark pubkey kind value =
     bindE (read_watermark pubkey kind)
     (\<lambda>existing. case existing of
        Some cur \<Rightarrow>
          if value < cur then throwE (WatermarkLowered pubkey (as_sql_str kind) cur value)
          else bindE (sql (update_watermark_row pubkey kind (as_i64 value))) (\<lambda>_. retE ())
      | None \<Rightarrow> bindE (sql (insert_watermark_row pubkey kind (as_i64 value))) (\<lambda>_. retE ()))"

text \<open>\<open>RAISE_WATERMARK_MAX_SQL\<close>; the \<open>MAX\<close> is of signed integers.\<close>

definition upsert_watermark_max :: "string \<Rightarrow> watermark_kind \<Rightarrow> int \<Rightarrow> tables \<Rightarrow> tables" where
  "upsert_watermark_max pubkey kind v t =
     (if watermark_rows pubkey kind t = []
      then t\<lparr>watermarks := watermarks t
             @ [\<lparr>wr_pubkey = pubkey, wr_type = as_sql_str kind, wr_value = v\<rparr>]\<rparr>
      else t\<lparr>watermarks := map (\<lambda>w. if wr_pubkey w = pubkey \<and> wr_type w = as_sql_str kind
             then w\<lparr>wr_value := max (wr_value w) v\<rparr> else w) (watermarks t)\<rparr>)"

definition raise_watermark_max ::
  "string \<Rightarrow> watermark_kind \<Rightarrow> u64 \<Rightarrow> (conn, slashing_error, unit) action" where
  "raise_watermark_max pubkey kind value =
     bindE (sql (sql_execute (\<lambda>t. Inr (1, upsert_watermark_max pubkey kind (as_i64 value) t))))
     (\<lambda>_. retE ())"

section \<open>Histories answered by SQL\<close>

definition att_rows_of :: "string \<Rightarrow> tables \<Rightarrow> att_row list" where
  "att_rows_of pk t = filter (\<lambda>r. ar_pubkey r = pk) (attestations t)"

definition block_rows_of :: "string \<Rightarrow> tables \<Rightarrow> block_row list" where
  "block_rows_of pk t = filter (\<lambda>r. br_pubkey r = pk) (blocks t)"

definition att_row_span :: "att_row \<Rightarrow> epoch \<times> epoch" where
  "att_row_span r = (as_u64 (ar_source r), as_u64 (ar_target r))"

definition existing_of_row :: "att_row \<Rightarrow> existing_att" where
  "existing_of_row r =
     \<lparr>ea_source_epoch = as_u64 (ar_source r), ea_target_epoch = as_u64 (ar_target r),
      ea_signing_root = ar_signing_root r\<rparr>"

definition targeted_sql_attestation_history :: "string \<Rightarrow> conn attestation_history" where
  "targeted_sql_attestation_history pubkey =
     \<lparr>conflicting_at_target = (\<lambda>target. sql (sql_query (\<lambda>n t.
        map_option existing_of_row
          (pick n (filter (\<lambda>r. ar_target r = as_i64 target) (att_rows_of pubkey t)))))),
      surrounding_exists = (\<lambda>source target. sql (sql_query (\<lambda>n t.
        map_option att_row_span
          (pick n (filter (\<lambda>r. ar_source r > as_i64 source \<and> ar_target r < as_i64 target)
             (att_rows_of pubkey t)))))),
      surrounded_exists = (\<lambda>source target. sql (sql_query (\<lambda>n t.
        map_option att_row_span
          (pick n (filter (\<lambda>r. ar_source r < as_i64 source \<and> ar_target r > as_i64 target)
             (att_rows_of pubkey t)))))),
      min_target = sql (sql_query (\<lambda>n t.
        map_option as_u64 (min_opt (map ar_target (att_rows_of pubkey t)))))\<rparr>"

definition targeted_sql_block_history :: "string \<Rightarrow> conn block_history" where
  "targeted_sql_block_history pubkey =
     \<lparr>signing_root_at_slot = (\<lambda>slot. sql (sql_query (\<lambda>n t.
        map_option br_signing_root
          (pick n (filter (\<lambda>r. br_slot r = as_i64 slot) (block_rows_of pubkey t)))))),
      min_slot = sql (sql_query (\<lambda>n t.
        map_option as_u64 (min_opt (map br_slot (block_rows_of pubkey t)))))\<rparr>"

section \<open>Facts about statements\<close>

text \<open>What a statement that only reads can do to the connection.\<close>

definition same_tables :: "conn \<Rightarrow> conn \<Rightarrow> bool" where
  "same_tables c c' \<longleftrightarrow> committed c' = committed c \<and> txn c' = txn c"

definition reads :: "conn \<Rightarrow> conn \<Rightarrow> bool" where
  "reads c c' \<longleftrightarrow> committed c' = committed c \<and> (txn c' = txn c \<or> txn c' = None)"

lemma same_tables_refl [simp]: "same_tables c c" by (simp add: same_tables_def)

lemma same_tables_trans [trans]:
  "same_tables a b \<Longrightarrow> same_tables b c \<Longrightarrow> same_tables a c"
  by (simp add: same_tables_def)

lemma reads_refl [simp]: "reads c c" by (simp add: reads_def)

lemma reads_trans [trans]: "reads a b \<Longrightarrow> reads b c \<Longrightarrow> reads a c"
  by (auto simp: reads_def)

lemma same_tables_current: "same_tables c c' \<Longrightarrow> current c' = current c"
  by (simp add: same_tables_def current_def split: option.splits)

lemma same_tables_reads: "same_tables c c' \<Longrightarrow> reads c c'"
  by (simp add: same_tables_def reads_def)

lemma current_tape [simp]: "current (c\<lparr>tape := r\<rparr>) = current c"
  by (simp add: current_def split: option.splits)

lemma current_txn [simp]: "txn c = Some t \<Longrightarrow> current c = t"
  by (simp add: current_def)

lemma map_err_Inr_iff [simp]: "map_err f m s = (Inr x, t) \<longleftrightarrow> m s = (Inr x, t)"
  by (auto simp: map_err_def split: prod.splits sum.splits)

lemma map_err_Inl_iff: "map_err f m s = (Inl e, t) \<longleftrightarrow> (\<exists>e'. e = f e' \<and> m s = (Inl e', t))"
  by (auto simp: map_err_def split: prod.splits sum.splits)

lemma keeps_map_err [simp]: "keeps R (map_err f m) \<longleftrightarrow> keeps R m"
proof -
  have "snd (map_err f m s) = snd (m s)" for s
    by (auto simp: map_err_def split: prod.splits sum.splits)
  then show ?thesis by (simp add: keeps_def)
qed

lemma keeps_ok_map_err: "keeps_ok R (map_err f m) \<longleftrightarrow> keeps_ok R m"
  unfolding keeps_ok_def map_err_Inr_iff by (rule refl)

lemma statement_cases:
  obtains (run) n r where "statement body c = body n (c\<lparr>tape := r\<rparr>)"
  | (fault) msg r where "statement body c = (Inl msg, c\<lparr>tape := r\<rparr>)"
  | (abandoned) msg r where "statement body c = (Inl msg, c\<lparr>tape := r, txn := None\<rparr>)"
proof (cases "tape c")
  case Nil
  have "c = c\<lparr>tape := tape c\<rparr>" by simp
  then have "c = c\<lparr>tape := []\<rparr>" unfolding Nil .
  moreover have "statement body c = body 0 c" using Nil by (simp add: statement_def)
  ultimately show thesis using run [of 0 "[]"] by argo
next
  case (Cons x rest)
  obtain oc n where "x = (oc, n)" by fastforce
  with Cons run fault abandoned show thesis
    by (cases oc; cases "odd n") (simp_all add: statement_def)
qed

lemma sql_query_InrE:
  assumes "sql_query q c = (Inr x, c')"
  obtains n where "q n (current c) = x" "same_tables c c'"
  using assms unfolding sql_query_def
  by (cases rule: statement_cases [of "\<lambda>n c. (Inr (q n (current c)), c)" c])
    (auto simp: same_tables_def)

lemma keeps_reads_query [simp]: "keeps reads (sql_query q)"
  unfolding keeps_def
proof
  fix c
  show "reads c (snd (sql_query q c))" unfolding sql_query_def
    by (cases rule: statement_cases [of "\<lambda>n c. (Inr (q n (current c)), c)" c])
      (auto simp: reads_def)
qed

lemma keeps_ok_query [simp]: "keeps_ok same_tables (sql_query q)"
  by (auto simp: keeps_ok_def elim: sql_query_InrE)

section \<open>The SQL histories keep the laws on 63-bit epochs\<close>

text \<open>
  Signed and unsigned order agree below \<open>2 ^ 63\<close>, and a row written from such a value reads
  back as it was. Outside that range the comparisons of SQLite are not those of the rules.
\<close>

definition safe_int :: "int \<Rightarrow> bool" where
  "safe_int v \<longleftrightarrow> 0 \<le> v \<and> v < 2 ^ 63"

definition safe_tables :: "tables \<Rightarrow> bool" where
  "safe_tables t \<longleftrightarrow>
     (\<forall>r\<in>set (attestations t). safe_int (ar_source r) \<and> safe_int (ar_target r))
     \<and> (\<forall>r\<in>set (blocks t). safe_int (br_slot r))
     \<and> (\<forall>w\<in>set (watermarks t). safe_int (wr_value w))"

lemma uint_as_u64: "safe_int v \<Longrightarrow> uint (as_u64 v) = v"
  by (simp add: safe_int_def as_u64_def uint_word_of_int_eq take_bit_int_eq_self)

lemma safe_as_u64: "safe_int v \<Longrightarrow> i64_safe (as_u64 v)"
  using uint_as_u64 [of v] by (simp add: i64_safe_def word_less_def safe_int_def)

lemma as_i64_as_u64 [simp]: "safe_int v \<Longrightarrow> as_i64 (as_u64 v) = v"
  by (simp add: as_i64_safe safe_as_u64 uint_as_u64)

lemma safe_as_i64: "i64_safe w \<Longrightarrow> safe_int (as_i64 w)"
  by (simp add: as_i64_safe safe_int_def i64_safe_def word_less_def)

lemma as_u64_less_iff: "safe_int a \<Longrightarrow> safe_int b \<Longrightarrow> as_u64 a < as_u64 b \<longleftrightarrow> a < b"
  by (simp add: word_less_def uint_as_u64)

lemma as_u64_le_iff: "safe_int a \<Longrightarrow> safe_int b \<Longrightarrow> as_u64 a \<le> as_u64 b \<longleftrightarrow> a \<le> b"
  by (simp add: word_le_def uint_as_u64)

lemma as_i64_less_iff: "safe_int v \<Longrightarrow> i64_safe w \<Longrightarrow> as_i64 w < v \<longleftrightarrow> w < as_u64 v"
  using as_i64_less [of w "as_u64 v"] by (simp add: safe_as_u64)

lemma less_as_i64_iff: "safe_int v \<Longrightarrow> i64_safe w \<Longrightarrow> v < as_i64 w \<longleftrightarrow> as_u64 v < w"
  using as_i64_less [of "as_u64 v" w] by (simp add: safe_as_u64)

lemma eq_as_i64_iff: "safe_int v \<Longrightarrow> v = as_i64 w \<longleftrightarrow> as_u64 v = w"
  by (metis as_i64_as_u64 as_u64_as_i64)

definition att_history_of :: "string \<Rightarrow> tables \<Rightarrow> existing_att set" where
  "att_history_of pk t = existing_of_row ` set (att_rows_of pk t)"

definition block_history_of :: "string \<Rightarrow> tables \<Rightarrow> (slot \<times> string option) set" where
  "block_history_of pk t = (\<lambda>r. (as_u64 (br_slot r), br_signing_root r)) ` set (block_rows_of pk t)"

lemma safe_rows_of:
  assumes "safe_tables t"
  shows "r \<in> set (att_rows_of pk t) \<Longrightarrow> safe_int (ar_source r) \<and> safe_int (ar_target r)"
    and "b \<in> set (block_rows_of pk t) \<Longrightarrow> safe_int (br_slot b)"
  using assms by (auto simp: safe_tables_def att_rows_of_def block_rows_of_def)

lemma frame_of_current:
  "keeps_ok (preserves (\<lambda>c. P (current c)) (\<lambda>c. view (current c))) (map_err f (sql_query q))"
  unfolding keeps_ok_map_err
  by (auto simp: keeps_ok_def preserves_def elim!: sql_query_InrE dest!: same_tables_current)

lemma min_opt_as_u64:
  assumes "\<forall>x\<in>set xs. safe_int x" "min_opt xs = Some m"
  shows "as_u64 m \<in> as_u64 ` set xs \<and> (\<forall>x\<in>set xs. as_u64 m \<le> as_u64 x)"
  using assms by (auto simp: min_opt_Some as_u64_le_iff)

lemma pick_filter_Some:
  "pick n (filter P xs) = Some x \<Longrightarrow> x \<in> set xs \<and> P x"
  by (drule pick_in) simp

lemma att_history_ofE:
  assumes "e \<in> att_history_of pk t" "safe_tables t"
  obtains r where "r \<in> set (att_rows_of pk t)" "e = existing_of_row r"
    "safe_int (ar_source r)" "safe_int (ar_target r)"
  using assms safe_rows_of(1) [OF assms(2)] by (auto simp: att_history_of_def)

lemma ea_existing_of_row [simp]:
  "ea_source_epoch (existing_of_row r) = as_u64 (ar_source r)"
  "ea_target_epoch (existing_of_row r) = as_u64 (ar_target r)"
  "ea_signing_root (existing_of_row r) = ar_signing_root r"
  by (simp_all add: existing_of_row_def)

lemmas sql_answer = targeted_sql_attestation_history_def targeted_sql_block_history_def
  att_history_of_def surrounds_def att_row_span_def filter_empty_conv image_iff
  as_i64_less_iff less_as_i64_iff eq_as_i64_iff

interpretation sql_att: attestation_history_laws
  "targeted_sql_attestation_history pk" "\<lambda>c. att_history_of pk (current c)"
  "\<lambda>c. safe_tables (current c)" i64_safe "\<lambda>e. \<exists>m. e = DatabaseError m" for pk
proof (unfold_locales, goal_cases)
  case (9 s t s' e)
  then show ?case
    using safe_rows_of(1) [of "current s" _ pk]
    by (auto simp: sql_answer elim!: sql_query_InrE)
next
  case (10 s t e s')
  then show ?case
    by (auto simp: sql_answer elim!: sql_query_InrE dest!: pick_filter_Some)
next
  case (11 s a b s' e)
  then show ?case
    using safe_rows_of(1) [of "current s" _ pk]
    by (auto simp: sql_answer elim!: sql_query_InrE)
next
  case (12 s a b w s')
  then show ?case
    using safe_rows_of(1) [of "current s" _ pk]
    by (auto simp: sql_answer elim!: sql_query_InrE dest!: pick_filter_Some)
next
  case (13 s a b s' e)
  then show ?case
    using safe_rows_of(1) [of "current s" _ pk]
    by (auto simp: sql_answer elim!: sql_query_InrE)
next
  case (14 s a b w s')
  then show ?case
    using safe_rows_of(1) [of "current s" _ pk]
    by (auto simp: sql_answer elim!: sql_query_InrE dest!: pick_filter_Some)
next
  case (15 s m s')
  then show ?case
    using min_opt_as_u64 [of "map ar_target (att_rows_of pk (current s))"]
      safe_rows_of(1) [of "current s" _ pk]
    by (auto simp: sql_answer elim!: sql_query_InrE)
next
  case (16 s s')
  then show ?case
    by (auto simp: sql_answer elim!: sql_query_InrE)
qed (simp_all only: targeted_sql_attestation_history_def attestation_history.simps map_err_Inl_iff
    frame_of_current [where P = safe_tables and view = "att_history_of pk"], blast+)

interpretation sql_block: block_history_laws
  "targeted_sql_block_history pk" "\<lambda>c. block_history_of pk (current c)"
  "\<lambda>c. safe_tables (current c)" "\<lambda>e. \<exists>m. e = DatabaseError m" for pk
proof (unfold_locales, goal_cases)
  case (5 s sl s' r)
  then show ?case
    using safe_rows_of(2) [of "current s" _ pk]
    by (auto simp: sql_answer block_history_of_def elim!: sql_query_InrE)
next
  case (6 s sl r s')
  then show ?case
    by (force simp: sql_answer block_history_of_def elim!: sql_query_InrE dest!: pick_filter_Some)
next
  case (7 s m s')
  then show ?case
    using min_opt_as_u64 [of "map br_slot (block_rows_of pk (current s))"]
      safe_rows_of(2) [of "current s" _ pk]
    by (auto simp: sql_answer block_history_of_def elim!: sql_query_InrE)
next
  case (8 s s')
  then show ?case
    by (auto simp: sql_answer block_history_of_def elim!: sql_query_InrE)
qed (simp_all only: targeted_sql_block_history_def block_history.simps map_err_Inl_iff
    frame_of_current [where P = safe_tables and view = "block_history_of pk"], blast+)

lemma targeted_keeps_reads:
  "keeps reads (conflicting_at_target (targeted_sql_attestation_history pk) e)"
  "keeps reads (surrounding_exists (targeted_sql_attestation_history pk) a b)"
  "keeps reads (surrounded_exists (targeted_sql_attestation_history pk) a b)"
  "keeps reads (min_target (targeted_sql_attestation_history pk))"
  "keeps reads (signing_root_at_slot (targeted_sql_block_history pk) sl)"
  "keeps reads (min_slot (targeted_sql_block_history pk))"
  by (simp_all add: targeted_sql_attestation_history_def targeted_sql_block_history_def)

lemma check_targeted_reads:
  "keeps reads (check_attestation pk (targeted_sql_attestation_history pk) wm c strict)"
  "keeps reads (check_block pk (targeted_sql_block_history pk) bw b strict)"
  by (rule keeps_check_attestation [OF reads_refl _ targeted_keeps_reads(1-4)], erule (1) reads_trans)
    (rule keeps_check_block [OF reads_refl _ targeted_keeps_reads(5,6)], erule (1) reads_trans)

definition is_database_error :: "slashing_error \<Rightarrow> bool" where
  "is_database_error e \<longleftrightarrow> (\<exists>m. e = DatabaseError m)"

lemma sql_query_unless: "keeps_unless is_database_error same_tables (sql (sql_query q))"
  by (rule keeps_unlessI) (auto simp: map_err_Inl_iff is_database_error_def elim: sql_query_InrE)

lemma check_targeted_unless:
  "keeps_unless is_database_error same_tables
     (check_attestation pk (targeted_sql_attestation_history pk) wm c strict)"
  "keeps_unless is_database_error same_tables
     (check_block pk (targeted_sql_block_history pk) bw b strict)"
  by (rule keeps_unless_check_attestation; (simp add: targeted_sql_attestation_history_def
        sql_query_unless)?; erule (1) same_tables_trans)
    (rule keeps_unless_check_block; (simp add: targeted_sql_block_history_def
        sql_query_unless)?; erule (1) same_tables_trans)

end
