(* ===== verification/Slashing_Db.thy ===== *)
theory Slashing_Db
  imports Slashing_Store
begin

text \<open>
  \<open>SlashingDb\<close>: the object around the connection (\<open>db/mod.rs\<close>), the genesis-root pin, and the
  stage / commit / discard guards of \<open>stage.rs\<close>. Every method takes the database as it is under
  the connection mutex and returns its result with the next database.
\<close>

section \<open>The database object\<close>

record group_commit_config =
  batch_size :: nat
  wait_to_fill :: u64

datatype reserve_spec =
    SpecBlock (spec_pubkey: string) slot (spec_root: "string option") (spec_gvr: root) (spec_gvr_hex: string)
  | SpecAttestation (spec_pubkey: string) epoch epoch (spec_root: "string option") (spec_gvr: root)
      (spec_gvr_hex: string)

text \<open>
  A queued reserve: the channel \<open>qr_tx\<close> its waiter listens on, and the value its shared
  \<open>cancelled\<close> flag has when the flusher loads it and when it claims it.
\<close>

record queued_reserve =
  qr_spec :: reserve_spec
  qr_tx :: nat
  qr_cancelled_at_load :: bool
  qr_cancelled_at_claim :: bool

record slashing_db =
  sd_conn :: conn
  strict_semantics :: bool
  gloas_fork_epoch :: epoch
  gvr_cache :: "root option"
  gvr_skip_warned :: bool
  fail_next_commits :: u32
  group_commit :: group_commit_config
  pending :: "queued_reserve list"
  leader_active :: bool

definition default_group_commit :: group_commit_config where
  "default_group_commit = \<lparr>batch_size = 50, wait_to_fill = 1\<rparr>"

definition from_connection :: "conn \<Rightarrow> slashing_db" where
  "from_connection c =
     \<lparr>sd_conn = c, strict_semantics = False, gloas_fork_epoch = - 1, gvr_cache = None,
      gvr_skip_warned = False, fail_next_commits = 0, group_commit = default_group_commit,
      pending = [], leader_active = False\<rparr>"

definition on_conn :: "(conn, 'e, 'a) action \<Rightarrow> (slashing_db, 'e, 'a) action" where
  "on_conn m d = (case m (sd_conn d) of (r, c) \<Rightarrow> (r, d\<lparr>sd_conn := c\<rparr>))"

definition take_injected_commit_failure :: "(slashing_db, 'e, bool) action" where
  "take_injected_commit_failure d =
     (if fail_next_commits d = 0 then (Inr False, d)
      else (Inr True, d\<lparr>fail_next_commits := fail_next_commits d - 1\<rparr>))"

definition set_strict_semantics :: "bool \<Rightarrow> slashing_db \<Rightarrow> slashing_db" where
  "set_strict_semantics b d = d\<lparr>strict_semantics := b\<rparr>"

definition set_gloas_fork_epoch :: "epoch \<Rightarrow> slashing_db \<Rightarrow> slashing_db" where
  "set_gloas_fork_epoch e d = d\<lparr>gloas_fork_epoch := e\<rparr>"

definition fork_aware_strict :: "slashing_db \<Rightarrow> epoch \<Rightarrow> bool" where
  "fork_aware_strict d e \<longleftrightarrow> strict_semantics d \<or> e \<ge> gloas_fork_epoch d"

definition SLOTS_PER_EPOCH :: u64 where
  "SLOTS_PER_EPOCH = 32"

section \<open>The pinned genesis root\<close>

definition gvr_key :: string where
  "gvr_key = ''genesis_validators_root''"

definition zero_root :: root where
  "zero_root = replicate 32 0"

definition parse_gvr_hex_policy :: "hex_codec \<Rightarrow> string \<Rightarrow> slashing_error + root" where
  "parse_gvr_hex_policy hx s =
     (case parse_gvr_hex hx s of
        Inl DoublePrefix \<Rightarrow>
          Inl (InvalidInterchangeFormat ''genesis_validators_root has double 0x prefix'')
      | Inl (InvalidHex detail) \<Rightarrow>
          Inl (InvalidInterchangeFormat (''genesis_validators_root is not valid hex: '' @ detail))
      | Inl (InvalidLength expected got) \<Rightarrow>
          Inl (InvalidInterchangeFormat (''genesis_validators_root must be exactly ''
            @ dec_digits expected @ '' bytes, got '' @ dec_digits got))
      | Inr root \<Rightarrow>
          if root = zero_root
          then Inl (InvalidInterchangeFormat ''genesis_validators_root must not be all zeros'')
          else Inr root)"

definition lift_sum :: "'e + 'a \<Rightarrow> ('s, 'e, 'a) action" where
  "lift_sum r = (\<lambda>s. (r, s))"

definition select_metadata_gvr :: "(conn, slashing_error, string option) action" where
  "select_metadata_gvr = sql (sql_query (\<lambda>n t. map_of (metadata t) gvr_key))"

definition read_metadata_gvr :: "hex_codec \<Rightarrow> (slashing_db, slashing_error, root option) action" where
  "read_metadata_gvr hx =
     bindE (on_conn select_metadata_gvr)
     (\<lambda>hex_str. case hex_str of
        None \<Rightarrow> retE None
      | Some s \<Rightarrow> bindE (lift_sum (parse_gvr_hex_policy hx s)) (\<lambda>root. retE (Some root)))"

definition pinned_gvr :: "hex_codec \<Rightarrow> (slashing_db, slashing_error, root option) action" where
  "pinned_gvr hx d =
     (case gvr_cache d of
        Some cached \<Rightarrow> (Inr (Some cached), d)
      | None \<Rightarrow>
          bindE (read_metadata_gvr hx)
          (\<lambda>r. case r of
             Some root \<Rightarrow> (\<lambda>d. (Inr (Some root), d\<lparr>gvr_cache := Some root\<rparr>))
           | None \<Rightarrow> (\<lambda>d. (Inr None, d\<lparr>gvr_skip_warned := True\<rparr>))) d)"

definition check_gvr_before_lock :: "hex_codec \<Rightarrow> root \<Rightarrow> (slashing_db, slashing_error, unit) action" where
  "check_gvr_before_lock hx gvr =
     bindE (pinned_gvr hx)
     (\<lambda>p. case p of
        Some pinned \<Rightarrow>
          if pinned \<noteq> gvr then throwE (GenesisRootMismatch pinned gvr) else retE ()
      | None \<Rightarrow> retE ())"

section \<open>Stage, commit, discard\<close>

definition AUDIT_ORIGIN :: string where
  "AUDIT_ORIGIN = ''local-vc''"

record staged_block =
  sb_guard :: bool
  sb_pubkey :: string
  sb_slot :: slot
  sb_signing_root :: "string option"
  sb_gvr_hex :: string
  sb_is_resign :: bool
  sb_committed :: bool
  sb_inject_fail_commit :: bool

record staged_attestation =
  sa_guard :: bool
  sa_pubkey :: string
  sa_source_epoch :: epoch
  sa_target_epoch :: epoch
  sa_signing_root :: "string option"
  sa_gvr_hex :: string
  sa_is_duplicate :: bool
  sa_committed :: bool
  sa_inject_fail_commit :: bool

text \<open>The rule check both entry points run inside the transaction.\<close>

definition evaluate_block ::
  "bool \<Rightarrow> string \<Rightarrow> slot \<Rightarrow> string option \<Rightarrow> (conn, slashing_error, block_verdict) action" where
  "evaluate_block strict pubkey slot signing_root =
     bindE (read_watermark pubkey Block)
     (\<lambda>w. check_block pubkey (targeted_sql_block_history pubkey) \<lparr>bw_block = w\<rparr>
        \<lparr>bc_slot = slot, bc_signing_root = signing_root\<rparr> strict)"

definition evaluate_attestation ::
  "bool \<Rightarrow> string \<Rightarrow> epoch \<Rightarrow> epoch \<Rightarrow> string option
     \<Rightarrow> (conn, slashing_error, attestation_verdict) action" where
  "evaluate_attestation strict pubkey source target signing_root =
     bindE (read_watermark pubkey AttestationSource)
     (\<lambda>ws. bindE (read_watermark pubkey AttestationTarget)
     (\<lambda>wt. check_attestation pubkey (targeted_sql_attestation_history pubkey)
        \<lparr>aw_source = ws, aw_target = wt\<rparr>
        \<lparr>ac_source_epoch = source, ac_target_epoch = target, ac_signing_root = signing_root\<rparr> strict))"

text \<open>\<open>let _ = guard.execute_batch("ROLLBACK"); return Err(e)\<close> on every error of the check.\<close>

definition or_rollback :: "(slashing_db, 'e, 'a) action \<Rightarrow> (slashing_db, 'e, 'a) action" where
  "or_rollback m d =
     (case m d of
        (Inr x, d') \<Rightarrow> (Inr x, d')
      | (Inl e, d') \<Rightarrow> (Inl e, snd (on_conn sql_rollback d')))"

definition stage_block ::
  "hex_codec \<Rightarrow> string \<Rightarrow> slot \<Rightarrow> string option \<Rightarrow> root
     \<Rightarrow> (slashing_db, slashing_error, staged_block) action" where
  "stage_block hx pubkey_hex slot signing_root_hex gvr =
     bindE (check_gvr_before_lock hx gvr)
     (\<lambda>_. let gvr_hex = gvr_hex_of_root hx gvr; pubkey = normalize_pubkey pubkey_hex in
      bindE (on_conn (sql sql_begin_immediate))
     (\<lambda>_ d. let strict = fork_aware_strict d (slot div SLOTS_PER_EPOCH) in
      bindE (or_rollback (on_conn (evaluate_block strict pubkey slot signing_root_hex)))
     (\<lambda>outcome. bindE take_injected_commit_failure
     (\<lambda>inject. retE
        \<lparr>sb_guard = True, sb_pubkey = pubkey, sb_slot = slot, sb_signing_root = signing_root_hex,
         sb_gvr_hex = gvr_hex, sb_is_resign = (outcome = BlockResign), sb_committed = False,
         sb_inject_fail_commit = inject\<rparr>)) d))"

definition stage_attestation ::
  "hex_codec \<Rightarrow> string \<Rightarrow> epoch \<Rightarrow> epoch \<Rightarrow> string option \<Rightarrow> root
     \<Rightarrow> (slashing_db, slashing_error, staged_attestation) action" where
  "stage_attestation hx pubkey_hex source_epoch target_epoch signing_root_hex gvr =
     bindE (check_gvr_before_lock hx gvr)
     (\<lambda>_. let gvr_hex = gvr_hex_of_root hx gvr; pubkey = normalize_pubkey pubkey_hex in
      bindE (on_conn (sql sql_begin_immediate))
     (\<lambda>_ d. let strict = fork_aware_strict d target_epoch in
      bindE (or_rollback (on_conn
        (evaluate_attestation strict pubkey source_epoch target_epoch signing_root_hex)))
     (\<lambda>verdict. bindE take_injected_commit_failure
     (\<lambda>inject. retE
        \<lparr>sa_guard = True, sa_pubkey = pubkey, sa_source_epoch = source_epoch,
         sa_target_epoch = target_epoch, sa_signing_root = signing_root_hex,
         sa_gvr_hex = gvr_hex, sa_is_duplicate = (verdict = AttDuplicate), sa_committed = False,
         sa_inject_fail_commit = inject\<rparr>)) d))"

definition block_row_of :: "string \<Rightarrow> slot \<Rightarrow> string option \<Rightarrow> string \<Rightarrow> block_row" where
  "block_row_of pubkey slot signing_root gvr_hex =
     \<lparr>br_client_cn = AUDIT_ORIGIN, br_pubkey = pubkey, br_slot = as_i64 slot,
      br_signing_root = signing_root, br_gvr = Some gvr_hex\<rparr>"

definition att_row_of :: "string \<Rightarrow> epoch \<Rightarrow> epoch \<Rightarrow> string option \<Rightarrow> string \<Rightarrow> att_row" where
  "att_row_of pubkey source target signing_root gvr_hex =
     \<lparr>ar_client_cn = AUDIT_ORIGIN, ar_pubkey = pubkey, ar_source = as_i64 source,
      ar_target = as_i64 target, ar_signing_root = signing_root, ar_gvr = Some gvr_hex\<rparr>"

text \<open>\<open>Drop\<close>: a guard that was not committed rolls back; a failing rollback is only logged.\<close>

definition drop_staged :: "bool \<Rightarrow> bool \<Rightarrow> slashing_db \<Rightarrow> slashing_db" where
  "drop_staged is_committed guard d =
     (if \<not> is_committed \<and> guard then snd (on_conn sql_rollback d) else d)"

definition drop_staged_block :: "staged_block \<Rightarrow> slashing_db \<Rightarrow> slashing_db" where
  "drop_staged_block sb = drop_staged (sb_committed sb) (sb_guard sb)"

definition drop_staged_attestation :: "staged_attestation \<Rightarrow> slashing_db \<Rightarrow> slashing_db" where
  "drop_staged_attestation sa = drop_staged (sa_committed sa) (sa_guard sa)"

text \<open>
  \<open>commit\<close> consumes the guard: after its body the guard is dropped with \<open>committed\<close> set
  exactly when the body returned \<open>Ok\<close>.
\<close>

definition commit_staged_block :: "staged_block \<Rightarrow> (slashing_db, slashing_error, unit) action" where
  "commit_staged_block sb d =
     (case
        (if sb_inject_fail_commit sb
         then throwE (MigrationFailed ''injected commit failure (test-utils)'')
         else if \<not> sb_guard sb
         then throwE (InternalInvariant ''staged block guard missing at commit'')
         else bindE
           (if \<not> sb_is_resign sb
            then bindE (on_conn (sql (insert_block_row (block_row_of (sb_pubkey sb) (sb_slot sb)
                   (sb_signing_root sb) (sb_gvr_hex sb))))) (\<lambda>_. retE ())
            else retE ())
           (\<lambda>_. on_conn (sql sql_commit))) d of
        (Inr u, d') \<Rightarrow> (Inr u, drop_staged_block (sb\<lparr>sb_committed := True\<rparr>) d')
      | (Inl e, d') \<Rightarrow> (Inl e, drop_staged_block sb d'))"

definition commit_staged_attestation ::
  "staged_attestation \<Rightarrow> (slashing_db, slashing_error, unit) action" where
  "commit_staged_attestation sa d =
     (case
        (if sa_inject_fail_commit sa
         then throwE (MigrationFailed ''injected commit failure (test-utils)'')
         else if \<not> sa_guard sa
         then throwE (InternalInvariant ''staged attestation guard missing at commit'')
         else bindE
           (if \<not> sa_is_duplicate sa
            then bindE (on_conn (sql (insert_attestation_row (att_row_of (sa_pubkey sa)
                   (sa_source_epoch sa) (sa_target_epoch sa) (sa_signing_root sa)
                   (sa_gvr_hex sa))))) (\<lambda>_. retE ())
            else retE ())
           (\<lambda>_. on_conn (sql sql_commit))) d of
        (Inr u, d') \<Rightarrow> (Inr u, drop_staged_attestation (sa\<lparr>sa_committed := True\<rparr>) d')
      | (Inl e, d') \<Rightarrow> (Inl e, drop_staged_attestation sa d'))"

definition discard_staged_block :: "staged_block \<Rightarrow> slashing_db \<Rightarrow> slashing_db" where
  "discard_staged_block sb d = drop_staged_block sb d"

definition discard_staged_attestation :: "staged_attestation \<Rightarrow> slashing_db \<Rightarrow> slashing_db" where
  "discard_staged_attestation sa d = drop_staged_attestation sa d"

definition check_and_record_block ::
  "hex_codec \<Rightarrow> string \<Rightarrow> slot \<Rightarrow> string option \<Rightarrow> root
     \<Rightarrow> (slashing_db, slashing_error, unit) action" where
  "check_and_record_block hx pubkey slot signing_root gvr =
     bindE (stage_block hx pubkey slot signing_root gvr) commit_staged_block"

definition check_and_record_attestation ::
  "hex_codec \<Rightarrow> string \<Rightarrow> epoch \<Rightarrow> epoch \<Rightarrow> string option \<Rightarrow> root
     \<Rightarrow> (slashing_db, slashing_error, unit) action" where
  "check_and_record_attestation hx pubkey source_epoch target_epoch signing_root gvr =
     bindE (stage_attestation hx pubkey source_epoch target_epoch signing_root gvr)
       commit_staged_attestation"

section \<open>Facts about statements on the database\<close>

lemma on_conn_iff: "on_conn m d = (r, d') \<longleftrightarrow> (\<exists>c. m (sd_conn d) = (r, c) \<and> d' = d\<lparr>sd_conn := c\<rparr>)"
  by (auto simp: on_conn_def split: prod.splits)

lemma sql_begin_InrE:
  assumes "sql_begin_immediate c = (Inr u, c')"
  shows "txn c = None" "txn c' = Some (committed c)" "committed c' = committed c"
  using assms unfolding sql_begin_immediate_def
  by (cases rule: statement_cases [of "\<lambda>n c. case txn c of
       Some _ \<Rightarrow> (Inl ''cannot start a transaction within a transaction'', c)
     | None \<Rightarrow> (Inr (), c\<lparr>txn := Some (committed c)\<rparr>)" c]; auto split: option.splits)+

lemma sql_begin_Inl: "sql_begin_immediate c = (Inl e, c') \<Longrightarrow> reads c c'"
  unfolding sql_begin_immediate_def
  by (cases rule: statement_cases [of "\<lambda>n c. case txn c of
       Some _ \<Rightarrow> (Inl ''cannot start a transaction within a transaction'', c)
     | None \<Rightarrow> (Inr (), c\<lparr>txn := Some (committed c)\<rparr>)" c])
    (auto simp: reads_def split: option.splits)

lemma sql_commit_Inr:
  assumes "sql_commit c = (Inr u, c')"
  shows "txn c = Some (committed c')" "txn c' = None"
  using assms unfolding sql_commit_def
  by (cases rule: statement_cases [of "\<lambda>n c. case txn c of
       None \<Rightarrow> (Inl ''cannot commit - no transaction is active'', c)
     | Some t \<Rightarrow> (Inr (), c\<lparr>committed := t, txn := None\<rparr>)" c]; auto split: option.splits)+

lemma sql_commit_Inl: "sql_commit c = (Inl e, c') \<Longrightarrow> reads c c'"
  unfolding sql_commit_def
  by (cases rule: statement_cases [of "\<lambda>n c. case txn c of
       None \<Rightarrow> (Inl ''cannot commit - no transaction is active'', c)
     | Some t \<Rightarrow> (Inr (), c\<lparr>committed := t, txn := None\<rparr>)" c])
    (auto simp: reads_def split: option.splits)

lemma sql_rollback_reads: "sql_rollback c = (r, c') \<Longrightarrow> reads c c'"
  unfolding sql_rollback_def
  by (cases rule: statement_cases [of "\<lambda>n c. case txn c of
       None \<Rightarrow> (Inl ''cannot rollback - no transaction is active'', c)
     | Some _ \<Rightarrow> (Inr (), c\<lparr>txn := None\<rparr>)" c])
    (auto simp: reads_def split: option.splits)

lemma sql_execute_InrE:
  assumes "sql_execute f c = (Inr k, c')"
  obtains t r where "f (current c) = Inr (k, t)" "c' = write_tables t (c\<lparr>tape := r\<rparr>)"
  using assms unfolding sql_execute_def
  by (cases rule: statement_cases [of "\<lambda>n c. case f (current c) of
       Inl msg \<Rightarrow> (Inl msg, c) | Inr (k, t) \<Rightarrow> (Inr k, write_tables t c)" c])
    (auto split: sum.splits prod.splits)

lemma sql_execute_Inl: "sql_execute f c = (Inl e, c') \<Longrightarrow> reads c c'"
  unfolding sql_execute_def
  by (cases rule: statement_cases [of "\<lambda>n c. case f (current c) of
       Inl msg \<Rightarrow> (Inl msg, c) | Inr (k, t) \<Rightarrow> (Inr k, write_tables t c)" c])
    (auto simp: reads_def split: sum.splits prod.splits)

lemma write_tables_txn [simp]:
  assumes "txn c = Some t0"
  shows "txn (write_tables t (c\<lparr>tape := r\<rparr>)) = Some t"
    and "committed (write_tables t (c\<lparr>tape := r\<rparr>)) = committed c"
  using assms by (simp_all add: write_tables_def)

section \<open>Well-formed tables and the accepted candidates\<close>

definition wf_tables :: "tables \<Rightarrow> bool" where
  "wf_tables t \<longleftrightarrow>
     distinct (map (\<lambda>r. (ar_pubkey r, ar_target r)) (attestations t))
     \<and> distinct (map (\<lambda>r. (br_pubkey r, br_slot r)) (blocks t))
     \<and> distinct (map (\<lambda>w. (wr_pubkey w, wr_type w)) (watermarks t))"

definition watermark_of :: "string \<Rightarrow> watermark_kind \<Rightarrow> tables \<Rightarrow> u64 option" where
  "watermark_of pk k t =
     map_option (\<lambda>w. as_u64 (wr_value w))
       (find (\<lambda>w. wr_pubkey w = pk \<and> wr_type w = as_sql_str k) (watermarks t))"

definition att_floors :: "string \<Rightarrow> tables \<Rightarrow> attestation_watermarks" where
  "att_floors pk t =
     \<lparr>aw_source = watermark_of pk AttestationSource t, aw_target = watermark_of pk AttestationTarget t\<rparr>"

definition block_floor :: "string \<Rightarrow> tables \<Rightarrow> block_watermarks" where
  "block_floor pk t = \<lparr>bw_block = watermark_of pk Block t\<rparr>"

lemma pick_unique:
  assumes "distinct (map f xs)"
  shows "pick n (filter (\<lambda>x. f x = k) xs) = find (\<lambda>x. f x = k) xs"
proof (cases "find (\<lambda>x. f x = k) xs")
  case None
  then have "pick n (filter (\<lambda>x. f x = k) xs) = None"
    by (simp add: find_None_iff' filter_empty_conv)
  with None show ?thesis by simp
next
  case (Some y)
  then have y: "y \<in> set xs" "f y = k" using find_Some_in [OF Some] by auto
  have "x = y" if "x \<in> set xs" "f x = k" for x
    using that y assms by (auto simp: distinct_map inj_on_def)
  moreover obtain x where "pick n (filter (\<lambda>x. f x = k) xs) = Some x"
    using y by (cases "pick n (filter (\<lambda>x. f x = k) xs)") (auto simp: filter_empty_conv)
  ultimately show ?thesis using Some pick_filter_Some [of n _ xs x] by metis
qed

lemma read_watermark_Inr:
  assumes "read_watermark pk k c = (Inr w, c')" "wf_tables (current c)"
  shows "w = watermark_of pk k (current c)" "same_tables c c'"
proof -
  obtain n where w: "map_option (\<lambda>w. as_u64 (wr_value w)) (pick n (watermark_rows pk k (current c))) = w"
    and st: "same_tables c c'"
    using assms(1) by (auto simp: read_watermark_def elim!: sql_query_InrE)
  have "pick n (watermark_rows pk k (current c))
      = find (\<lambda>w. wr_pubkey w = pk \<and> wr_type w = as_sql_str k) (watermarks (current c))"
    using pick_unique [of "\<lambda>w. (wr_pubkey w, wr_type w)" "watermarks (current c)" n "(pk, as_sql_str k)"]
      assms(2) by (simp add: watermark_rows_def wf_tables_def)
  with w show "w = watermark_of pk k (current c)" by (simp add: watermark_of_def)
  show "same_tables c c'" by (rule st)
qed

lemma read_watermark_reads: "keeps reads (read_watermark pk k)"
  by (simp add: read_watermark_def)

lemma read_watermark_Inl: "read_watermark pk k c = (Inl e, c') \<Longrightarrow> \<exists>m. e = DatabaseError m"
  by (auto simp: read_watermark_def map_err_Inl_iff)

abbreviation att_cand :: "epoch \<Rightarrow> epoch \<Rightarrow> string option \<Rightarrow> attestation_candidate" where
  "att_cand s t r \<equiv> \<lparr>ac_source_epoch = s, ac_target_epoch = t, ac_signing_root = r\<rparr>"

abbreviation block_cand :: "slot \<Rightarrow> string option \<Rightarrow> block_candidate" where
  "block_cand sl r \<equiv> \<lparr>bc_slot = sl, bc_signing_root = r\<rparr>"

lemma evaluate_attestation_reads: "keeps reads (evaluate_attestation strict pk s t r)"
  unfolding evaluate_attestation_def
  by (intro keeps_bind [OF reads_trans] read_watermark_reads check_targeted_reads)

lemma evaluate_block_reads: "keeps reads (evaluate_block strict pk sl r)"
  unfolding evaluate_block_def
  by (intro keeps_bind [OF reads_trans] read_watermark_reads check_targeted_reads)

lemma evaluate_attestation_run:
  assumes "evaluate_attestation strict pk s t r c = (x, c')" "wf_tables (current c)"
  obtains m where "x = Inl (DatabaseError m)"
  | c1 where "same_tables c c1"
      "check_attestation pk (targeted_sql_attestation_history pk) (att_floors pk (current c))
         (att_cand s t r) strict c1 = (x, c')"
proof -
  show thesis
    using assms(1) unfolding evaluate_attestation_def
  proof (cases rule: bindE_cases)
    case (err e)
    then show thesis using that(1) read_watermark_Inl by blast
  next
    case (ok ws c1)
    note ws = read_watermark_Inr [OF ok(1) assms(2)]
    then have wf1: "wf_tables (current c1)" using assms(2) by (simp add: same_tables_current)
    from ok(2) show thesis
    proof (cases rule: bindE_cases)
      case (err e)
      then show thesis using that(1) read_watermark_Inl by blast
    next
      case (ok wt c2)
      note wt = read_watermark_Inr [OF ok(1) wf1]
      have "same_tables c c2" using ws(2) wt(2) by (rule same_tables_trans)
      with ok(2) ws wt that(2) show thesis by (simp add: att_floors_def same_tables_current)
    qed
  qed
qed

lemma evaluate_block_run:
  assumes "evaluate_block strict pk sl r c = (x, c')" "wf_tables (current c)"
  obtains m where "x = Inl (DatabaseError m)"
  | c1 where "same_tables c c1"
      "check_block pk (targeted_sql_block_history pk) (block_floor pk (current c))
         (block_cand sl r) strict c1 = (x, c')"
  using assms(1) unfolding evaluate_block_def
proof (cases rule: bindE_cases)
  case (err e)
  then show thesis using that(1) read_watermark_Inl by blast
next
  case (ok w c1)
  with read_watermark_Inr [OF ok(1) assms(2)] that(2) show thesis by (simp add: block_floor_def)
qed

text \<open>What an accepted evaluation says of the tables it ran on.\<close>

lemma evaluate_attestation_Inr:
  assumes run: "evaluate_attestation strict pk s t r c = (Inr v, c')"
    and wf: "wf_tables (current c)" and safe: "safe_tables (current c)" "i64_safe s" "i64_safe t"
  shows "same_tables c c'" "above_att_floors (att_floors pk (current c)) (att_cand s t r)"
    "\<And>e. e \<in> att_history_of pk (current c) \<Longrightarrow>
       \<not> surrounds (s, t) (ea_span e) \<and> \<not> surrounds (ea_span e) (s, t)"
    "v = AttStage \<Longrightarrow> e \<in> att_history_of pk (current c) \<Longrightarrow> ea_target_epoch e \<noteq> t"
    "v = AttDuplicate \<Longrightarrow> \<exists>e\<in>att_history_of pk (current c).
       ea_target_epoch e = t \<and> is_resign strict (ea_signing_root e) r"
proof -
  obtain c1 where st: "same_tables c c1" and chk:
    "check_attestation pk (targeted_sql_attestation_history pk) (att_floors pk (current c))
         (att_cand s t r) strict c1 = (Inr v, c')"
    using run wf by (rule evaluate_attestation_run) auto
  have cur: "current c1 = current c" using st by (rule same_tables_current)
  have ok: "safe_tables (current c1)" "i64_safe (ac_source_epoch (att_cand s t r))"
      "i64_safe (ac_target_epoch (att_cand s t r))"
    using safe cur by simp_all
  show "same_tables c c'"
    using st keeps_unlessD(1) [OF check_targeted_unless(1) chk] by (rule same_tables_trans)
  have "v = AttStage \<Longrightarrow> check_attestation pk (targeted_sql_attestation_history pk)
      (att_floors pk (current c)) (att_cand s t r) strict c1 = (Inr AttStage, c')"
    and "v = AttDuplicate \<Longrightarrow> check_attestation pk (targeted_sql_attestation_history pk)
      (att_floors pk (current c)) (att_cand s t r) strict c1 = (Inr AttDuplicate, c')"
    using chk by simp_all
  note stage = sql_att.check_attestation_Stage [OF ok this(1)]
    and dup = sql_att.check_attestation_Duplicate [OF ok this(2)]
  show "above_att_floors (att_floors pk (current c)) (att_cand s t r)"
    using chk stage(1) dup(1) by (cases v) auto
  show "v = AttStage \<Longrightarrow> e \<in> att_history_of pk (current c) \<Longrightarrow> ea_target_epoch e \<noteq> t" for e
    using chk stage(3) cur by simp
  show "v = AttDuplicate \<Longrightarrow> \<exists>e\<in>att_history_of pk (current c).
       ea_target_epoch e = t \<and> is_resign strict (ea_signing_root e) r"
    using chk dup(2) cur by simp
  show "\<not> surrounds (s, t) (ea_span e) \<and> \<not> surrounds (ea_span e) (s, t)"
    if "e \<in> att_history_of pk (current c)" for e
    using that chk stage(2) dup(3) cur by (cases v) (auto simp: att_conflict_def)
qed

lemma evaluate_block_Inr:
  assumes run: "evaluate_block strict pk sl r c = (Inr v, c')"
    and wf: "wf_tables (current c)" and safe: "safe_tables (current c)"
  shows "same_tables c c'" "above_block_floor (block_floor pk (current c)) (block_cand sl r)"
    "v = BlockStage \<Longrightarrow> (sl, r') \<notin> block_history_of pk (current c)"
    "v = BlockResign \<Longrightarrow> \<exists>r'. (sl, r') \<in> block_history_of pk (current c) \<and> is_resign strict r' r"
proof -
  obtain c1 where st: "same_tables c c1" and chk:
    "check_block pk (targeted_sql_block_history pk) (block_floor pk (current c))
         (block_cand sl r) strict c1 = (Inr v, c')"
    using run wf by (rule evaluate_block_run) auto
  have cur: "current c1 = current c" using st by (rule same_tables_current)
  have ok: "safe_tables (current c1)" using safe cur by simp
  show "same_tables c c'"
    using st keeps_unlessD(1) [OF check_targeted_unless(2) chk] by (rule same_tables_trans)
  have "v = BlockStage \<Longrightarrow> check_block pk (targeted_sql_block_history pk)
      (block_floor pk (current c)) (block_cand sl r) strict c1 = (Inr BlockStage, c')"
    and "v = BlockResign \<Longrightarrow> check_block pk (targeted_sql_block_history pk)
      (block_floor pk (current c)) (block_cand sl r) strict c1 = (Inr BlockResign, c')"
    using chk by simp_all
  note stage = sql_block.check_block_Stage [OF ok this(1)]
    and re = sql_block.check_block_Resign [OF ok this(2)]
  show "above_block_floor (block_floor pk (current c)) (block_cand sl r)"
    using chk stage(1) re(1) by (cases v) auto
  show "v = BlockStage \<Longrightarrow> (sl, r') \<notin> block_history_of pk (current c)"
    using chk stage(2) cur by simp
  show "v = BlockResign \<Longrightarrow> \<exists>r'. (sl, r') \<in> block_history_of pk (current c) \<and> is_resign strict r' r"
    using chk re(2) cur by simp
qed

lemma evaluate_attestation_unless:
  "keeps_unless is_database_error same_tables (evaluate_attestation strict pk s t r)"
  unfolding evaluate_attestation_def read_watermark_def
  by (intro keeps_unless_bind sql_query_unless check_targeted_unless | erule (1) same_tables_trans)+

lemma evaluate_block_unless:
  "keeps_unless is_database_error same_tables (evaluate_block strict pk sl r)"
  unfolding evaluate_block_def read_watermark_def
  by (intro keeps_unless_bind sql_query_unless check_targeted_unless | erule (1) same_tables_trans)+

lemma database_error_not_rejection: "is_group_member_rejection e \<Longrightarrow> \<not> is_database_error e"
  by (auto simp: is_database_error_def is_group_member_rejection_def)

lemma evaluate_attestation_Inl:
  assumes run: "evaluate_attestation strict pk s t r c = (Inl e, c')"
    and wf: "wf_tables (current c)" and safe: "safe_tables (current c)" "i64_safe s" "i64_safe t"
  shows "is_database_error e \<or> att_rejection pk (att_floors pk (current c))
           (att_history_of pk (current c)) (att_cand s t r) strict e"
  using run wf
proof (cases rule: evaluate_attestation_run)
  case (2 c1)
  have cur: "current c1 = current c" using 2(1) by (rule same_tables_current)
  from sql_att.check_attestation_Inl [OF _ _ _ 2(2)] safe cur show ?thesis
    by (simp add: is_database_error_def)
qed (simp add: is_database_error_def)

lemma evaluate_block_Inl:
  assumes run: "evaluate_block strict pk sl r c = (Inl e, c')"
    and wf: "wf_tables (current c)" and safe: "safe_tables (current c)"
  shows "is_database_error e \<or> block_rejection pk (block_floor pk (current c))
           (block_history_of pk (current c)) (block_cand sl r) strict e"
  using run wf
proof (cases rule: evaluate_block_run)
  case (2 c1)
  have cur: "current c1 = current c" using 2(1) by (rule same_tables_current)
  from sql_block.check_block_Inl [OF _ 2(2)] safe cur show ?thesis
    by (simp add: is_database_error_def)
qed (simp add: is_database_error_def)

end
