(* ===== verification/Slashing_Reserve.thy ===== *)
theory Slashing_Reserve
  imports Slashing_Db "HOL-Library.Sublist"
begin

text \<open>
  Reserve-then-sign: the group commit of \<open>group_commit.rs\<close> and the compensating delete of
  \<open>stage.rs\<close>. A batch runs in one transaction; its members are answered over their channels, so
  the model of \<open>commit_batch\<close> returns the messages it sends, as (channel, result) pairs.
\<close>

section \<open>Operator knobs\<close>

definition MAX_WAIT_TO_FILL_MS :: u64 where
  "MAX_WAIT_TO_FILL_MS = 3999"

definition sanitized :: "group_commit_config \<Rightarrow> group_commit_config" where
  "sanitized cfg =
     \<lparr>batch_size = max (batch_size cfg) 1, wait_to_fill = min (wait_to_fill cfg) MAX_WAIT_TO_FILL_MS\<rparr>"

definition try_from_knobs :: "nat option \<Rightarrow> u64 option \<Rightarrow> string + group_commit_config" where
  "try_from_knobs bs ms =
     (if bs = Some 0 then Inl ''group-commit batch_size must be greater than 0''
      else if (case ms of Some m \<Rightarrow> m > MAX_WAIT_TO_FILL_MS | None \<Rightarrow> False)
      then Inl ''group-commit wait_to_fill_ms must be at most 3999 (attestation window)''
      else Inr (sanitized
        \<lparr>batch_size = (case bs of Some b \<Rightarrow> b | None \<Rightarrow> batch_size default_group_commit),
         wait_to_fill = (case ms of Some m \<Rightarrow> m | None \<Rightarrow> wait_to_fill default_group_commit)\<rparr>))"

definition from_knobs :: "nat option \<Rightarrow> u64 option \<Rightarrow> group_commit_config" where
  "from_knobs bs ms =
     (case try_from_knobs bs ms of
        Inr cfg \<Rightarrow> cfg
      | Inl _ \<Rightarrow>
          \<lparr>batch_size = max (case bs of Some b \<Rightarrow> b | None \<Rightarrow> batch_size default_group_commit) 1,
           wait_to_fill = min (case ms of Some m \<Rightarrow> m | None \<Rightarrow> wait_to_fill default_group_commit)
             MAX_WAIT_TO_FILL_MS\<rparr>)"

definition set_group_commit :: "group_commit_config \<Rightarrow> slashing_db \<Rightarrow> slashing_db" where
  "set_group_commit cfg d = d\<lparr>group_commit := sanitized cfg\<rparr>"

section \<open>Reservations\<close>

datatype reservation_kind = KindBlock slot | KindAttestation epoch epoch

record committed_reservation =
  cr_pubkey_hex :: string
  cr_kind :: reservation_kind
  cr_signing_root_hex :: "string option"
  cr_inserted :: bool

type_synonym reserve_result = "slashing_error + committed_reservation"

definition gvr_mismatch_on_conn :: "hex_codec \<Rightarrow> reserve_spec \<Rightarrow> (conn, slashing_error, unit) action" where
  "gvr_mismatch_on_conn hx spec =
     bindE select_metadata_gvr
     (\<lambda>pinned. case pinned of
        None \<Rightarrow> retE ()
      | Some pinned_hex \<Rightarrow>
          if pinned_hex = spec_gvr_hex spec then retE ()
          else bindE (lift_sum (parse_gvr_hex_policy hx pinned_hex))
            (\<lambda>expected. throwE (GenesisRootMismatch expected (spec_gvr spec))))"

fun check_spec_in_txn ::
  "reserve_spec \<Rightarrow> (slashing_db, slashing_error, committed_reservation) action" where
  "check_spec_in_txn (SpecBlock pubkey slot root gvr gvr_hex) d =
     (let strict = fork_aware_strict d (slot div SLOTS_PER_EPOCH) in
      bindE (on_conn (evaluate_block strict pubkey slot root))
      (\<lambda>outcome. retE \<lparr>cr_pubkey_hex = pubkey, cr_kind = KindBlock slot, cr_signing_root_hex = root,
                       cr_inserted = (outcome \<noteq> BlockResign)\<rparr>) d)"
| "check_spec_in_txn (SpecAttestation pubkey source target root gvr gvr_hex) d =
     (let strict = fork_aware_strict d target in
      bindE (on_conn (evaluate_attestation strict pubkey source target root))
      (\<lambda>verdict. retE \<lparr>cr_pubkey_hex = pubkey, cr_kind = KindAttestation source target,
                       cr_signing_root_hex = root, cr_inserted = (verdict \<noteq> AttDuplicate)\<rparr>) d)"

fun insert_spec :: "reserve_spec \<Rightarrow> committed_reservation \<Rightarrow> (conn, slashing_error, unit) action" where
  "insert_spec (SpecBlock pubkey slot root gvr gvr_hex) res =
     (if \<not> cr_inserted res then retE ()
      else bindE (map_err ReserveCommitFailed
        (insert_block_row (block_row_of pubkey slot root gvr_hex))) (\<lambda>_. retE ()))"
| "insert_spec (SpecAttestation pubkey source target root gvr gvr_hex) res =
     (if \<not> cr_inserted res then retE ()
      else bindE (map_err ReserveCommitFailed
        (insert_attestation_row (att_row_of pubkey source target root gvr_hex))) (\<lambda>_. retE ()))"

section \<open>One batch, one transaction\<close>

definition with_immediate_txn ::
  "(slashing_db, slashing_error, 'a) action \<Rightarrow> (slashing_db, slashing_error, 'a) action" where
  "with_immediate_txn body = bindE (on_conn (sql sql_begin_immediate)) (\<lambda>_. or_rollback body)"

definition persist_reserved_row ::
  "(slashing_db, slashing_error, unit) action \<Rightarrow> (slashing_db, slashing_error, unit) action" where
  "persist_reserved_row insert_rows =
     bindE take_injected_commit_failure
     (\<lambda>inject. if inject
        then throwE (ReserveCommitFailed ''injected commit failure (test-utils)'')
        else bindE insert_rows (\<lambda>_. on_conn (map_err ReserveCommitFailed sql_commit)))"

text \<open>
  One member of the batch: \<open>Inl\<close> is an error that fails the batch (the loop's
  \<open>persist_err\<close>), \<open>Inr\<close> the outcome pushed for the member.
\<close>

definition reserve_member ::
  "hex_codec \<Rightarrow> queued_reserve \<Rightarrow> (slashing_db, slashing_error, reserve_result option) action" where
  "reserve_member hx item d =
     (if qr_cancelled_at_load item then (Inr None, d)
      else case check_spec_in_txn (qr_spec item) d of
        (Inl e, d1) \<Rightarrow>
          if is_group_member_rejection e then (Inr (Some (Inl e)), d1) else (Inl e, d1)
      | (Inr res, d1) \<Rightarrow>
          if qr_cancelled_at_claim item then (Inr None, d1)
          else case on_conn (gvr_mismatch_on_conn hx (qr_spec item)) d1 of
            (Inl e, d2) \<Rightarrow>
              if is_group_member_rejection e then (Inr (Some (Inl e)), d2) else (Inl e, d2)
          | (Inr _, d2) \<Rightarrow>
              (case on_conn (insert_spec (qr_spec item) res) d2 of
                 (Inl e, d3) \<Rightarrow> (Inl e, d3)
               | (Inr _, d3) \<Rightarrow> (Inr (Some (Inr res)), d3)))"

fun reserve_members ::
  "hex_codec \<Rightarrow> queued_reserve list \<Rightarrow> slashing_error option \<Rightarrow> slashing_db
     \<Rightarrow> (reserve_result option list \<times> slashing_error option) \<times> slashing_db" where
  "reserve_members hx [] persist_err d = (([], persist_err), d)"
| "reserve_members hx (item # rest) persist_err d =
     (case persist_err of
        Some e \<Rightarrow>
          (case reserve_members hx rest persist_err d of
             ((outs, pe), d') \<Rightarrow> ((None # outs, pe), d'))
      | None \<Rightarrow>
          (case reserve_member hx item d of
             (Inl e, d1) \<Rightarrow>
               (case reserve_members hx rest (Some e) d1 of
                  ((outs, pe), d') \<Rightarrow> ((None # outs, pe), d'))
           | (Inr out, d1) \<Rightarrow>
               (case reserve_members hx rest None d1 of
                  ((outs, pe), d') \<Rightarrow> ((out # outs, pe), d'))))"

definition is_reserved :: "reserve_result option \<Rightarrow> bool" where
  "is_reserved out = (case out of Some (Inr _) \<Rightarrow> True | _ \<Rightarrow> False)"

definition batch_body ::
  "hex_codec \<Rightarrow> queued_reserve list
     \<Rightarrow> (slashing_db, slashing_error, reserve_result option list \<times> slashing_error option) action" where
  "batch_body hx batch d =
     (case reserve_members hx batch None d of
        ((outcomes, persist_err), d1) \<Rightarrow>
          if persist_err = None \<and> (\<exists>out\<in>set outcomes. is_reserved out)
          then (case persist_reserved_row (retE ()) d1 of
                  (Inr _, d2) \<Rightarrow> (Inr (outcomes, persist_err), d2)
                | (Inl e, d2) \<Rightarrow> (Inr (outcomes, Some e), snd (on_conn sql_rollback d2)))
          else bindE (on_conn (sql sql_rollback)) (\<lambda>_. retE (outcomes, persist_err)) d1)"

definition commit_failed_err :: "hex_codec \<Rightarrow> slashing_error \<Rightarrow> slashing_error" where
  "commit_failed_err hx err =
     (case err of
        ReserveCommitFailed msg \<Rightarrow> ReserveCommitFailed msg
      | other \<Rightarrow> ReserveCommitFailed (show_slashing_error hx other))"

fun dispatch_outcome ::
  "hex_codec \<Rightarrow> reserve_result option \<Rightarrow> slashing_error option \<Rightarrow> reserve_result option" where
  "dispatch_outcome hx (Some (Inl e)) pe = Some (Inl e)"
| "dispatch_outcome hx (Some (Inr res)) None = Some (Inr res)"
| "dispatch_outcome hx (Some (Inr res)) (Some err) = Some (Inl (commit_failed_err hx err))"
| "dispatch_outcome hx None (Some err) = Some (Inl (commit_failed_err hx err))"
| "dispatch_outcome hx None None = None"

definition dispatch_outcomes ::
  "hex_codec \<Rightarrow> queued_reserve list \<Rightarrow> reserve_result option list \<Rightarrow> slashing_error option
     \<Rightarrow> (nat \<times> reserve_result) list" where
  "dispatch_outcomes hx batch outcomes persist_err =
     concat (map (\<lambda>(item, out).
         case dispatch_outcome hx out persist_err of
           Some r \<Rightarrow> [(qr_tx item, r)] | None \<Rightarrow> [])
       (zip batch (outcomes @ replicate (length batch - length outcomes) None)))"

definition commit_batch ::
  "hex_codec \<Rightarrow> queued_reserve list \<Rightarrow> slashing_db \<Rightarrow> (nat \<times> reserve_result) list \<times> slashing_db" where
  "commit_batch hx batch d =
     (if batch = [] then ([], d)
      else case with_immediate_txn (batch_body hx batch) d of
        (Inr (outcomes, persist_err), d') \<Rightarrow> (dispatch_outcomes hx batch outcomes persist_err, d')
      | (Inl e, d') \<Rightarrow> (dispatch_outcomes hx batch [] (Some e), d'))"

section \<open>Compensating delete\<close>

datatype reconcile_outcome = Deleted | NotApplicable | Failed slashing_error

fun delete_reserved_row :: "string \<Rightarrow> committed_reservation \<Rightarrow> (conn, string, nat) action" where
  "delete_reserved_row pubkey res =
     (case cr_kind res of
        KindBlock slot \<Rightarrow> sql_execute (\<lambda>t.
          let hit = (\<lambda>r. br_pubkey r = pubkey \<and> br_slot r = as_i64 slot
                          \<and> br_signing_root r = cr_signing_root_hex res)
          in Inr (length (filter hit (blocks t)),
                  t\<lparr>blocks := filter (\<lambda>r. \<not> hit r) (blocks t)\<rparr>))
      | KindAttestation source target \<Rightarrow> sql_execute (\<lambda>t.
          let hit = (\<lambda>r. ar_pubkey r = pubkey \<and> ar_source r = as_i64 source
                          \<and> ar_target r = as_i64 target \<and> ar_signing_root r = cr_signing_root_hex res)
          in Inr (length (filter hit (attestations t)),
                  t\<lparr>attestations := filter (\<lambda>r. \<not> hit r) (attestations t)\<rparr>)))"

text \<open>The release build: the watermark snapshots of debug builds are not taken.\<close>

definition reconcile_delete_txn ::
  "committed_reservation \<Rightarrow> (slashing_db, slashing_error, bool) action" where
  "reconcile_delete_txn res =
     bindE take_injected_commit_failure
     (\<lambda>inject. if inject
        then throwE (ReconcileFailed ''injected reconcile failure (test-utils)'')
        else bindE (on_conn (map_err ReconcileFailed
               (delete_reserved_row (normalize_pubkey (cr_pubkey_hex res)) res)))
          (\<lambda>changes. if changes > 1
             then throwE (ReconcileFailed (''targeted delete affected '' @ dec_digits changes
               @ '' rows (cap is 1)''))
             else bindE (on_conn (map_err ReconcileFailed sql_commit))
               (\<lambda>_. retE (changes = 1))))"

definition reconcile_unsigned :: "committed_reservation \<Rightarrow> slashing_db \<Rightarrow> reconcile_outcome \<times> slashing_db" where
  "reconcile_unsigned res d =
     (if \<not> cr_inserted res then (NotApplicable, d)
      else case with_immediate_txn (reconcile_delete_txn res) d of
        (Inr True, d') \<Rightarrow> (Deleted, d')
      | (Inr False, d') \<Rightarrow> (NotApplicable, d')
      | (Inl e, d') \<Rightarrow> (Failed e, d'))"

section \<open>The queue and its leader\<close>

definition push_pending :: "queued_reserve \<Rightarrow> bool \<Rightarrow> slashing_db \<Rightarrow> bool \<times> slashing_db" where
  "push_pending item claim_leader d =
     (let d1 = d\<lparr>pending := pending d @ [item]\<rparr> in
      if claim_leader then (\<not> leader_active d1, d1\<lparr>leader_active := True\<rparr>) else (False, d1))"

text \<open>
  \<open>drain_batch\<close> after its wait: what other threads push while it waits is already in
  \<open>pending\<close>.
\<close>

definition drain_batch :: "slashing_db \<Rightarrow> queued_reserve list \<times> slashing_db" where
  "drain_batch d =
     (if pending d = [] then ([], d)
      else let n = min (length (pending d)) (max (batch_size (group_commit d)) 1)
           in (take n (pending d), d\<lparr>pending := drop n (pending d)\<rparr>))"

subsection \<open>What an operation on the connection leaves alone\<close>

definition frame_db :: "slashing_db \<Rightarrow> slashing_db \<Rightarrow> bool" where
  "frame_db d d' \<longleftrightarrow> strict_semantics d' = strict_semantics d
     \<and> gloas_fork_epoch d' = gloas_fork_epoch d \<and> gvr_cache d' = gvr_cache d
     \<and> group_commit d' = group_commit d \<and> pending d' = pending d
     \<and> leader_active d' = leader_active d"

lemma frame_db_refl [simp]: "frame_db d d" by (simp add: frame_db_def)

lemma frame_db_trans [trans]: "frame_db a b \<Longrightarrow> frame_db b c \<Longrightarrow> frame_db a c"
  by (simp add: frame_db_def)

lemma keeps_frame_bind [intro]:
  "keeps frame_db m \<Longrightarrow> (\<And>x. keeps frame_db (f x)) \<Longrightarrow> keeps frame_db (bindE m f)"
  by (rule keeps_bind [OF frame_db_trans])

lemma keeps_frame_on_conn [simp, intro]: "keeps frame_db (on_conn m)"
  by (simp add: keeps_def on_conn_def frame_db_def split: prod.splits)

lemma keeps_frame_inject [simp, intro]: "keeps frame_db take_injected_commit_failure"
  by (simp add: keeps_def take_injected_commit_failure_def frame_db_def)

lemma keeps_frame_or_rollback [intro]: "keeps frame_db m \<Longrightarrow> keeps frame_db (or_rollback m)"
  unfolding keeps_def or_rollback_def
  using keeps_frame_on_conn [of sql_rollback, unfolded keeps_def]
  by (auto split: prod.splits sum.splits intro: frame_db_trans)

lemma frame_bind_at:
  "keeps frame_db m \<Longrightarrow> (\<And>x. keeps frame_db (f x)) \<Longrightarrow> frame_db s (snd (bindE m f s))"
  using keeps_frame_bind [of m f] by (simp add: keeps_def)

lemma keeps_frame_check_spec [simp, intro]: "keeps frame_db (check_spec_in_txn spec)"
  unfolding keeps_def
proof
  show "frame_db d (snd (check_spec_in_txn spec d))" for d
    by (cases spec) (auto simp: Let_def intro!: frame_bind_at keeps_ret)
qed

lemmas frame_steps = keepsD [OF keeps_frame_check_spec] keepsD [OF keeps_frame_on_conn]
  keepsD [OF keeps_frame_inject]

lemma reserve_member_frame: "reserve_member hx item d = (r, d') \<Longrightarrow> frame_db d d'"
  unfolding reserve_member_def
  by (auto split: if_splits prod.splits sum.splits dest!: frame_steps intro: frame_db_trans)

lemma reserve_members_frame:
  "reserve_members hx batch pe d = (r, d') \<Longrightarrow> frame_db d d'"
  by (induction hx batch pe d arbitrary: r d' rule: reserve_members.induct)
    (fastforce split: option.splits prod.splits sum.splits
      dest: reserve_member_frame intro: frame_db_trans)+

lemma keeps_frame_persist: "keeps frame_db m \<Longrightarrow> keeps frame_db (persist_reserved_row m)"
  unfolding persist_reserved_row_def by (intro keeps_frame_bind) auto

lemma keeps_frame_ret [simp]: "keeps frame_db (retE x)"
  by (rule keeps_ret) simp

lemma frame_on_conn [simp]: "frame_db d (snd (on_conn m d))"
  using keeps_frame_on_conn [of m] by (simp add: keeps_def)

lemmas frame_ends = keepsD [OF keeps_frame_persist [OF keeps_frame_ret]]
  keepsD [OF keeps_frame_bind [OF keeps_frame_on_conn keeps_frame_ret]]

lemma batch_body_frame: "batch_body hx batch d = (r, d') \<Longrightarrow> frame_db d d'"
  unfolding batch_body_def
  by (auto split: prod.splits if_splits sum.splits
      dest!: reserve_members_frame dest: frame_ends
      intro: frame_db_trans frame_db_trans [OF frame_db_trans [OF _ frame_ends(1)] frame_on_conn])

lemma commit_batch_frame: "frame_db d (snd (commit_batch hx batch d))"
proof -
  have "keeps frame_db (with_immediate_txn (batch_body hx batch))"
    unfolding with_immediate_txn_def
    by (intro keeps_frame_bind keeps_frame_or_rollback keeps_frame_on_conn)
      (auto simp: keeps_def batch_body_frame [OF surjective_pairing])
  then have "frame_db d (snd (with_immediate_txn (batch_body hx batch) d))"
    by (simp add: keeps_def)
  then show ?thesis by (auto simp: commit_batch_def split: prod.splits sum.splits)
qed

lemma commit_batch_pending: "pending (snd (commit_batch hx batch d)) = pending d"
  using commit_batch_frame [of d hx batch] by (simp add: frame_db_def)

lemma drain_batch_shorter:
  "drain_batch d = (batch, d1) \<Longrightarrow> batch \<noteq> [] \<Longrightarrow> length (pending d1) < length (pending d)"
  by (auto simp: drain_batch_def Let_def split: if_splits)

text \<open>
  The leader's loop. Other threads enqueue while it runs: \<open>arrivals\<close> lists, per round, what they
  have pushed by the time \<open>drain_batch\<close> has waited. The loop ends when it finds the queue empty.
\<close>

definition arrive :: "queued_reserve list \<Rightarrow> slashing_db \<Rightarrow> slashing_db" where
  "arrive items d = foldl (\<lambda>d item. snd (push_pending item True d)) d items"

lemma arrive_eq:
  "arrive items d = d\<lparr>pending := pending d @ items, leader_active := leader_active d \<or> items \<noteq> []\<rparr>"
  unfolding arrive_def by (induction items arbitrary: d) (simp_all add: push_pending_def Let_def)

definition next_round :: "queued_reserve list list \<Rightarrow> queued_reserve list \<times> queued_reserve list list" where
  "next_round arrivals = (case arrivals of [] \<Rightarrow> ([], []) | items # later \<Rightarrow> (items, later))"

lemma next_round_concat: "next_round arrivals = (items, later) \<Longrightarrow> concat arrivals = items @ concat later"
  by (auto simp: next_round_def split: list.splits)

function lead_flush ::
  "hex_codec \<Rightarrow> queued_reserve list list \<Rightarrow> slashing_db \<Rightarrow> (nat \<times> reserve_result) list \<times> slashing_db" where
  "lead_flush hx arrivals d =
     (case next_round arrivals of
        (items, later) \<Rightarrow>
          (case drain_batch (arrive items d) of
             (batch, d1) \<Rightarrow>
               if batch \<noteq> [] then
                 (case commit_batch hx batch d1 of
                    (sent, d2) \<Rightarrow> (case lead_flush hx later d2 of (sent2, d3) \<Rightarrow> (sent @ sent2, d3)))
               else ([], d1\<lparr>leader_active := False\<rparr>)))"
  by pat_completeness auto
termination
proof (relation "measure (\<lambda>(hx, arrivals, d). length (pending d) + length (concat arrivals))")
  fix hx arrivals d items later batch d1 sent d2
  assume a: "(items, later) = next_round arrivals" "(batch, d1) = drain_batch (arrive items d)" "batch \<noteq> []"
    "(sent, d2) = commit_batch hx batch d1"
  have "length (pending d1) < length (pending (arrive items d))"
    using drain_batch_shorter [of "arrive items d" batch d1] a(2,3) by simp
  moreover have "pending d2 = pending d1" using commit_batch_pending [of hx batch d1] a(4) by (metis snd_conv)
  ultimately show "((hx, later, d2), (hx, arrivals, d))
      \<in> measure (\<lambda>(hx, arrivals, d). length (pending d) + length (concat arrivals))"
    using next_round_concat [OF a(1) [symmetric]] by (simp add: arrive_eq)
qed simp

declare lead_flush.simps [simp del]

text \<open>
  The other threads, seen by one caller: the batch a leader on another thread holds when the caller
  enqueues, drained and not yet committed, and the arrivals of the later rounds. A caller that does not
  become the leader is answered by that leader, which commits the batch it holds and goes on with its
  loop. The flag \<open>leader_active\<close> stands for a leader that is running: a leader that panics is not
  modelled.
\<close>

record other_threads =
  ot_in_flight :: "queued_reserve list"
  ot_arrivals :: "queued_reserve list list"

definition flush_elsewhere ::
  "hex_codec \<Rightarrow> other_threads \<Rightarrow> slashing_db \<Rightarrow> (nat \<times> reserve_result) list \<times> slashing_db" where
  "flush_elsewhere hx others d =
     (case commit_batch hx (ot_in_flight others) d of
        (sent, d1) \<Rightarrow> (case lead_flush hx (ot_arrivals others) d1 of (sent2, d2) \<Rightarrow> (sent @ sent2, d2)))"

definition enqueue_and_wait ::
  "hex_codec \<Rightarrow> other_threads \<Rightarrow> reserve_spec \<Rightarrow> nat \<Rightarrow> slashing_db \<Rightarrow> reserve_result \<times> slashing_db" where
  "enqueue_and_wait hx others spec tx d =
     (let item = \<lparr>qr_spec = spec, qr_tx = tx, qr_cancelled_at_load = False,
                  qr_cancelled_at_claim = False\<rparr>
      in case push_pending item True d of
        (become_leader, d1) \<Rightarrow>
          (case (if become_leader then lead_flush hx (ot_arrivals others) d1 else flush_elsewhere hx others d1) of
             (sent, d2) \<Rightarrow>
               (case map_of sent tx of
                  Some r \<Rightarrow> (r, d2)
                | None \<Rightarrow> (Inl (ReserveCommitFailed
                    ''group-commit worker disconnected before commit''), d2))))"

definition reserve_block ::
  "hex_codec \<Rightarrow> other_threads \<Rightarrow> nat \<Rightarrow> string \<Rightarrow> slot \<Rightarrow> string option \<Rightarrow> root
     \<Rightarrow> (slashing_db, slashing_error, committed_reservation) action" where
  "reserve_block hx others tx pubkey_hex slot signing_root_hex gvr =
     bindE (check_gvr_before_lock hx gvr)
     (\<lambda>_. enqueue_and_wait hx others
        (SpecBlock (normalize_pubkey pubkey_hex) slot signing_root_hex gvr (gvr_hex_of_root hx gvr)) tx)"

definition reserve_attestation ::
  "hex_codec \<Rightarrow> other_threads \<Rightarrow> nat \<Rightarrow> string \<Rightarrow> epoch \<Rightarrow> epoch \<Rightarrow> string option \<Rightarrow> root
     \<Rightarrow> (slashing_db, slashing_error, committed_reservation) action" where
  "reserve_attestation hx others tx pubkey_hex source_epoch target_epoch signing_root_hex gvr =
     bindE (check_gvr_before_lock hx gvr)
     (\<lambda>_. enqueue_and_wait hx others
        (SpecAttestation (normalize_pubkey pubkey_hex) source_epoch target_epoch signing_root_hex gvr
          (gvr_hex_of_root hx gvr)) tx)"

section \<open>Admission and its effect on the tables\<close>

definition tables_ok :: "tables \<Rightarrow> bool" where
  "tables_ok t \<longleftrightarrow> wf_tables t \<and> safe_tables t"

fun spec_safe :: "reserve_spec \<Rightarrow> bool" where
  "spec_safe (SpecBlock pk sl r g gh) = i64_safe sl"
| "spec_safe (SpecAttestation pk s t r g gh) = (i64_safe s \<and> i64_safe t)"

text \<open>
  \<open>admits t spec ins\<close>: the tables let \<open>spec\<close> be signed, as a new row (\<open>ins\<close>) or because
  its row is already there.
\<close>

fun admits :: "tables \<Rightarrow> reserve_spec \<Rightarrow> bool \<Rightarrow> bool" where
  "admits t (SpecBlock pk sl r g gh) ins \<longleftrightarrow>
     above_block_floor (block_floor pk t) (block_cand sl r)
     \<and> (if ins then sl \<notin> fst ` block_history_of pk t else (sl, r) \<in> block_history_of pk t)"
| "admits t (SpecAttestation pk s tg r g gh) ins \<longleftrightarrow>
     above_att_floors (att_floors pk t) (att_cand s tg r)
     \<and> (\<forall>e\<in>att_history_of pk t. \<not> surrounds (s, tg) (ea_span e) \<and> \<not> surrounds (ea_span e) (s, tg))
     \<and> (if ins then \<forall>e\<in>att_history_of pk t. ea_target_epoch e \<noteq> tg
        else \<exists>e\<in>att_history_of pk t. ea_target_epoch e = tg \<and> ea_signing_root e = r)"

text \<open>The text pinned in the metadata table, if any, is the text the request carries.\<close>

definition pin_allows :: "tables \<Rightarrow> reserve_spec \<Rightarrow> bool" where
  "pin_allows t spec \<longleftrightarrow> (\<forall>pinned. map_of (metadata t) gvr_key = Some pinned \<longrightarrow> pinned = spec_gvr_hex spec)"

fun apply_spec :: "tables \<Rightarrow> reserve_spec \<Rightarrow> bool \<Rightarrow> tables" where
  "apply_spec t (SpecBlock pk sl r g gh) ins =
     (if ins then t\<lparr>blocks := blocks t @ [block_row_of pk sl r gh]\<rparr> else t)"
| "apply_spec t (SpecAttestation pk s tg r g gh) ins =
     (if ins then t\<lparr>attestations := attestations t @ [att_row_of pk s tg r gh]\<rparr> else t)"

fun reservation_of :: "reserve_spec \<Rightarrow> bool \<Rightarrow> committed_reservation" where
  "reservation_of (SpecBlock pk sl r g gh) ins =
     \<lparr>cr_pubkey_hex = pk, cr_kind = KindBlock sl, cr_signing_root_hex = r, cr_inserted = ins\<rparr>"
| "reservation_of (SpecAttestation pk s tg r g gh) ins =
     \<lparr>cr_pubkey_hex = pk, cr_kind = KindAttestation s tg, cr_signing_root_hex = r, cr_inserted = ins\<rparr>"

lemma is_resign_eq: "is_resign strict a b \<Longrightarrow> a = b"
  by (auto simp: is_resign_def split: option.splits)

lemma cr_inserted_reservation_of [simp]: "cr_inserted (reservation_of spec ins) = ins"
  by (cases spec) simp_all

lemma check_spec_Inr:
  assumes run: "check_spec_in_txn spec d = (Inr res, d')"
    and ok: "tables_ok (current (sd_conn d))" "spec_safe spec"
  shows "same_tables (sd_conn d) (sd_conn d')" "reservation_of spec (cr_inserted res) = res"
    "admits (current (sd_conn d)) spec (cr_inserted res)"
proof -
  have wf: "wf_tables (current (sd_conn d))" "safe_tables (current (sd_conn d))"
    using ok by (simp_all add: tables_ok_def)
  have "same_tables (sd_conn d) (sd_conn d') \<and> reservation_of spec (cr_inserted res) = res
      \<and> admits (current (sd_conn d)) spec (cr_inserted res)"
  proof (cases spec)
    case (SpecBlock pk sl r g gh)
    then obtain v c where ev: "evaluate_block (fork_aware_strict d (sl div SLOTS_PER_EPOCH)) pk sl r
        (sd_conn d) = (Inr v, c)" and d': "d' = d\<lparr>sd_conn := c\<rparr>"
      and res: "res = reservation_of spec (v \<noteq> BlockResign)"
      using run by (auto simp: bindE_Inr_iff on_conn_iff)
    note ev = evaluate_block_Inr [OF ev wf]
    show ?thesis
      using ev SpecBlock d' res by (cases v) (auto dest: is_resign_eq)
  next
    case (SpecAttestation pk s t r g gh)
    then obtain v c where ev: "evaluate_attestation (fork_aware_strict d t) pk s t r
        (sd_conn d) = (Inr v, c)" and d': "d' = d\<lparr>sd_conn := c\<rparr>"
      and res: "res = reservation_of spec (v \<noteq> AttDuplicate)"
      using run by (auto simp: bindE_Inr_iff on_conn_iff)
    have "i64_safe s" "i64_safe t" using ok(2) SpecAttestation by auto
    note ev = evaluate_attestation_Inr [OF ev wf this]
    show ?thesis
      using ev SpecAttestation d' res by (cases v) (auto dest!: is_resign_eq)
  qed
  then show "same_tables (sd_conn d) (sd_conn d')" "reservation_of spec (cr_inserted res) = res"
    "admits (current (sd_conn d)) spec (cr_inserted res)" by blast+
qed

lemma check_spec_unless: "check_spec_in_txn spec d = (Inl e, d') \<Longrightarrow> is_group_member_rejection e
    \<Longrightarrow> same_tables (sd_conn d) (sd_conn d')"
  by (cases spec)
    (auto simp: bindE_Inl_iff on_conn_iff database_error_not_rejection
      dest!: keeps_unlessD(2) [OF evaluate_block_unless] keeps_unlessD(2) [OF evaluate_attestation_unless])

lemma check_spec_reads: "check_spec_in_txn spec d = (x, d') \<Longrightarrow> reads (sd_conn d) (sd_conn d')"
  by (cases spec; cases x)
    (auto simp: result_iff on_conn_iff
      dest!: keepsD [OF evaluate_block_reads] keepsD [OF evaluate_attestation_reads])

lemma insert_row_txn:
  "insert_attestation_row r c = (Inr k, c') \<Longrightarrow> txn c = Some t \<Longrightarrow>
     txn c' = Some (t\<lparr>attestations := attestations t @ [r]\<rparr>) \<and> committed c' = committed c"
  "insert_block_row b c = (Inr k, c') \<Longrightarrow> txn c = Some t \<Longrightarrow>
     txn c' = Some (t\<lparr>blocks := blocks t @ [b]\<rparr>) \<and> committed c' = committed c"
  by (auto simp: insert_attestation_row_def insert_block_row_def elim!: sql_execute_InrE
      split: if_splits)

lemma insert_row_reads:
  "insert_attestation_row r c = (Inl e, c') \<Longrightarrow> reads c c'"
  "insert_block_row b c = (Inl e, c') \<Longrightarrow> reads c c'"
  by (simp_all add: insert_attestation_row_def insert_block_row_def sql_execute_Inl)

lemma insert_spec_Inr:
  assumes "insert_spec spec res c = (Inr u, c')" "txn c = Some t"
  shows "txn c' = Some (apply_spec t spec (cr_inserted res)) \<and> committed c' = committed c"
  using assms by (cases spec) (auto simp: bindE_Inr_iff split: if_splits dest!: insert_row_txn)

lemma insert_spec_Inl: "insert_spec spec res c = (Inl e, c') \<Longrightarrow> reads c c'"
  by (cases spec) (auto simp: bindE_Inl_iff map_err_Inl_iff split: if_splits dest!: insert_row_reads)

lemma gvr_mismatch_unless:
  "keeps_unless is_database_error same_tables (gvr_mismatch_on_conn hx spec)"
proof -
  have lift: "keeps_unless is_database_error same_tables (lift_sum x)" for x :: "slashing_error + root"
    by (rule keeps_unlessI) (auto simp: lift_sum_def)
  show ?thesis
    unfolding gvr_mismatch_on_conn_def select_metadata_gvr_def
    by (intro lift keeps_unless_bind keeps_unless_option keeps_unless_if keeps_unless_ret
        keeps_unless_throw sql_query_unless same_tables_refl | erule (1) same_tables_trans)+
qed

lemma gvr_mismatch_reads: "keeps reads (gvr_mismatch_on_conn hx spec)"
proof -
  have lift: "keeps reads (lift_sum x)" for x :: "slashing_error + root"
    by (simp add: keeps_def lift_sum_def)
  show ?thesis
    unfolding gvr_mismatch_on_conn_def select_metadata_gvr_def
    by (intro lift keeps_bind keeps_option keeps_if keeps_ret keeps_throw reads_refl
        | simp | erule (1) reads_trans)+
qed

lemma gvr_mismatch_pin:
  assumes "gvr_mismatch_on_conn hx spec c = (Inr u, c')" "txn c = Some t"
  shows "pin_allows t spec"
proof -
  let ?select = "sql (sql_query (\<lambda>n t. map_of (metadata t) gvr_key))"
  from assms(1) [unfolded gvr_mismatch_on_conn_def select_metadata_gvr_def] obtain pinned c1
    where sel: "?select c = (Inr pinned, c1)"
    and cont: "(case pinned of None \<Rightarrow> retE () | Some p \<Rightarrow> if p = spec_gvr_hex spec then retE ()
        else bindE (lift_sum (parse_gvr_hex_policy hx p)) (\<lambda>e. throwE (GenesisRootMismatch e (spec_gvr spec)))) c1 = (Inr u, c')"
    unfolding bindE_Inr_iff by blast
  have rest: "pinned = None \<or> pinned = Some (spec_gvr_hex spec)"
    using cont by (cases pinned) (auto simp: bindE_Inr_iff throwE_def split: if_splits)
  obtain n where "map_of (metadata (current c)) gvr_key = pinned"
    using sel by (auto elim: sql_query_InrE)
  then show ?thesis using rest assms(2) by (auto simp: pin_allows_def)
qed

lemma wf_append_att:
  "wf_tables t \<Longrightarrow> \<forall>x\<in>set (attestations t). \<not> (ar_pubkey x = ar_pubkey r \<and> ar_target x = ar_target r)
     \<Longrightarrow> wf_tables (t\<lparr>attestations := attestations t @ [r]\<rparr>)"
  by (auto simp: wf_tables_def)

lemma wf_append_block:
  "wf_tables t \<Longrightarrow> \<forall>x\<in>set (blocks t). \<not> (br_pubkey x = br_pubkey r \<and> br_slot x = br_slot r)
     \<Longrightarrow> wf_tables (t\<lparr>blocks := blocks t @ [r]\<rparr>)"
  by (auto simp: wf_tables_def)

lemma apply_spec_ok:
  assumes "tables_ok t" "spec_safe spec" "admits t spec ins"
  shows "tables_ok (apply_spec t spec ins)"
proof (cases spec)
  case (SpecBlock pk sl r g gh)
  have "ins \<Longrightarrow> \<forall>x\<in>set (blocks t). \<not> (br_pubkey x = pk \<and> br_slot x = as_i64 sl)"
    using assms(3) SpecBlock by (force simp: block_history_of_def block_rows_of_def)
  with assms(1,2) SpecBlock show ?thesis
    by (auto simp: tables_ok_def block_row_of_def safe_as_i64 safe_tables_def intro!: wf_append_block)
next
  case (SpecAttestation pk s tg r g gh)
  have "ins \<Longrightarrow> \<forall>x\<in>set (attestations t). \<not> (ar_pubkey x = pk \<and> ar_target x = as_i64 tg)"
    using assms(3) SpecAttestation by (force simp: att_history_of_def att_rows_of_def)
  with assms(1,2) SpecAttestation show ?thesis
    by (auto simp: tables_ok_def att_row_of_def safe_as_i64 safe_tables_def intro!: wf_append_att)
qed

section \<open>A batch\<close>

text \<open>The members a run of the loop reserved, in order, and their effect on the tables.\<close>

fun reserved :: "queued_reserve list \<Rightarrow> reserve_result option list \<Rightarrow> (queued_reserve \<times> committed_reservation) list" where
  "reserved (item # items) (Some (Inr res) # outs) = (item, res) # reserved items outs"
| "reserved (item # items) (_ # outs) = reserved items outs"
| "reserved _ _ = []"

lemma subseq_reserved: "subseq (map fst (reserved batch outs)) batch"
  by (induction batch outs rule: reserved.induct) auto

lemma subseq_set: "subseq xs ys \<Longrightarrow> set xs \<subseteq> set ys"
  by (induction rule: list_emb.induct) auto

lemma subseq_distinct_map: "subseq xs ys \<Longrightarrow> distinct (map f ys) \<Longrightarrow> distinct (map f xs)"
  by (induction rule: list_emb.induct) (auto dest: subseq_set)

fun apply_all :: "tables \<Rightarrow> (queued_reserve \<times> committed_reservation) list \<Rightarrow> tables" where
  "apply_all t [] = t"
| "apply_all t ((item, res) # xs) = apply_all (apply_spec t (qr_spec item) (cr_inserted res)) xs"

fun admits_all :: "tables \<Rightarrow> (queued_reserve \<times> committed_reservation) list \<Rightarrow> bool" where
  "admits_all t [] \<longleftrightarrow> True"
| "admits_all t ((item, res) # xs) \<longleftrightarrow>
     reservation_of (qr_spec item) (cr_inserted res) = res
     \<and> admits t (qr_spec item) (cr_inserted res) \<and> pin_allows t (qr_spec item)
     \<and> admits_all (apply_spec t (qr_spec item) (cr_inserted res)) xs"

lemma reserve_member_InrE:
  assumes "reserve_member hx item d = (Inr out, d')"
  obtains (cancelled) "out = None" "d' = d"
  | (rejected) e where "check_spec_in_txn (qr_spec item) d = (Inl e, d')"
      "is_group_member_rejection e" "out = Some (Inl e)"
  | (dropped) res where "check_spec_in_txn (qr_spec item) d = (Inr res, d')" "out = None"
  | (other_chain) res d1 e where "check_spec_in_txn (qr_spec item) d = (Inr res, d1)"
      "on_conn (gvr_mismatch_on_conn hx (qr_spec item)) d1 = (Inl e, d')"
      "is_group_member_rejection e" "out = Some (Inl e)"
  | (reserved) res d1 d2 u v where "check_spec_in_txn (qr_spec item) d = (Inr res, d1)"
      "on_conn (gvr_mismatch_on_conn hx (qr_spec item)) d1 = (Inr u, d2)"
      "on_conn (insert_spec (qr_spec item) res) d2 = (Inr v, d')" "out = Some (Inr res)"
  using assms unfolding reserve_member_def
  by (auto split: if_splits prod.splits sum.splits)

lemma reserve_member_Inr:
  assumes run: "reserve_member hx item d = (Inr out, d')"
    and t: "txn (sd_conn d) = Some t" and ok: "tables_ok t" "spec_safe (qr_spec item)"
  shows "committed (sd_conn d') = committed (sd_conn d)
    \<and> txn (sd_conn d') = Some (case out of
        Some (Inr res) \<Rightarrow> apply_spec t (qr_spec item) (cr_inserted res) | _ \<Rightarrow> t)
    \<and> (\<forall>res. out = Some (Inr res) \<longrightarrow> reservation_of (qr_spec item) (cr_inserted res) = res
        \<and> admits t (qr_spec item) (cr_inserted res) \<and> pin_allows t (qr_spec item))"
proof -
  have ok': "tables_ok (current (sd_conn d))" using t ok by simp
  note chk = check_spec_Inr [OF _ ok' ok(2)]
  note gvr = keeps_unlessD [OF gvr_mismatch_unless]
  from run show ?thesis
  proof (cases rule: reserve_member_InrE)
    case (rejected e)
    then show ?thesis using check_spec_unless [OF rejected(1,2)] t by (simp add: same_tables_def)
  next
    case (dropped res)
    then show ?thesis using chk(1) [OF dropped(1)] t by (simp add: same_tables_def)
  next
    case (other_chain res d1 e)
    then show ?thesis using chk(1) [OF other_chain(1)] t database_error_not_rejection [of e]
      by (auto simp: same_tables_def on_conn_iff dest!: gvr(2))
  next
    case (reserved res d1 d2 u v)
    have d1: "txn (sd_conn d1) = Some t" "committed (sd_conn d1) = committed (sd_conn d)"
      using chk(1) [OF reserved(1)] t by (simp_all add: same_tables_def)
    have d2: "txn (sd_conn d2) = Some t" "committed (sd_conn d2) = committed (sd_conn d)"
      using d1 reserved(2) by (auto simp: same_tables_def on_conn_iff dest!: gvr(1))
    obtain c3 where "insert_spec (qr_spec item) res (sd_conn d2) = (Inr v, c3)" "sd_conn d' = c3"
      using reserved(3) by (auto simp: on_conn_iff)
    with insert_spec_Inr [OF this(1) d2(1)] d2(2)
    have "txn (sd_conn d') = Some (apply_spec t (qr_spec item) (cr_inserted res))
        \<and> committed (sd_conn d') = committed (sd_conn d)" by simp
    moreover have "pin_allows t (qr_spec item)"
      using reserved(2) gvr_mismatch_pin d1(1) by (auto simp: on_conn_iff)
    ultimately show ?thesis using reserved(4) chk(2,3) [OF reserved(1)] t by simp
  qed (use t in simp)
qed

lemma check_spec_same: "check_spec_in_txn spec d = (Inr res, d') \<Longrightarrow> same_tables (sd_conn d) (sd_conn d')"
  by (cases spec)
    (auto simp: bindE_Inr_iff on_conn_iff
      dest!: keeps_unlessD(1) [OF evaluate_block_unless] keeps_unlessD(1) [OF evaluate_attestation_unless])

lemma reserve_member_committed:
  assumes run: "reserve_member hx item d = (x, d')" and t: "txn (sd_conn d) = Some t"
  shows "committed (sd_conn d') = committed (sd_conn d)"
proof (cases "qr_cancelled_at_load item")
  case True
  with run show ?thesis by (simp add: reserve_member_def)
next
  case False
  obtain y d1 where chk: "check_spec_in_txn (qr_spec item) d = (y, d1)" by fastforce
  have c1: "committed (sd_conn d1) = committed (sd_conn d)"
    using check_spec_reads [OF chk] by (simp add: reads_def)
  obtain z d2 where gvr: "on_conn (gvr_mismatch_on_conn hx (qr_spec item)) d1 = (z, d2)" by fastforce
  have c2: "committed (sd_conn d2) = committed (sd_conn d)"
    using gvr c1 by (auto simp: on_conn_iff reads_def dest!: keepsD [OF gvr_mismatch_reads])
  show ?thesis
  proof (cases "(\<exists>res u. y = Inr res \<and> z = Inr u \<and> \<not> qr_cancelled_at_claim item)")
    case True
    then obtain res u where y: "y = Inr res" "z = Inr u" "\<not> qr_cancelled_at_claim item" by blast
    have t2: "txn (sd_conn d2) = Some t"
      using gvr y check_spec_same [OF chk [unfolded y]] t
      by (auto simp: on_conn_iff same_tables_def dest!: keeps_unlessD(1) [OF gvr_mismatch_unless])
    obtain w d3 where ins: "on_conn (insert_spec (qr_spec item) res) d2 = (w, d3)" by fastforce
    have "committed (sd_conn d3) = committed (sd_conn d)"
      using ins t2 c2
      by (cases w) (auto simp: on_conn_iff reads_def dest!: insert_spec_Inr insert_spec_Inl)
    with run False y chk gvr ins show ?thesis
      by (auto simp: reserve_member_def split: sum.splits)
  next
    case no: False
    with run False chk gvr c1 c2 show ?thesis
      by (auto simp: reserve_member_def split: sum.splits if_splits)
  qed
qed

lemma reserve_members_failed:
  "reserve_members hx batch (Some e) d = ((replicate (length batch) None, Some e), d)"
  by (induction batch) simp_all

lemma reserved_Cons:
  "reserved (item # items) (out # outs) =
     (case out of Some (Inr res) \<Rightarrow> (item, res) # reserved items outs | _ \<Rightarrow> reserved items outs)"
  by (auto split: option.splits sum.splits)

lemma reserve_members_run:
  assumes "reserve_members hx batch None d = ((outs, pe), d')" "txn (sd_conn d) = Some t"
    "tables_ok t" "\<forall>item\<in>set batch. spec_safe (qr_spec item)"
  shows "length outs = length batch \<and> committed (sd_conn d') = committed (sd_conn d)
    \<and> (pe = None \<longrightarrow> txn (sd_conn d') = Some (apply_all t (reserved batch outs))
          \<and> admits_all t (reserved batch outs))"
  using assms
proof (induction batch arbitrary: d t outs pe d')
  case (Cons item batch)
  obtain x d1 where mem: "reserve_member hx item d = (x, d1)" by fastforce
  show ?case
  proof (cases x)
    case (Inl e)
    with Cons.prems mem reserve_member_committed [OF mem Cons.prems(2)] show ?thesis
      by (auto simp: reserve_members_failed)
  next
    case (Inr out)
    obtain outs1 pe1 d2 where rest: "reserve_members hx batch None d1 = ((outs1, pe1), d2)"
      by (metis prod.exhaust)
    have eqs: "outs = out # outs1" "pe = pe1" "d' = d2"
      using Cons.prems(1) mem Inr rest by simp_all
    define t1 where "t1 = (case out of
        Some (Inr res) \<Rightarrow> apply_spec t (qr_spec item) (cr_inserted res) | _ \<Rightarrow> t)"
    have safe: "spec_safe (qr_spec item)" using Cons.prems(4) by simp
    note step = reserve_member_Inr [OF mem [unfolded Inr] Cons.prems(2,3) safe]
    have "tables_ok t1"
      using step Cons.prems(3) safe unfolding t1_def
      by (auto split: option.splits sum.splits intro: apply_spec_ok)
    with Cons.IH [OF rest, of t1] step Cons.prems(4) t1_def
    have IH: "length outs1 = length batch \<and> committed (sd_conn d2) = committed (sd_conn d1)
      \<and> (pe1 = None \<longrightarrow> txn (sd_conn d2) = Some (apply_all t1 (reserved batch outs1))
            \<and> admits_all t1 (reserved batch outs1))" by simp
    with step eqs show ?thesis
      by (auto simp: reserved_Cons t1_def split: option.splits sum.splits)
  qed
qed simp

lemma in_reserved_iff:
  "length outs = length batch \<Longrightarrow>
     x \<in> set (reserved batch outs) \<longleftrightarrow> (fst x, Some (Inr (snd x))) \<in> set (zip batch outs)"
  by (induction batch outs rule: list_induct2') (auto simp: reserved_Cons split: option.splits sum.splits)

lemma dispatch_outcome_Inr:
  "dispatch_outcome hx out pe = Some (Inr res) \<longleftrightarrow> pe = None \<and> out = Some (Inr res)"
  by (cases "(hx, out, pe)" rule: dispatch_outcome.cases) auto

lemma dispatch_outcomes_Inr:
  "(tx, Inr res) \<in> set (dispatch_outcomes hx batch outs pe) \<longleftrightarrow>
     pe = None \<and> (\<exists>item. (item, Some (Inr res)) \<in>
       set (zip batch (outs @ replicate (length batch - length outs) None)) \<and> qr_tx item = tx)"
proof -
  have "(tx, Inr res) \<in> set (case dispatch_outcome hx out pe of Some r \<Rightarrow> [(qr_tx item, r)] | None \<Rightarrow> [])
      \<longleftrightarrow> pe = None \<and> out = Some (Inr res) \<and> qr_tx item = tx" for item out
    using dispatch_outcome_Inr [of hx out pe res] by (cases "dispatch_outcome hx out pe") auto
  then show ?thesis unfolding dispatch_outcomes_def by (fastforce split: prod.splits)
qed

text \<open>The transaction around a batch: what is durable when it ends, for every tape.\<close>

lemma batch_body_run:
  assumes run: "batch_body hx batch d = (x, d')" and t: "txn (sd_conn d) = Some t"
    and ok: "tables_ok t" "\<forall>item\<in>set batch. spec_safe (qr_spec item)"
  obtains (nothing) "committed (sd_conn d') = committed (sd_conn d)"
      "\<And>outs. x = Inr (outs, None) \<Longrightarrow> length outs = length batch \<and> reserved batch outs = []"
  | (all) outs where "x = Inr (outs, None)" "length outs = length batch"
      "committed (sd_conn d') = apply_all t (reserved batch outs)" "txn (sd_conn d') = None"
      "admits_all t (reserved batch outs)"
proof -
  obtain outs pe d1 where mem: "reserve_members hx batch None d = ((outs, pe), d1)"
    by (metis prod.exhaust)
  note m = reserve_members_run [OF mem t ok]
  show thesis
  proof (cases "pe = None \<and> (\<exists>out\<in>set outs. is_reserved out)")
    case True
    obtain y d2 where per: "persist_reserved_row (retE ()) d1 = (y, d2)" by fastforce
    show thesis
    proof (cases y)
      case (Inl e)
      then have "reads (sd_conn d1) (sd_conn d2)"
        using per by (auto simp: persist_reserved_row_def result_iff on_conn_iff map_err_Inl_iff
            take_injected_commit_failure_def split: if_splits dest!: sql_commit_Inl)
      moreover obtain r c3 where rb: "sql_rollback (sd_conn d2) = (r, c3)" by fastforce
      ultimately have c3: "committed c3 = committed (sd_conn d)"
        using m sql_rollback_reads [OF rb] by (simp add: reads_def)
      have "x = Inr (outs, Some e)" "sd_conn d' = c3"
        using run mem True per Inl rb by (auto simp: batch_body_def on_conn_def)
      note facts = this c3
      show thesis by (rule nothing) (simp_all add: facts)
    next
      case (Inr u)
      then have fin: "txn (sd_conn d1) = Some (committed (sd_conn d2))" "txn (sd_conn d2) = None"
        using per by (auto simp: persist_reserved_row_def result_iff on_conn_iff
            take_injected_commit_failure_def split: if_splits dest: sql_commit_Inr)
      have "x = Inr (outs, None)" "d' = d2"
        using run mem True per Inr by (auto simp: batch_body_def)
      note facts = this fin m True
      show thesis by (rule all [of outs]) (use facts in simp_all)
    qed
  next
    case False
    have rd: "bindE (on_conn (sql sql_rollback)) (\<lambda>_. retE (outs, pe)) d1 = (x, d')"
      using run mem False by (simp add: batch_body_def)
    then have "reads (sd_conn d1) (sd_conn d')"
      by (cases x) (auto simp: result_iff on_conn_iff map_err_Inl_iff dest!: sql_rollback_reads)
    then have c': "committed (sd_conn d') = committed (sd_conn d)" using m by (simp add: reads_def)
    have none: "reserved batch outs = []" if "pe = None"
    proof -
      have "out \<in> set outs \<Longrightarrow> \<not> is_reserved out" for out using False that by blast
      then show ?thesis
        using in_reserved_iff [of outs batch] m
        by (metis (no_types, lifting) is_reserved_def last_in_set option.simps(5) set_zip_rightD sum.simps(6))
    qed
    have "pe = None \<and> outs = outs'" if "x = Inr (outs', None)" for outs'
      using rd that by (auto simp: result_iff)
    with none m have "length outs' = length batch \<and> reserved batch outs' = []"
      if "x = Inr (outs', None)" for outs' using that by blast
    with c' show thesis by (rule nothing)
  qed
qed

lemma commit_batch_run:
  assumes run: "commit_batch hx batch d = (sent, d')"
    and ok: "tables_ok (committed (sd_conn d))" "\<forall>item\<in>set batch. spec_safe (qr_spec item)"
  obtains acc where
    "\<And>tx res. (tx, Inr res) \<in> set sent \<longleftrightarrow> (\<exists>item. (item, res) \<in> set acc \<and> qr_tx item = tx)"
    "subseq (map fst acc) batch" "admits_all (committed (sd_conn d)) acc"
    "committed (sd_conn d') = apply_all (committed (sd_conn d)) acc"
    "acc \<noteq> [] \<Longrightarrow> txn (sd_conn d') = None"
proof -
  have unchanged: "(\<And>tx res. (tx, Inr res) \<notin> set sent)
      \<Longrightarrow> committed (sd_conn d') = committed (sd_conn d) \<Longrightarrow> thesis"
    by (rule that [of "[]"]) simp_all
  obtain x d1 where txn: "with_immediate_txn (batch_body hx batch) d = (x, d1)" by fastforce
  show thesis
  proof (cases "batch = []")
    case True
    then have "sent = []" "d' = d" using run by (simp_all add: commit_batch_def)
    note facts = this
    show thesis by (rule unchanged) (simp_all add: facts)
  next
    case False
    have d1: "d' = d1" using run txn False by (auto simp: commit_batch_def split: sum.splits)
    from txn [unfolded with_immediate_txn_def] show thesis
    proof (cases rule: bindE_cases)
      case (err e)
      then have c': "committed (sd_conn d') = committed (sd_conn d)"
        using d1 by (auto simp: on_conn_iff map_err_Inl_iff reads_def dest!: sql_begin_Inl)
      have "(tx, Inr res) \<notin> set sent" for tx res
        using run txn False err(2) dispatch_outcomes_Inr [of tx res hx batch "[]" "Some e"]
        by (auto simp: commit_batch_def)
      from this c' show thesis by (rule unchanged)
    next
      case (ok u d0)
      then have d0: "txn (sd_conn d0) = Some (committed (sd_conn d))"
          "committed (sd_conn d0) = committed (sd_conn d)"
        by (auto simp: on_conn_iff dest: sql_begin_InrE)
      obtain y d2 where body: "batch_body hx batch d0 = (y, d2)" by fastforce
      have fin: "x = y" "(\<exists>v. y = Inr v) \<Longrightarrow> d' = d2"
          "committed (sd_conn d') = committed (sd_conn d2)"
        using ok(2) body d1
        by (auto simp: or_rollback_def on_conn_def reads_def split: sum.splits prod.splits
            dest!: sql_rollback_reads)
      from body d0(1) assms(2,3) show thesis
      proof (cases rule: batch_body_run)
        case nothing': nothing
        have "(tx, Inr res) \<notin> set sent" for tx res
        proof (cases y)
          case (Inl e)
          with run txn False fin(1) dispatch_outcomes_Inr [of tx res hx batch "[]" "Some e"]
          show ?thesis by (auto simp: commit_batch_def)
        next
          case (Inr op)
          obtain outs pe where op: "op = (outs, pe)" by fastforce
          have "sent = dispatch_outcomes hx batch outs pe"
            using run txn False fin(1) Inr op by (auto simp: commit_batch_def)
          with nothing'(2) [of outs] Inr op in_reserved_iff [of outs batch] show ?thesis
            by (auto simp: dispatch_outcomes_Inr)
        qed
        moreover have "committed (sd_conn d') = committed (sd_conn d)"
          using nothing'(1) d0 fin(3) by simp
        ultimately show thesis by (rule unchanged)
      next
        case (all outs)
        have sent: "sent = dispatch_outcomes hx batch outs None"
          using run txn False fin(1) all(1) by (auto simp: commit_batch_def)
        have iff: "(tx, Inr res) \<in> set sent
            \<longleftrightarrow> (\<exists>item. (item, res) \<in> set (reserved batch outs) \<and> qr_tx item = tx)" for tx res
          using in_reserved_iff [OF all(2)] by (auto simp: sent dispatch_outcomes_Inr all(2))
        have sub: "subseq (map fst (reserved batch outs)) batch" by (rule subseq_reserved)
        show thesis
          by (rule that [of "reserved batch outs"]) (use iff sub all fin in auto)
      qed
    qed
  qed
qed

section \<open>What a reservation stands on\<close>

fun backs :: "tables \<Rightarrow> reserve_spec \<Rightarrow> bool" where
  "backs t (SpecBlock pk sl r g gh) \<longleftrightarrow> (sl, r) \<in> block_history_of pk t"
| "backs t (SpecAttestation pk s tg r g gh) \<longleftrightarrow>
     (\<exists>e\<in>att_history_of pk t. ea_target_epoch e = tg \<and> ea_signing_root e = r)"

text \<open>Tables that only gained history rows.\<close>

definition extends :: "tables \<Rightarrow> tables \<Rightarrow> bool" where
  "extends t t' \<longleftrightarrow> set (attestations t) \<subseteq> set (attestations t') \<and> set (blocks t) \<subseteq> set (blocks t')
     \<and> watermarks t' = watermarks t \<and> metadata t' = metadata t"

lemma extends_refl [simp]: "extends t t" by (simp add: extends_def)

lemma extends_trans [trans]: "extends a b \<Longrightarrow> extends b c \<Longrightarrow> extends a c"
  by (auto simp: extends_def)

lemma extends_apply_spec: "extends t (apply_spec t spec ins)"
  by (cases spec) (auto simp: extends_def)

lemma extends_apply_all: "extends t (apply_all t acc)"
  by (induction t acc rule: apply_all.induct) (auto intro: extends_trans extends_apply_spec)

lemma history_mono:
  "extends t t' \<Longrightarrow> att_history_of pk t \<subseteq> att_history_of pk t'"
  "extends t t' \<Longrightarrow> block_history_of pk t \<subseteq> block_history_of pk t'"
  by (auto simp: extends_def att_history_of_def att_rows_of_def block_history_of_def block_rows_of_def)

lemma backs_mono: "extends t t' \<Longrightarrow> backs t spec \<Longrightarrow> backs t' spec"
  using history_mono by (cases spec) fastforce+

lemma att_history_append:
  "att_history_of pk (t\<lparr>attestations := attestations t @ [r]\<rparr>) =
     (if ar_pubkey r = pk then insert (existing_of_row r) (att_history_of pk t) else att_history_of pk t)"
  by (auto simp: att_history_of_def att_rows_of_def)

lemma block_history_append:
  "block_history_of pk (t\<lparr>blocks := blocks t @ [r]\<rparr>) =
     (if br_pubkey r = pk then insert (as_u64 (br_slot r), br_signing_root r) (block_history_of pk t)
      else block_history_of pk t)"
  by (auto simp: block_history_of_def block_rows_of_def)

lemma backs_apply_spec: "admits t spec ins \<Longrightarrow> backs (apply_spec t spec ins) spec"
  by (cases spec)
    (auto simp: att_history_append block_history_append att_row_of_def block_row_of_def split: if_splits)

lemma admits_all_backs:
  "admits_all t acc \<Longrightarrow> (item, res) \<in> set acc \<Longrightarrow>
     reservation_of (qr_spec item) (cr_inserted res) = res \<and> backs (apply_all t acc) (qr_spec item)"
proof (induction t acc rule: apply_all.induct)
  case (2 t i r acc)
  then show ?case
    using backs_mono [OF extends_apply_all [of "apply_spec t (qr_spec i) (cr_inserted r)" acc]
        backs_apply_spec [of t "qr_spec i" "cr_inserted r"]] by auto
qed simp

lemma apply_all_ok:
  "tables_ok t \<Longrightarrow> admits_all t acc \<Longrightarrow> \<forall>(item, res)\<in>set acc. spec_safe (qr_spec item) \<Longrightarrow> tables_ok (apply_all t acc)"
  by (induction t acc rule: apply_all.induct) (auto intro: apply_spec_ok)

lemma apply_all_append: "apply_all t (xs @ ys) = apply_all (apply_all t xs) ys"
  by (induction t xs rule: apply_all.induct) simp_all

lemma admits_all_append: "admits_all t (xs @ ys) \<longleftrightarrow> admits_all t xs \<and> admits_all (apply_all t xs) ys"
  by (induction t xs rule: apply_all.induct) auto

text \<open>
  \<open>serves items t sent t'\<close>: answering \<open>sent\<close> took the durable tables from \<open>t\<close> to \<open>t'\<close>. Each item
  is answered at most once, in the order of the queue; what was written is the rows of the items that
  are told they succeeded, each admitted by the tables it was checked against.
\<close>

definition serves ::
  "queued_reserve list \<Rightarrow> tables \<Rightarrow> (nat \<times> reserve_result) list \<Rightarrow> tables \<Rightarrow> bool" where
  "serves items t sent t' \<longleftrightarrow> subseq (map fst sent) (map qr_tx items)
     \<and> (\<exists>acc. (\<forall>tx res. (tx, Inr res) \<in> set sent \<longleftrightarrow> (\<exists>item. (item, res) \<in> set acc \<and> qr_tx item = tx))
          \<and> subseq (map fst acc) items \<and> admits_all t acc \<and> t' = apply_all t acc)"

lemma serves_Nil: "serves [] t [] t"
  by (auto simp: serves_def intro: exI [of _ "[]"])

lemma serves_append:
  assumes "serves xs t s1 t1" "serves ys t1 s2 t2"
  shows "serves (xs @ ys) t (s1 @ s2) t2"
proof -
  obtain a b where a: "\<forall>tx res. (tx, Inr res) \<in> set s1 \<longleftrightarrow> (\<exists>item. (item, res) \<in> set a \<and> qr_tx item = tx)"
      "subseq (map fst a) xs" "admits_all t a" "t1 = apply_all t a"
    and b: "\<forall>tx res. (tx, Inr res) \<in> set s2 \<longleftrightarrow> (\<exists>item. (item, res) \<in> set b \<and> qr_tx item = tx)"
      "subseq (map fst b) ys" "admits_all t1 b" "t2 = apply_all t1 b"
    using assms by (auto simp: serves_def)
  have "\<forall>tx res. (tx, Inr res) \<in> set (s1 @ s2) \<longleftrightarrow> (\<exists>item. (item, res) \<in> set (a @ b) \<and> qr_tx item = tx)"
    using a(1) b(1) by auto
  moreover have "subseq (map fst (a @ b)) (xs @ ys)" using list_emb_append_mono [OF a(2) b(2)] by simp
  moreover have "subseq (map fst (s1 @ s2)) (map qr_tx (xs @ ys))"
    using list_emb_append_mono assms by (auto simp: serves_def)
  moreover have "admits_all t (a @ b) \<and> t2 = apply_all t (a @ b)"
    using a(3,4) b(3,4) by (simp add: admits_all_append apply_all_append)
  ultimately show ?thesis unfolding serves_def by blast
qed

lemma serves_mono: "serves xs t s t' \<Longrightarrow> subseq xs ys \<Longrightarrow> serves ys t s t'"
proof -
  assume sv: "serves xs t s t'" and sub: "subseq xs ys"
  obtain acc where acc: "\<forall>tx res. (tx, Inr res) \<in> set s \<longleftrightarrow> (\<exists>item. (item, res) \<in> set acc \<and> qr_tx item = tx)"
    "subseq (map fst acc) xs" "admits_all t acc" "t' = apply_all t acc"
    using sv unfolding serves_def by blast
  have "subseq (map fst s) (map qr_tx ys)"
    using sv subseq_order.trans [OF _ subseq_map [OF sub, of qr_tx]] unfolding serves_def by blast
  with acc subseq_order.trans [OF acc(2) sub] show ?thesis unfolding serves_def by blast
qed

lemma serves_ok:
  assumes "serves items t sent t'" "tables_ok t" "\<forall>item\<in>set items. spec_safe (qr_spec item)"
  shows "tables_ok t'"
proof -
  obtain acc where acc: "subseq (map fst acc) items" "admits_all t acc" "t' = apply_all t acc"
    using assms(1) by (auto simp: serves_def)
  have "\<forall>(item, res)\<in>set acc. spec_safe (qr_spec item)" using subseq_set [OF acc(1)] assms(3) by force
  from apply_all_ok [OF assms(2) acc(2) this] acc(3) show ?thesis by simp
qed

lemma dispatch_outcomes_subseq: "subseq (map fst (dispatch_outcomes hx batch outs pe)) (map qr_tx batch)"
proof -
  have "subseq (map fst (concat (map (\<lambda>(item, out). case dispatch_outcome hx out pe of
      Some r \<Rightarrow> [(qr_tx item, r)] | None \<Rightarrow> []) (zip batch os)))) (map qr_tx batch)" for os
    by (induction batch os rule: list_induct2') (auto split: option.splits)
  then show ?thesis by (simp add: dispatch_outcomes_def)
qed

lemma commit_batch_serves:
  assumes "commit_batch hx batch d = (sent, d')"
    and "tables_ok (committed (sd_conn d))" "\<forall>item\<in>set batch. spec_safe (qr_spec item)"
  shows "serves batch (committed (sd_conn d)) sent (committed (sd_conn d'))"
proof -
  have "subseq (map fst sent) (map qr_tx batch)"
    using assms(1) dispatch_outcomes_subseq by (auto simp: commit_batch_def split: if_splits prod.splits sum.splits)
  moreover from assms obtain acc where
    "\<And>tx res. (tx, Inr res) \<in> set sent \<longleftrightarrow> (\<exists>item. (item, res) \<in> set acc \<and> qr_tx item = tx)"
      "subseq (map fst acc) batch" "admits_all (committed (sd_conn d)) acc"
      "committed (sd_conn d') = apply_all (committed (sd_conn d)) acc"
    by (rule commit_batch_run) blast
  ultimately show ?thesis unfolding serves_def by blast
qed

lemma drain_batch_split:
  "drain_batch d = (batch, d1) \<Longrightarrow> pending d = batch @ pending d1 \<and> sd_conn d1 = sd_conn d"
  by (auto simp: drain_batch_def Let_def split: if_splits)

lemma drain_batch_empty: "drain_batch d = ([], d1) \<Longrightarrow> pending d = [] \<and> d1 = d"
  by (auto simp: drain_batch_def Let_def min_def split: if_splits)

lemma lead_flush_serves:
  assumes "lead_flush hx arrivals d = (sent, d')" "tables_ok (committed (sd_conn d))"
    "\<forall>item\<in>set (pending d @ concat arrivals). spec_safe (qr_spec item)"
  shows "serves (pending d @ concat arrivals) (committed (sd_conn d)) sent (committed (sd_conn d'))
    \<and> pending d' = [] \<and> \<not> leader_active d'"
  using assms
proof (induction hx arrivals d arbitrary: sent d' rule: lead_flush.induct)
  case (1 hx arrivals d)
  obtain items later where nr: "next_round arrivals = (items, later)" by fastforce
  note cat = next_round_concat [OF nr]
  obtain batch d1 where dr: "drain_batch (arrive items d) = (batch, d1)" by fastforce
  have queue: "pending d @ items = batch @ pending d1" and conn: "sd_conn d1 = sd_conn d"
    using drain_batch_split [OF dr] by (simp_all add: arrive_eq)
  show ?case
  proof (cases "batch = []")
    case True
    then have "pending d1 = []" using drain_batch_empty dr by blast
    with 1(2) nr dr True conn have "sent = []" "committed (sd_conn d') = committed (sd_conn d)" "pending d' = []" "\<not> leader_active d'"
      by (subst (asm) lead_flush.simps, auto)+
    then show ?thesis using serves_mono [OF serves_Nil] by simp
  next
    case False
    obtain sent1 d2 where com: "commit_batch hx batch d1 = (sent1, d2)" by fastforce
    obtain sent2 d3 where rest: "lead_flush hx later d2 = (sent2, d3)" by fastforce
    have eqs: "sent = sent1 @ sent2" "d' = d3"
      using 1(2) nr dr com rest False by (subst (asm) lead_flush.simps, simp)+
    have pend: "pending d2 = pending d1" using commit_batch_pending [of hx batch d1] com by simp
    have all: "pending d @ concat arrivals = batch @ pending d2 @ concat later" using queue cat pend by simp
    have safe: "\<forall>item\<in>set batch. spec_safe (qr_spec item)" "\<forall>item\<in>set (pending d2 @ concat later). spec_safe (qr_spec item)"
      using 1(4) unfolding all by auto
    have ok1: "tables_ok (committed (sd_conn d1))" using 1(3) conn by simp
    note c = commit_batch_serves [OF com ok1 safe(1)]
    note ih = 1(1) [OF nr [symmetric] dr [symmetric] False com [symmetric] rest serves_ok [OF c ok1 safe(1)] safe(2)]
    from serves_append [OF c] ih show ?thesis unfolding all eqs conn [symmetric] by blast
  qed
qed

lemma flush_elsewhere_serves:
  assumes "flush_elsewhere hx others d = (sent, d')" "tables_ok (committed (sd_conn d))"
    "\<forall>item\<in>set (ot_in_flight others @ pending d @ concat (ot_arrivals others)). spec_safe (qr_spec item)"
  shows "serves (ot_in_flight others @ pending d @ concat (ot_arrivals others)) (committed (sd_conn d)) sent (committed (sd_conn d'))"
proof -
  obtain sent1 d1 where com: "commit_batch hx (ot_in_flight others) d = (sent1, d1)" by fastforce
  obtain sent2 where rest: "lead_flush hx (ot_arrivals others) d1 = (sent2, d')" and sent: "sent = sent1 @ sent2"
    using assms(1) com by (auto simp: flush_elsewhere_def split: prod.splits)
  have pend: "pending d1 = pending d" using commit_batch_pending [of hx "ot_in_flight others" d] com by simp
  have safe: "\<forall>item\<in>set (ot_in_flight others). spec_safe (qr_spec item)" using assms(3) by auto
  note c = commit_batch_serves [OF com assms(2) safe]
  have "serves (pending d1 @ concat (ot_arrivals others)) (committed (sd_conn d1)) sent2 (committed (sd_conn d'))"
    using lead_flush_serves [OF rest serves_ok [OF c assms(2) safe]] assms(3) pend by simp
  from serves_append [OF c this] show ?thesis unfolding sent pend .
qed

subsection \<open>One caller among the others\<close>

text \<open>
  What the other threads have queued, or will queue while the caller waits: its channel is its own and
  their epochs and slots are in range. The caller may lead or follow.
\<close>

definition other_items :: "other_threads \<Rightarrow> slashing_db \<Rightarrow> queued_reserve list" where
  "other_items others d = ot_in_flight others @ pending d @ concat (ot_arrivals others)"

definition waits_among :: "nat \<Rightarrow> other_threads \<Rightarrow> slashing_db \<Rightarrow> bool" where
  "waits_among tx others d \<longleftrightarrow>
     list_all (\<lambda>item. qr_tx item \<noteq> tx \<and> spec_safe (qr_spec item)) (other_items others d)"

lemma answered_once:
  assumes "subseq (map fst sent) (us @ tx # vs)" "tx \<notin> set us" "tx \<notin> set vs" "(tx, r) \<in> set sent"
  shows "map_of sent tx = Some r"
  using assms
proof (induction sent arbitrary: us)
  case (Cons a sent)
  show ?case
  proof (cases "fst a = tx")
    case True
    have "subseq (map fst sent) vs"
      using Cons.prems(1,2) True by (induction us) (auto split: if_splits)
    then have "tx \<notin> fst ` set sent" using subseq_set Cons.prems(3) by fastforce
    with Cons.prems(4) have "a = (tx, r)" by force
    then show ?thesis by simp
  next
    case False
    have "subseq (map fst sent) (us @ tx # vs)"
      using Cons.prems(1) subseq_Cons' [of "fst a" "map fst sent" "us @ tx # vs"] by simp
    from Cons.IH [OF this Cons.prems(2,3)] Cons.prems(4) False show ?thesis by (cases a) auto
  qed
qed simp

definition own_item :: "reserve_spec \<Rightarrow> nat \<Rightarrow> queued_reserve" where
  "own_item spec tx = \<lparr>qr_spec = spec, qr_tx = tx, qr_cancelled_at_load = False, qr_cancelled_at_claim = False\<rparr>"

lemma own_item_simps [simp]: "qr_spec (own_item spec tx) = spec" "qr_tx (own_item spec tx) = tx"
  by (simp_all add: own_item_def)

lemma enqueue_and_wait_serves:
  assumes run: "enqueue_and_wait hx others spec tx d = (r, d')"
    and ok: "tables_ok (committed (sd_conn d))"
    and safe: "\<forall>it\<in>set (ot_in_flight others @ pending d @ own_item spec tx # concat (ot_arrivals others)). spec_safe (qr_spec it)"
  obtains sent where "serves (ot_in_flight others @ pending d @ own_item spec tx # concat (ot_arrivals others))
      (committed (sd_conn d)) sent (committed (sd_conn d'))"
    "\<And>res. r = Inr res \<Longrightarrow> (tx, Inr res) \<in> set sent" "\<And>res. map_of sent tx = Some (Inr res) \<Longrightarrow> r = Inr res"
proof -
  define d1 where "d1 = d\<lparr>pending := pending d @ [own_item spec tx], leader_active := True\<rparr>"
  obtain sent d2 where fl: "(if \<not> leader_active d then lead_flush hx (ot_arrivals others) d1 else flush_elsewhere hx others d1) = (sent, d2)"
    by fastforce
  have ans: "(case map_of sent tx of
      Some r \<Rightarrow> (r, d2) | None \<Rightarrow> (Inl (ReserveCommitFailed ''group-commit worker disconnected before commit''), d2)) = (r, d')"
    using run fl [unfolded d1_def own_item_def] by (simp add: enqueue_and_wait_def push_pending_def Let_def)
  have ok1: "tables_ok (committed (sd_conn d1))" using ok by (simp add: d1_def)
  have "serves (ot_in_flight others @ pending d @ own_item spec tx # concat (ot_arrivals others))
      (committed (sd_conn d1)) sent (committed (sd_conn d2))"
  proof (cases "leader_active d")
    case True
    then have "flush_elsewhere hx others d1 = (sent, d2)" using fl by simp
    from flush_elsewhere_serves [OF this ok1] safe show ?thesis by (simp add: d1_def)
  next
    case False
    then have "lead_flush hx (ot_arrivals others) d1 = (sent, d2)" using fl by simp
    from lead_flush_serves [OF this ok1] safe
    have "serves (pending d @ own_item spec tx # concat (ot_arrivals others)) (committed (sd_conn d1)) sent (committed (sd_conn d2))"
      by (simp add: d1_def)
    then show ?thesis by (rule serves_mono) (simp add: list_emb_append2)
  qed
  moreover have "d' = d2" using ans by (auto split: option.splits)
  moreover have "(tx, Inr res) \<in> set sent" if "r = Inr res" for res
    using ans that by (auto split: option.splits dest: map_of_SomeD)
  moreover have "r = Inr res" if "map_of sent tx = Some (Inr res)" for res using ans that by simp
  ultimately show thesis using that by (simp add: d1_def)
qed

text \<open>
  The answer a caller gets, whoever leads. A success is its own row, durable and admitted; after a failure
  the durable tables differ from those before only by rows of the others.
\<close>

lemma enqueue_and_wait_run:
  assumes run: "enqueue_and_wait hx others spec tx d = (r, d')"
    and among: "waits_among tx others d" and ok: "tables_ok (committed (sd_conn d))" "spec_safe spec"
  obtains acc where "committed (sd_conn d') = apply_all (committed (sd_conn d)) acc"
    "admits_all (committed (sd_conn d)) acc"
    "\<And>res. r = Inr res \<Longrightarrow> \<exists>item. (item, res) \<in> set acc \<and> qr_spec item = spec"
    "isl r \<Longrightarrow> fst ` set acc \<subseteq> set (other_items others d)"
proof -
  define us where "us = ot_in_flight others @ pending d"
  define vs where "vs = concat (ot_arrivals others)"
  have others: "other_items others d = us @ vs" by (simp add: other_items_def us_def vs_def)
  have safe: "\<forall>it\<in>set (us @ own_item spec tx # vs). spec_safe (qr_spec it)" and tx: "tx \<notin> qr_tx ` set us" "tx \<notin> qr_tx ` set vs"
    using among ok(2) unfolding waits_among_def others by (auto simp: list_all_iff)
  obtain sent where sv: "serves (us @ own_item spec tx # vs) (committed (sd_conn d)) sent (committed (sd_conn d'))"
    and ans: "\<And>res. r = Inr res \<Longrightarrow> (tx, Inr res) \<in> set sent" "\<And>res. map_of sent tx = Some (Inr res) \<Longrightarrow> r = Inr res"
    using enqueue_and_wait_serves [OF run ok(1)] safe unfolding us_def vs_def by (metis append.assoc)
  then obtain acc where
    iff: "\<And>tx res. (tx, Inr res) \<in> set sent \<longleftrightarrow> (\<exists>item. (item, res) \<in> set acc \<and> qr_tx item = tx)"
    and sub: "subseq (map fst acc) (us @ own_item spec tx # vs)" and adm: "admits_all (committed (sd_conn d)) acc"
    and com: "committed (sd_conn d') = apply_all (committed (sd_conn d)) acc"
    by (auto simp: serves_def)
  have once: "subseq (map fst sent) (map qr_tx us @ tx # map qr_tx vs)" using sv by (simp add: serves_def)
  have own: "it = own_item spec tx" if "(it, res) \<in> set acc" "qr_tx it = tx" for it res
    using subseq_set [OF sub] that tx by force
  show thesis
  proof (rule that [OF com adm])
    show "\<exists>item. (item, res) \<in> set acc \<and> qr_spec item = spec" if "r = Inr res" for res
      using ans(1) [OF that] iff own own_item_simps(1) by metis
    show "fst ` set acc \<subseteq> set (other_items others d)" if l: "isl r"
    proof
      fix it assume "it \<in> fst ` set acc"
      then obtain res where mem: "(it, res) \<in> set acc" by force
      have "it \<noteq> own_item spec tx"
      proof
        assume "it = own_item spec tx"
        then have "(tx, Inr res) \<in> set sent" using mem iff own_item_simps(2) by blast
        from answered_once [OF once _ _ this] tx have "map_of sent tx = Some (Inr res)" by simp
        with ans(2) l show False by auto
      qed
      then show "it \<in> set (other_items others d)" using mem subseq_set [OF sub] unfolding others by force
    qed
  qed
qed

lemma check_gvr_frame:
  assumes "check_gvr_before_lock hx g d = (r, d')"
  shows "committed (sd_conn d') = committed (sd_conn d)" "pending d' = pending d"
    "leader_active d' = leader_active d"
proof -
  define R where "R d d' \<longleftrightarrow> committed (sd_conn d') = committed (sd_conn d) \<and> pending d' = pending d
    \<and> leader_active d' = leader_active d" for d d' :: slashing_db
  have trans: "R a b \<Longrightarrow> R b c \<Longrightarrow> R a c" for a b c by (simp add: R_def)
  have "keeps reads select_metadata_gvr" by (simp add: select_metadata_gvr_def)
  then have "committed c' = committed c" if "select_metadata_gvr c = (r, c')" for c r c'
    using that by (auto simp: reads_def dest: keepsD)
  then have sel: "keeps R (on_conn select_metadata_gvr)"
    by (auto simp: keeps_def R_def on_conn_def split: prod.splits)
  have rd: "keeps R (read_metadata_gvr hx)"
    unfolding read_metadata_gvr_def
    by (intro keeps_bind [OF trans] sel keeps_option keeps_ret) (auto simp: keeps_def R_def lift_sum_def)
  have "R d (snd (pinned_gvr hx d))" for d
  proof (cases "gvr_cache d")
    case None
    obtain x d1 where x: "read_metadata_gvr hx d = (x, d1)" by fastforce
    with rd have "R d d1" by (rule keepsD)
    with None x show ?thesis
      by (cases x) (auto simp: pinned_gvr_def bindE_def R_def split: option.splits)
  qed (simp add: pinned_gvr_def R_def)
  then have pin: "keeps R (pinned_gvr hx)" by (simp add: keeps_def)
  have refl: "R x x" for x by (simp add: R_def)
  have "keeps R (check_gvr_before_lock hx g)"
    unfolding check_gvr_before_lock_def
    by (intro keeps_bind [OF trans] pin keeps_option keeps_if keeps_ret keeps_throw refl)
  from keepsD [OF this assms] show "committed (sd_conn d') = committed (sd_conn d)" "pending d' = pending d"
    "leader_active d' = leader_active d" by (simp_all add: R_def)
qed

text \<open>A reservation is handed out only when the pinned text, if any, is the one the request carries.\<close>

lemma admits_all_pin: "admits_all t acc \<Longrightarrow> (item, res) \<in> set acc \<Longrightarrow> pin_allows t (qr_spec item)"
proof (induction t acc rule: apply_all.induct)
  case (2 t i r acc)
  have "metadata (apply_spec t (qr_spec i) (cr_inserted r)) = metadata t" by (cases "qr_spec i") simp_all
  with 2 show ?case by (auto simp: pin_allows_def)
qed simp

lemma checked_reserve_pinned:
  assumes "bindE (check_gvr_before_lock hx gvr) (\<lambda>_. enqueue_and_wait hx others spec tx) d = (Inr res, d')"
    and "waits_among tx others d" "tables_ok (committed (sd_conn d))" "spec_safe spec"
  shows "pin_allows (committed (sd_conn d)) spec"
proof -
  obtain d1 where chk: "check_gvr_before_lock hx gvr d = (Inr (), d1)"
    and enq: "enqueue_and_wait hx others spec tx d1 = (Inr res, d')"
    using assms(1) by (auto simp: bindE_Inr_iff)
  note f = check_gvr_frame [OF chk]
  have "waits_among tx others d1" using assms(2) f by (simp add: waits_among_def other_items_def)
  with enqueue_and_wait_run [OF enq] f(1) assms(3,4) obtain acc where
    "admits_all (committed (sd_conn d)) acc" "\<exists>item. (item, res) \<in> set acc \<and> qr_spec item = spec" by metis
  with admits_all_pin show ?thesis by blast
qed

section \<open>The compensating delete\<close>

fun reserved_att_row :: "committed_reservation \<Rightarrow> att_row \<Rightarrow> bool" where
  "reserved_att_row res r \<longleftrightarrow> (\<exists>s tg. cr_kind res = KindAttestation s tg
     \<and> ar_pubkey r = normalize_pubkey (cr_pubkey_hex res) \<and> ar_source r = as_i64 s
     \<and> ar_target r = as_i64 tg \<and> ar_signing_root r = cr_signing_root_hex res)"

fun reserved_block_row :: "committed_reservation \<Rightarrow> block_row \<Rightarrow> bool" where
  "reserved_block_row res r \<longleftrightarrow> (\<exists>sl. cr_kind res = KindBlock sl
     \<and> br_pubkey r = normalize_pubkey (cr_pubkey_hex res) \<and> br_slot r = as_i64 sl
     \<and> br_signing_root r = cr_signing_root_hex res)"

definition without_reserved :: "committed_reservation \<Rightarrow> tables \<Rightarrow> tables" where
  "without_reserved res t =
     t\<lparr>attestations := filter (\<lambda>r. \<not> reserved_att_row res r) (attestations t),
       blocks := filter (\<lambda>r. \<not> reserved_block_row res r) (blocks t)\<rparr>"

lemma delete_reserved_row_txn:
  assumes "delete_reserved_row (normalize_pubkey (cr_pubkey_hex res)) res c = (Inr n, c')"
    and "txn c = Some t"
  shows "txn c' = Some (without_reserved res t) \<and> committed c' = committed c
    \<and> n = length (filter (reserved_att_row res) (attestations t))
          + length (filter (reserved_block_row res) (blocks t))"
  using assms
  by (cases "cr_kind res")
    (auto simp: without_reserved_def Let_def intro!: arg_cong [where f = length] filter_cong
      elim!: sql_execute_InrE)

lemma reconcile_delete_txn_run:
  assumes run: "reconcile_delete_txn res d = (x, d')" and t: "txn (sd_conn d) = Some t"
  shows "case x of Inl e \<Rightarrow> committed (sd_conn d') = committed (sd_conn d)
    | Inr b \<Rightarrow> committed (sd_conn d') = without_reserved res t \<and> txn (sd_conn d') = None
        \<and> (if b then 1 else 0) = length (filter (reserved_att_row res) (attestations t))
          + length (filter (reserved_block_row res) (blocks t))"
proof -
  define n where "n = length (filter (reserved_att_row res) (attestations t))
          + length (filter (reserved_block_row res) (blocks t))"
  obtain y c1 where del:
    "delete_reserved_row (normalize_pubkey (cr_pubkey_hex res)) res (sd_conn d) = (y, c1)" by fastforce
  have c1: "committed c1 = committed (sd_conn d)"
    "\<And>k. y = Inr k \<Longrightarrow> k = n \<and> txn c1 = Some (without_reserved res t)"
  proof -
    show "committed c1 = committed (sd_conn d)"
    proof (cases y)
      case (Inl e)
      then have "reads (sd_conn d) c1"
        using del by (cases "cr_kind res") (auto simp: Let_def dest!: sql_execute_Inl)
      then show ?thesis by (simp add: reads_def)
    next
      case (Inr k)
      then show ?thesis using delete_reserved_row_txn [OF del [unfolded Inr] t] by simp
    qed
    show "k = n \<and> txn c1 = Some (without_reserved res t)" if "y = Inr k" for k
      using delete_reserved_row_txn [OF del [unfolded that] t] by (simp add: n_def)
  qed
  obtain z c2 where com: "sql_commit c1 = (z, c2)" by fastforce
  have c2: "\<And>e. z = Inl e \<Longrightarrow> committed c2 = committed c1"
      "\<And>u. z = Inr u \<Longrightarrow> txn c1 = Some (committed c2) \<and> txn c2 = None"
    using com sql_commit_Inl [of c1 _ c2] sql_commit_Inr [of c1 _ c2] by (auto simp: reads_def)
  show ?thesis
  proof (cases "fail_next_commits d = 0")
    case False
    then show ?thesis using run
      by (auto simp: reconcile_delete_txn_def bindE_def take_injected_commit_failure_def)
  next
    case True
    show ?thesis
      using run True del c1 com c2 unfolding n_def [symmetric]
      by (cases y; cases z)
        (auto simp: reconcile_delete_txn_def bindE_def take_injected_commit_failure_def on_conn_def
          map_err_def split: if_splits)
  qed
qed

lemma reconcile_unsigned_run:
  assumes run: "reconcile_unsigned res d = (out, d')"
  shows "out = Deleted \<Longrightarrow> cr_inserted res
      \<and> committed (sd_conn d') = without_reserved res (committed (sd_conn d))
      \<and> length (filter (reserved_att_row res) (attestations (committed (sd_conn d))))
        + length (filter (reserved_block_row res) (blocks (committed (sd_conn d)))) = 1"
    and "out \<noteq> Deleted \<Longrightarrow> committed (sd_conn d') = committed (sd_conn d)"
proof -
  define t where "t = committed (sd_conn d)"
  have none: "committed (sd_conn d') = t" if "\<not> cr_inserted res"
    using run that by (simp add: reconcile_unsigned_def t_def)
  obtain x d1 where w: "with_immediate_txn (reconcile_delete_txn res) d = (x, d1)" by fastforce
  have key: "case x of Inl e \<Rightarrow> committed (sd_conn d1) = t
    | Inr b \<Rightarrow> committed (sd_conn d1) = without_reserved res t
        \<and> (if b then 1 else 0) = length (filter (reserved_att_row res) (attestations t))
          + length (filter (reserved_block_row res) (blocks t))"
    using w [unfolded with_immediate_txn_def]
  proof (cases rule: bindE_cases)
    case (err e)
    then show ?thesis
      by (auto simp: on_conn_iff map_err_Inl_iff reads_def t_def dest!: sql_begin_Inl)
  next
    case (ok u d0)
    then have d0: "txn (sd_conn d0) = Some t" "committed (sd_conn d0) = t"
      by (auto simp: on_conn_iff t_def dest: sql_begin_InrE)
    obtain y d2 where body: "reconcile_delete_txn res d0 = (y, d2)" by fastforce
    note r = reconcile_delete_txn_run [OF body d0(1)]
    show ?thesis
    proof (cases y)
      case (Inl e)
      obtain q c where "sql_rollback (sd_conn d2) = (q, c)" by fastforce
      with ok(2) body Inl r d0 show ?thesis
        by (auto simp: or_rollback_def on_conn_def reads_def dest!: sql_rollback_reads)
    next
      case (Inr b)
      with ok(2) body r show ?thesis by (auto simp: or_rollback_def)
    qed
  qed
  have unchanged: "without_reserved res t = t"
    if "0 = length (filter (reserved_att_row res) (attestations t))
          + length (filter (reserved_block_row res) (blocks t))"
    using that by (simp add: without_reserved_def filter_empty_conv filter_True
        del: reserved_att_row.simps reserved_block_row.simps)
  show "out = Deleted \<Longrightarrow> cr_inserted res
      \<and> committed (sd_conn d') = without_reserved res (committed (sd_conn d))
      \<and> length (filter (reserved_att_row res) (attestations (committed (sd_conn d))))
        + length (filter (reserved_block_row res) (blocks (committed (sd_conn d)))) = 1"
    using run w key unfolding t_def [symmetric]
    by (auto simp: reconcile_unsigned_def split: if_splits sum.splits bool.splits
        simp del: reserved_att_row.simps reserved_block_row.simps)
  show "out \<noteq> Deleted \<Longrightarrow> committed (sd_conn d') = committed (sd_conn d)"
    using run w key unchanged none unfolding t_def [symmetric]
    by (auto simp: reconcile_unsigned_def split: if_splits sum.splits bool.splits
        simp del: reserved_att_row.simps reserved_block_row.simps)
qed

section \<open>Guarantees of a group commit\<close>

definition empty_tables :: tables where
  "empty_tables = \<lparr>attestations = [], blocks = [], watermarks = [], metadata = []\<rparr>"

definition fresh_db :: "outcome list \<Rightarrow> slashing_db" where
  "fresh_db faults = from_connection \<lparr>committed = empty_tables, txn = None, tape = faults\<rparr>"

definition att_item :: "nat \<Rightarrow> string \<Rightarrow> epoch \<Rightarrow> epoch \<Rightarrow> string \<Rightarrow> queued_reserve" where
  "att_item tx pk s t r =
     \<lparr>qr_spec = SpecAttestation pk s t (Some r) zero_root ''0x00'', qr_tx = tx,
      qr_cancelled_at_load = False, qr_cancelled_at_claim = False\<rparr>"

text \<open>
  C4: commit before sign. Whatever the database engine does at each statement (any tape), a member
  of a batch that is told its reservation succeeded has its row in the durable tables, the
  transaction is closed, and the reservation it got describes its own request.
\<close>

theorem reserve_is_durable:
  assumes "commit_batch hx batch d = (sent, d')"
    and "tables_ok (committed (sd_conn d))" "\<forall>item\<in>set batch. spec_safe (qr_spec item)"
    and "(tx, Inr res) \<in> set sent"
  shows "\<exists>item\<in>set batch. qr_tx item = tx \<and> res = reservation_of (qr_spec item) (cr_inserted res)
           \<and> backs (committed (sd_conn d')) (qr_spec item) \<and> txn (sd_conn d') = None"
  using assms(1-3)
proof (rule commit_batch_run)
  fix acc
  assume sent: "\<And>tx res. (tx, Inr res) \<in> set sent \<longleftrightarrow> (\<exists>item. (item, res) \<in> set acc \<and> qr_tx item = tx)"
    and sub: "subseq (map fst acc) batch" and adm: "admits_all (committed (sd_conn d)) acc"
    and com: "committed (sd_conn d') = apply_all (committed (sd_conn d)) acc"
    and fin: "acc \<noteq> [] \<Longrightarrow> txn (sd_conn d') = None"
  from assms(4) sent obtain item where item: "(item, res) \<in> set acc" "qr_tx item = tx" by blast
  then have "item \<in> set batch" "acc \<noteq> []" using subseq_set [OF sub] by force+
  then show ?thesis
    using admits_all_backs [OF adm item(1)] item(2) com fin by auto
qed

theorem reserve_is_durable_witness:
  "let d = fresh_db []; batch = [att_item 1 ''0xaa'' 2 3 ''0x01'', att_item 2 ''0xaa'' 1 4 ''0x02''];
       (sent, d') = commit_batch hex_ref batch d
   in tables_ok (committed (sd_conn d)) \<and> map fst sent = [1, 2] \<and>
      (\<exists>item\<in>set batch. qr_tx item = 1 \<and> backs (committed (sd_conn d')) (qr_spec item)
         \<and> txn (sd_conn d') = None)"
proof -
  define batch where "batch = [att_item 1 ''0xaa'' 2 3 ''0x01'', att_item 2 ''0xaa'' 1 4 ''0x02'']"
  define res where "res = reservation_of (qr_spec (att_item 1 ''0xaa'' 2 3 ''0x01'')) True"
  define sent where "sent = fst (commit_batch hex_ref batch (fresh_db []))"
  define d' where "d' = snd (commit_batch hex_ref batch (fresh_db []))"
  have 1: "tables_ok (committed (sd_conn (fresh_db [])))" by code_simp
  have 2: "\<forall>item\<in>set batch. spec_safe (qr_spec item)" unfolding batch_def by code_simp
  have 3: "map fst sent = [1, 2]" unfolding sent_def batch_def by code_simp
  have 4: "(1, Inr res) \<in> set sent" unfolding sent_def batch_def res_def by code_simp
  have run: "commit_batch hex_ref batch (fresh_db []) = (sent, d')" by (simp add: sent_def d'_def)
  from reserve_is_durable [OF run 1 2 4]
  have "\<exists>item\<in>set batch. qr_tx item = 1 \<and> backs (committed (sd_conn d')) (qr_spec item)
         \<and> txn (sd_conn d') = None" by blast
  with 1 3 run show ?thesis unfolding batch_def [symmetric] by (simp add: Let_def)
qed

text \<open>
  C5: a batch in which nobody is told it succeeded (every member rejected, dropped, or the commit
  failed) leaves the durable tables exactly as they were.
\<close>

theorem failed_batch_writes_nothing:
  assumes "commit_batch hx batch d = (sent, d')"
    and "tables_ok (committed (sd_conn d))" "\<forall>item\<in>set batch. spec_safe (qr_spec item)"
    and "\<forall>tx res. (tx, Inr res) \<notin> set sent"
  shows "committed (sd_conn d') = committed (sd_conn d)"
  using assms(1-3)
proof (rule commit_batch_run)
  fix acc
  assume sent: "\<And>tx res. (tx, Inr res) \<in> set sent \<longleftrightarrow> (\<exists>item. (item, res) \<in> set acc \<and> qr_tx item = tx)"
    and com: "committed (sd_conn d') = apply_all (committed (sd_conn d)) acc"
  have "x \<notin> set acc" for x using sent assms(4) by (metis prod.collapse)
  then have "acc = []" by (cases acc) auto
  with com show ?thesis by simp
qed

theorem failed_batch_writes_nothing_witness:
  "let faults = replicate 9 (None, 0) @ [(Some ''disk I/O error'', 0)];
       batch = [att_item 1 ''0xaa'' 2 3 ''0x01'']
   in committed (sd_conn (snd (commit_batch hex_ref batch (fresh_db faults)))) = empty_tables
      \<and> fst (commit_batch hex_ref batch (fresh_db faults))
          = [(1, Inl (ReserveCommitFailed ''disk I/O error''))]"
proof -
  define faults :: "outcome list" where "faults = replicate 9 (None, 0) @ [(Some ''disk I/O error'', 0)]"
  define batch where "batch = [att_item 1 ''0xaa'' 2 3 ''0x01'']"
  define sent where "sent = fst (commit_batch hex_ref batch (fresh_db faults))"
  define d' where "d' = snd (commit_batch hex_ref batch (fresh_db faults))"
  have 1: "tables_ok (committed (sd_conn (fresh_db faults)))" unfolding faults_def by code_simp
  have 2: "\<forall>item\<in>set batch. spec_safe (qr_spec item)" unfolding batch_def by code_simp
  have 3: "sent = [(1, Inl (ReserveCommitFailed ''disk I/O error''))]"
    unfolding sent_def batch_def faults_def by code_simp
  have run: "commit_batch hex_ref batch (fresh_db faults) = (sent, d')" by (simp add: sent_def d'_def)
  from failed_batch_writes_nothing [OF run 1 2] 3
  have "committed (sd_conn d') = committed (sd_conn (fresh_db faults))" by simp
  with 3 show ?thesis
    unfolding faults_def [symmetric] batch_def [symmetric] sent_def [symmetric] d'_def [symmetric] Let_def
    by (simp add: fresh_db_def from_connection_def)
qed

text \<open>
  C6: the compensating delete. It removes a row only when the reservation inserted one, exactly one
  row, the one whose key, epochs and signing root are the reservation's; in every other outcome
  (not applicable, or failed) the durable tables are unchanged. Watermarks and metadata never change.
\<close>

theorem reconcile_deletes_only_its_row:
  assumes "reconcile_unsigned res d = (out, d')"
  shows "watermarks (committed (sd_conn d')) = watermarks (committed (sd_conn d))
     \<and> metadata (committed (sd_conn d')) = metadata (committed (sd_conn d))
     \<and> (if out = Deleted
        then cr_inserted res \<and> committed (sd_conn d') = without_reserved res (committed (sd_conn d))
          \<and> length (attestations (committed (sd_conn d'))) + length (blocks (committed (sd_conn d'))) + 1
            = length (attestations (committed (sd_conn d))) + length (blocks (committed (sd_conn d)))
        else committed (sd_conn d') = committed (sd_conn d))"
proof (cases "out = Deleted")
  case True
  let ?t = "committed (sd_conn d)"
  note r = reconcile_unsigned_run(1) [OF assms True]
  have "length (filter P xs) + length (filter (\<lambda>x. \<not> P x) xs) = length xs" for P :: "'z \<Rightarrow> bool" and xs
    by (rule sum_length_filter_compl)
  from this [of "reserved_att_row res" "attestations ?t"] r True
    sum_length_filter_compl [of "reserved_block_row res" "blocks ?t"]
  show ?thesis
    by (simp add: without_reserved_def del: reserved_att_row.simps reserved_block_row.simps)
next
  case False
  with reconcile_unsigned_run(2) [OF assms] show ?thesis by simp
qed

theorem reconcile_deletes_only_its_row_witness:
  "let d = snd (commit_batch hex_ref [att_item 1 ''0xaa'' 2 3 ''0x01''] (fresh_db []));
       res = reservation_of (qr_spec (att_item 1 ''0xaa'' 2 3 ''0x01'')) True
   in fst (reconcile_unsigned res d) = Deleted
      \<and> length (attestations (committed (sd_conn (snd (reconcile_unsigned res d))))) + 1
        = length (attestations (committed (sd_conn d)))"
proof -
  define d where "d = snd (commit_batch hex_ref [att_item 1 ''0xaa'' 2 3 ''0x01''] (fresh_db []))"
  define res where "res = reservation_of (qr_spec (att_item 1 ''0xaa'' 2 3 ''0x01'')) True"
  have del: "fst (reconcile_unsigned res d) = Deleted" unfolding d_def res_def by code_simp
  have b: "blocks (committed (sd_conn d)) = []" unfolding d_def by code_simp
  from reconcile_deletes_only_its_row [OF prod.collapse [symmetric], of res d] del b show ?thesis
    unfolding d_def [symmetric] res_def [symmetric] Let_def
    by (auto simp: without_reserved_def simp del: reserved_att_row.simps reserved_block_row.simps)
qed

end
