(* ===== verification/Slashing_Watermarks.thy ===== *)
theory Slashing_Watermarks
  imports Slashing_Reserve
begin

text \<open>
  The watermark and prune API of \<open>db/watermarks.rs\<close>. A small logic for code that runs inside one
  transaction (\<open>txn_spec\<close>) relates each operation to its effect on the tables; \<open>in_transaction\<close>
  is \<open>conn.transaction_with_behavior(Immediate)\<close> followed by \<open>commit\<close>, with the rollback that
  dropping an unfinished transaction performs.
\<close>

section \<open>Transactions\<close>

definition drop_transaction :: "conn \<Rightarrow> conn" where
  "drop_transaction c = (if txn c = None then c else snd (sql_rollback c))"

definition in_transaction :: "(conn, slashing_error, 'a) action \<Rightarrow> (conn, slashing_error, 'a) action" where
  "in_transaction body =
     bindE (sql sql_begin_immediate)
     (\<lambda>_ c. case bindE body (\<lambda>x. bindE (sql sql_commit) (\<lambda>_. retE x)) c of
        (Inr x, c') \<Rightarrow> (Inr x, c')
      | (Inl e, c') \<Rightarrow> (Inl e, drop_transaction c'))"

fun forE :: "'b list \<Rightarrow> ('b \<Rightarrow> ('s, 'e, unit) action) \<Rightarrow> ('s, 'e, unit) action" where
  "forE [] f = retE ()"
| "forE (x # xs) f = bindE (f x) (\<lambda>_. forE xs f)"

section \<open>Set and get\<close>

definition set_block_watermark :: "string \<Rightarrow> slot \<Rightarrow> (slashing_db, slashing_error, unit) action" where
  "set_block_watermark pubkey slot =
     on_conn (in_transaction (raise_watermark (normalize_pubkey pubkey) Block slot))"

definition get_block_watermark :: "string \<Rightarrow> (slashing_db, slashing_error, slot option) action" where
  "get_block_watermark pubkey = on_conn (read_watermark (normalize_pubkey pubkey) Block)"

definition set_attestation_watermark ::
  "string \<Rightarrow> epoch \<Rightarrow> epoch \<Rightarrow> (slashing_db, slashing_error, unit) action" where
  "set_attestation_watermark pubkey source_epoch target_epoch =
     on_conn (in_transaction
       (bindE (raise_watermark (normalize_pubkey pubkey) AttestationSource source_epoch)
       (\<lambda>_. raise_watermark (normalize_pubkey pubkey) AttestationTarget target_epoch)))"

definition get_attestation_watermark ::
  "string \<Rightarrow> (slashing_db, slashing_error, (epoch \<times> epoch) option) action" where
  "get_attestation_watermark pubkey =
     on_conn (bindE (read_watermark (normalize_pubkey pubkey) AttestationSource)
     (\<lambda>source. bindE (read_watermark (normalize_pubkey pubkey) AttestationTarget)
     (\<lambda>target. retE (case (source, target) of (Some s, Some t) \<Rightarrow> Some (s, t) | _ \<Rightarrow> None))))"

section \<open>Prune\<close>

record prune_stats =
  attestations_deleted :: u64
  blocks_deleted :: u64

definition block_below_watermark :: "tables \<Rightarrow> block_row \<Rightarrow> bool" where
  "block_below_watermark t r \<longleftrightarrow>
     (\<exists>w\<in>set (watermarks t). wr_pubkey w = br_pubkey r \<and> wr_type w = as_sql_str Block
        \<and> br_slot r < wr_value w)"

definition att_below_watermark :: "tables \<Rightarrow> att_row \<Rightarrow> bool" where
  "att_below_watermark t r \<longleftrightarrow>
     (\<exists>w\<in>set (watermarks t). wr_pubkey w = ar_pubkey r \<and> wr_type w = as_sql_str AttestationTarget
        \<and> ar_target r < wr_value w)"

definition raise_source_bound :: "string \<times> int \<Rightarrow> (conn, slashing_error, unit) action" where
  "raise_source_bound pt =
     (case pt of (pubkey, target_wm) \<Rightarrow>
        bindE (sql (sql_query (\<lambda>n t.
          max_opt (map ar_source (filter (\<lambda>r. ar_target r < target_wm) (att_rows_of pubkey t))))))
        (\<lambda>max_source. case max_source of
           None \<Rightarrow> retE ()
         | Some m \<Rightarrow>
             bindE (read_watermark pubkey AttestationSource)
             (\<lambda>_. raise_watermark_max pubkey AttestationSource (as_u64 m))))"

definition delete_blocks_below :: "tables \<Rightarrow> string + nat \<times> tables" where
  "delete_blocks_below t =
     Inr (length (filter (block_below_watermark t) (blocks t)),
          t\<lparr>blocks := filter (\<lambda>r. \<not> block_below_watermark t r) (blocks t)\<rparr>)"

definition delete_attestations_below :: "tables \<Rightarrow> string + nat \<times> tables" where
  "delete_attestations_below t =
     Inr (length (filter (att_below_watermark t) (attestations t)),
          t\<lparr>attestations := filter (\<lambda>r. \<not> att_below_watermark t r) (attestations t)\<rparr>)"

definition target_floors :: "tables \<Rightarrow> (string \<times> int) list" where
  "target_floors t =
     map (\<lambda>w. (wr_pubkey w, wr_value w))
       (filter (\<lambda>w. wr_type w = as_sql_str AttestationTarget) (watermarks t))"

definition prune_body :: "(conn, slashing_error, prune_stats) action" where
  "prune_body =
     bindE (sql (sql_query (\<lambda>n t. length (watermarks t))))
     (\<lambda>watermark_count. if watermark_count = 0 then throwE NoWatermarksSet
      else bindE (sql (sql_query (\<lambda>n t. target_floors t)))
     (\<lambda>floors. bindE (forE floors raise_source_bound)
     (\<lambda>_. bindE (sql (sql_execute delete_blocks_below))
     (\<lambda>b. bindE (sql (sql_execute delete_attestations_below))
     (\<lambda>a. retE \<lparr>attestations_deleted = of_nat a, blocks_deleted = of_nat b\<rparr>)))))"

definition prune_below_watermarks :: "(slashing_db, slashing_error, prune_stats) action" where
  "prune_below_watermarks = on_conn (in_transaction prune_body)"

definition count_below_watermarks :: "(slashing_db, slashing_error, prune_stats) action" where
  "count_below_watermarks = on_conn
     (bindE (sql (sql_query (\<lambda>n t. length (watermarks t))))
     (\<lambda>watermark_count. if watermark_count = 0 then throwE NoWatermarksSet
      else bindE (sql (sql_query (\<lambda>n t. length (filter (block_below_watermark t) (blocks t)))))
     (\<lambda>b. bindE (sql (sql_query (\<lambda>n t. length (filter (att_below_watermark t) (attestations t)))))
     (\<lambda>a. retE \<lparr>attestations_deleted = of_nat a, blocks_deleted = of_nat b\<rparr>))))"

section \<open>A logic for code inside a transaction\<close>

definition txn_spec :: "(tables \<Rightarrow> 'a \<Rightarrow> tables \<Rightarrow> bool) \<Rightarrow> (conn, 'e, 'a) action \<Rightarrow> bool" where
  "txn_spec Q m \<longleftrightarrow>
     (\<forall>c t r c'. txn c = Some t \<longrightarrow> m c = (r, c') \<longrightarrow> committed c' = committed c
        \<and> (\<forall>x. r = Inr x \<longrightarrow> (\<exists>t'. txn c' = Some t' \<and> Q t x t')))"

lemma txn_specD:
  assumes "txn_spec Q m" "txn c = Some t" "m c = (r, c')"
  shows "committed c' = committed c" "r = Inr x \<Longrightarrow> \<exists>t'. txn c' = Some t' \<and> Q t x t'"
  using assms unfolding txn_spec_def by blast+

lemma txn_spec_mono: "txn_spec P m \<Longrightarrow> (\<And>t x t'. P t x t' \<Longrightarrow> Q t x t') \<Longrightarrow> txn_spec Q m"
  unfolding txn_spec_def by blast

lemma txn_spec_ret: "txn_spec (\<lambda>t y t'. y = x \<and> t' = t) (retE x)"
  by (auto simp: txn_spec_def)

lemma txn_spec_throw: "txn_spec Q (throwE e)"
  by (auto simp: txn_spec_def)

lemma txn_spec_bind:
  assumes m: "txn_spec Q m" and f: "\<And>x. txn_spec (R x) (f x)"
  shows "txn_spec (\<lambda>t y t''. \<exists>x t'. Q t x t' \<and> R x t' y t'') (bindE m f)"
  unfolding txn_spec_def
proof (intro allI impI)
  fix c t r c'
  assume t: "txn c = Some t" and run: "bindE m f c = (r, c')"
  from run show "committed c' = committed c
      \<and> (\<forall>y. r = Inr y \<longrightarrow> (\<exists>t''. txn c' = Some t'' \<and> (\<exists>x t'. Q t x t' \<and> R x t' y t'')))"
  proof (cases rule: bindE_cases)
    case (err e)
    then show ?thesis using txn_specD [OF m t] by simp
  next
    case (ok x c1)
    obtain t' where t': "txn c1 = Some t'" "Q t x t'" "committed c1 = committed c"
      using txn_specD [OF m t ok(1)] by auto
    then show ?thesis using txn_specD [OF f t'(1) ok(2)] by fastforce
  qed
qed

lemma txn_spec_query: "txn_spec (\<lambda>t x t'. t' = t \<and> (\<exists>n. x = q n t)) (map_err f (sql_query q))"
  unfolding txn_spec_def
proof (intro allI impI)
  fix c t r c'
  assume t: "txn c = Some t" and run: "map_err f (sql_query q) c = (r, c')"
  have "keeps reads (map_err f (sql_query q))" by simp
  then have "reads c c'" using run by (rule keepsD)
  with t run show "committed c' = committed c
      \<and> (\<forall>x. r = Inr x \<longrightarrow> (\<exists>t'. txn c' = Some t' \<and> t' = t \<and> (\<exists>n. x = q n t)))"
    by (auto simp: reads_def same_tables_def elim!: sql_query_InrE) (rule exI, rule refl)
qed

lemma txn_spec_execute: "txn_spec (\<lambda>t k t'. f t = Inr (k, t')) (map_err g (sql_execute f))"
  unfolding txn_spec_def
proof (intro allI impI)
  fix c t r c'
  assume t: "txn c = Some t" and run: "map_err g (sql_execute f) c = (r, c')"
  show "committed c' = committed c \<and> (\<forall>k. r = Inr k \<longrightarrow> (\<exists>t'. txn c' = Some t' \<and> f t = Inr (k, t')))"
  proof (cases r)
    case (Inl e)
    with run have "reads c c'" by (auto simp: map_err_Inl_iff dest: sql_execute_Inl)
    with Inl show ?thesis by (simp add: reads_def)
  next
    case (Inr k)
    with run t show ?thesis by (auto elim!: sql_execute_InrE)
  qed
qed

lemma in_transaction_run:
  assumes body: "txn_spec Q body" and run: "in_transaction body c = (x, c')"
  shows "case x of Inl e \<Rightarrow> committed c' = committed c
    | Inr v \<Rightarrow> Q (committed c) v (committed c') \<and> txn c' = None"
  using run unfolding in_transaction_def
proof (cases rule: bindE_cases)
  case (err e)
  then show ?thesis by (auto simp: map_err_Inl_iff reads_def dest!: sql_begin_Inl)
next
  case (ok u c1)
  then have c1: "txn c1 = Some (committed c)" "committed c1 = committed c"
    by (auto dest: sql_begin_InrE)
  obtain y c2 where y: "body c1 = (y, c2)" by fastforce
  note b = txn_specD [OF body c1(1) y]
  obtain z c3 where z: "sql_commit c2 = (z, c3)" by fastforce
  have c3: "\<And>e. z = Inl e \<Longrightarrow> committed c3 = committed c2"
      "\<And>u. z = Inr u \<Longrightarrow> txn c2 = Some (committed c3) \<and> txn c3 = None"
    using z sql_commit_Inl [of c2 _ c3] sql_commit_Inr [of c2 _ c3] by (auto simp: reads_def)
  have drop: "committed (drop_transaction k) = committed k" for k
    using sql_rollback_reads [of k "fst (sql_rollback k)" "snd (sql_rollback k)"]
    by (simp add: drop_transaction_def reads_def)
  show ?thesis
    using ok(2) y z c1(2) c3 b drop
    by (cases y; cases z) (auto simp: bindE_def map_err_def)
qed

section \<open>Raising one watermark\<close>

definition max_wm :: "u64 option \<Rightarrow> u64 \<Rightarrow> u64" where
  "max_wm w v = (case w of None \<Rightarrow> v | Some c \<Rightarrow> max c v)"

definition same_history :: "tables \<Rightarrow> tables \<Rightarrow> bool" where
  "same_history t t' \<longleftrightarrow>
     attestations t' = attestations t \<and> blocks t' = blocks t \<and> metadata t' = metadata t"

definition raises :: "string \<Rightarrow> watermark_kind \<Rightarrow> u64 \<Rightarrow> tables \<Rightarrow> tables \<Rightarrow> bool" where
  "raises pk k v t t' \<longleftrightarrow> tables_ok t' \<and> same_history t t'
     \<and> (\<forall>pk' k'. watermark_of pk' k' t' =
          (if pk' = pk \<and> k' = k then Some (max_wm (watermark_of pk k t) v) else watermark_of pk' k' t))"

lemma as_sql_str_inj [simp]: "as_sql_str a = as_sql_str b \<longleftrightarrow> a = b"
  by (cases a; cases b) (simp_all add: as_sql_str_def)

lemma find_append: "find P (xs @ ys) = (case find P xs of None \<Rightarrow> find P ys | Some x \<Rightarrow> Some x)"
  by (induction xs) auto

lemma find_map_key: "(\<And>x. P (f x) = P x) \<Longrightarrow> find P (map f xs) = map_option f (find P xs)"
  by (induction xs) auto

lemma watermark_rows_None: "watermark_rows pk k t = [] \<longleftrightarrow> watermark_of pk k t = None"
  by (simp add: watermark_rows_def watermark_of_def find_None_iff' filter_empty_conv)

lemma find_wm_safe:
  "safe_tables t \<Longrightarrow> find P (watermarks t) = Some w \<Longrightarrow> safe_int (wr_value w)"
  by (drule find_Some_in) (simp add: safe_tables_def)

lemma insert_watermark_raises:
  assumes ok: "tables_ok t" and v: "i64_safe v" and none: "watermark_of pk k t = None"
  shows "raises pk k v t (t\<lparr>watermarks := watermarks t
     @ [\<lparr>wr_pubkey = pk, wr_type = as_sql_str k, wr_value = as_i64 v\<rparr>]\<rparr>)"
proof -
  have "(pk, as_sql_str k) \<notin> (\<lambda>w. (wr_pubkey w, wr_type w)) ` set (watermarks t)"
    using none by (auto simp: watermark_of_def find_None_iff')
  with ok v none show ?thesis
    by (auto simp: raises_def same_history_def tables_ok_def wf_tables_def safe_tables_def safe_as_i64
        watermark_of_def find_append max_wm_def split: option.splits)
qed

lemma set_watermark_raises:
  assumes ok: "tables_ok t" and some: "watermark_of pk k t = Some c"
    and f: "\<And>w. safe_int w \<Longrightarrow> as_u64 w = c \<Longrightarrow> safe_int (f w) \<and> as_u64 (f w) = max c v"
  shows "raises pk k v t (t\<lparr>watermarks := map (\<lambda>w. if wr_pubkey w = pk \<and> wr_type w = as_sql_str k
            then w\<lparr>wr_value := f (wr_value w)\<rparr> else w) (watermarks t)\<rparr>)"
proof -
  define g :: "wm_row \<Rightarrow> wm_row" where "g = (\<lambda>w. if wr_pubkey w = pk \<and> wr_type w = as_sql_str k
            then w\<lparr>wr_value := f (wr_value w)\<rparr> else w)"
  have key: "wr_pubkey (g w) = wr_pubkey w" "wr_type (g w) = wr_type w" for w
    by (simp_all add: g_def)
  obtain w0 where w0: "find (\<lambda>w. wr_pubkey w = pk \<and> wr_type w = as_sql_str k) (watermarks t) = Some w0"
      "as_u64 (wr_value w0) = c"
    using some by (auto simp: watermark_of_def)
  have uniq: "w = w0" if "w \<in> set (watermarks t)" "wr_pubkey w = pk" "wr_type w = as_sql_str k" for w
    using that ok find_Some_in [OF w0(1)]
    by (auto simp: tables_ok_def wf_tables_def distinct_map inj_on_def)
  have w0s: "safe_int (wr_value w0)" using ok w0(1) find_wm_safe by (auto simp: tables_ok_def)
  have "find (\<lambda>w. wr_pubkey w = pk' \<and> wr_type w = as_sql_str k') (map g (watermarks t))
      = map_option g (find (\<lambda>w. wr_pubkey w = pk' \<and> wr_type w = as_sql_str k') (watermarks t))" for pk' k'
    by (rule find_map_key) (simp add: key)
  then have wm_of: "watermark_of pk' k' (t\<lparr>watermarks := map g (watermarks t)\<rparr>) =
      (if pk' = pk \<and> k' = k then Some (max c v) else watermark_of pk' k' t)" for pk' k'
    using w0 f [OF w0s] find_Some_in [OF w0(1)]
    by (auto simp: watermark_of_def g_def option.map_comp dest!: find_Some_in intro!: option.map_cong)
  have "wf_tables (t\<lparr>watermarks := map g (watermarks t)\<rparr>)"
    using ok by (simp add: tables_ok_def wf_tables_def key comp_def)
  moreover have "safe_tables (t\<lparr>watermarks := map g (watermarks t)\<rparr>)"
    using ok f [OF w0s w0(2)] uniq by (auto simp: tables_ok_def safe_tables_def g_def)
  ultimately have "tables_ok (t\<lparr>watermarks := map g (watermarks t)\<rparr>)"
    by (simp add: tables_ok_def)
  with wm_of some show ?thesis
    by (simp add: raises_def same_history_def max_wm_def g_def [symmetric])
qed

lemma upsert_raises:
  assumes "tables_ok t" "i64_safe v"
  shows "raises pk k v t (upsert_watermark_max pk k (as_i64 v) t)"
proof (cases "watermark_of pk k t")
  case None
  with assms show ?thesis
    by (simp add: upsert_watermark_max_def watermark_rows_None insert_watermark_raises)
next
  case (Some c)
  have "raises pk k v t (t\<lparr>watermarks := map (\<lambda>w. if wr_pubkey w = pk \<and> wr_type w = as_sql_str k
            then w\<lparr>wr_value := max (wr_value w) (as_i64 v)\<rparr> else w) (watermarks t)\<rparr>)"
    using assms Some
    by (intro set_watermark_raises)
      (auto simp: max_def safe_as_i64 as_i64_less_iff less_as_i64_iff not_le not_less
        dest: as_i64_less_iff less_as_i64_iff)
  with Some show ?thesis by (simp add: upsert_watermark_max_def watermark_rows_None)
qed

lemma txn_spec_read_watermark:
  "txn_spec (\<lambda>t w t'. t' = t \<and> (wf_tables t \<longrightarrow> w = watermark_of pk k t)) (read_watermark pk k)"
  unfolding txn_spec_def
proof (intro allI impI)
  fix c t r c'
  assume t: "txn c = Some t" and run: "read_watermark pk k c = (r, c')"
  have "reads c c'" using read_watermark_reads run by (rule keepsD)
  moreover have "same_tables c c'" if "r = Inr w" for w
    using keeps_unlessD(1) [OF sql_query_unless] run that by (simp add: read_watermark_def)
  ultimately show "committed c' = committed c
      \<and> (\<forall>w. r = Inr w \<longrightarrow> (\<exists>t'. txn c' = Some t' \<and> t' = t \<and> (wf_tables t \<longrightarrow> w = watermark_of pk k t)))"
    using t run read_watermark_Inr(1) [of pk k c _ c'] by (auto simp: reads_def same_tables_def)
qed

lemma txn_spec_raise_watermark_max:
  assumes "i64_safe v"
  shows "txn_spec (\<lambda>t _ t'. tables_ok t \<longrightarrow> raises pk k v t t') (raise_watermark_max pk k v)"
  unfolding raise_watermark_max_def
  by (rule txn_spec_mono [OF txn_spec_bind [OF txn_spec_execute txn_spec_ret]])
    (auto intro: upsert_raises [OF _ assms])

text \<open>\<open>raise_watermark\<close> succeeds only when it does not lower the watermark.\<close>

lemma txn_spec_raise_watermark:
  assumes v: "i64_safe v"
  shows "txn_spec (\<lambda>t _ t'. tables_ok t \<longrightarrow> raises pk k v t t'
           \<and> watermark_of pk k t' = Some v) (raise_watermark pk k v)"
proof -
  have upd: "raises pk k v t (t\<lparr>watermarks := map (\<lambda>w. if wr_pubkey w = pk \<and> wr_type w = as_sql_str k
            then w\<lparr>wr_value := as_i64 v\<rparr> else w) (watermarks t)\<rparr>)"
    if "tables_ok t" "watermark_of pk k t = Some cur" "cur \<le> v" for t cur
    using that v by (intro set_watermark_raises) (auto simp: safe_as_i64 max_def)
  have val: "raises pk k v t t' \<Longrightarrow> cur \<le> v \<Longrightarrow> watermark_of pk k t = Some cur
      \<Longrightarrow> watermark_of pk k t' = Some v" for t t' cur
    by (simp add: raises_def max_wm_def max_def)
  have val': "raises pk k v t t' \<Longrightarrow> watermark_of pk k t = None \<Longrightarrow> watermark_of pk k t' = Some v" for t t'
    by (simp add: raises_def max_wm_def)
  define R where "R = (\<lambda>w t (_ :: unit) t'. tables_ok t \<longrightarrow> watermark_of pk k t = w \<longrightarrow>
    raises pk k v t t' \<and> watermark_of pk k t' = Some v)"
  have "txn_spec (R w) (case w of
        Some cur \<Rightarrow>
          if v < cur then throwE (WatermarkLowered pk (as_sql_str k) cur v)
          else bindE (sql (update_watermark_row pk k (as_i64 v))) (\<lambda>_. retE ())
      | None \<Rightarrow> bindE (sql (insert_watermark_row pk k (as_i64 v))) (\<lambda>_. retE ()))" for w
  proof (cases w)
    case None
    show ?thesis unfolding None option.case insert_watermark_row_def R_def
      by (rule txn_spec_mono [OF txn_spec_bind [OF txn_spec_execute txn_spec_ret]])
        (auto simp: watermark_rows_None split: if_splits
          intro: insert_watermark_raises [OF _ v] val' [OF insert_watermark_raises [OF _ v]])
  next
    case (Some cur)
    show ?thesis
    proof (cases "v < cur")
      case True
      then show ?thesis by (simp add: Some txn_spec_throw)
    next
      case False
      then show ?thesis
        unfolding Some option.case update_watermark_row_def R_def
        by (simp, intro txn_spec_mono [OF txn_spec_bind [OF txn_spec_execute txn_spec_ret]])
          (auto simp: not_less intro: upd val [OF upd])
    qed
  qed
  then have "txn_spec (\<lambda>t y t''. \<exists>x t'. (t' = t \<and> (wf_tables t \<longrightarrow> x = watermark_of pk k t)) \<and> R x t' y t'')
      (raise_watermark pk k v)"
    unfolding raise_watermark_def by (intro txn_spec_bind txn_spec_read_watermark)
  then show ?thesis
    by (rule txn_spec_mono) (auto simp: R_def tables_ok_def)
qed

section \<open>Floors only rise\<close>

definition wm_le :: "u64 option \<Rightarrow> u64 option \<Rightarrow> bool" where
  "wm_le a b \<longleftrightarrow> (\<forall>x. a = Some x \<longrightarrow> (\<exists>y. b = Some y \<and> x \<le> y))"

definition floors_raised :: "tables \<Rightarrow> tables \<Rightarrow> bool" where
  "floors_raised t t' \<longleftrightarrow> (\<forall>pk k. wm_le (watermark_of pk k t) (watermark_of pk k t'))"

lemma wm_le_refl [simp]: "wm_le a a" by (simp add: wm_le_def)

lemma wm_le_trans: "wm_le a b \<Longrightarrow> wm_le b c \<Longrightarrow> wm_le a c"
  by (fastforce simp: wm_le_def)

lemma floors_raised_refl [simp]: "floors_raised t t" by (simp add: floors_raised_def)

lemma floors_raised_trans [trans]:
  "floors_raised a b \<Longrightarrow> floors_raised b c \<Longrightarrow> floors_raised a c"
  by (meson floors_raised_def wm_le_trans)

lemma wm_le_max_wm: "wm_le w (Some (max_wm w v))"
  by (auto simp: wm_le_def max_wm_def)

lemma raises_floors: "raises pk k v t t' \<Longrightarrow> floors_raised t t'"
  by (auto simp: raises_def floors_raised_def wm_le_max_wm)

lemma watermark_of_cong: "watermarks t' = watermarks t \<Longrightarrow> watermark_of pk k t' = watermark_of pk k t"
  by (simp add: watermark_of_def)

section \<open>What prune removes, and what it leaves in its place\<close>

lemma watermark_row_iff:
  assumes "tables_ok t"
  shows "(\<exists>w\<in>set (watermarks t). wr_pubkey w = pk \<and> wr_type w = as_sql_str k \<and> P (wr_value w))
     \<longleftrightarrow> (\<exists>v. safe_int v \<and> watermark_of pk k t = Some (as_u64 v) \<and> P v)"
proof -
  let ?f = "find (\<lambda>w. wr_pubkey w = pk \<and> wr_type w = as_sql_str k) (watermarks t)"
  have uniq: "?f = Some w" if "w \<in> set (watermarks t)" "wr_pubkey w = pk" "wr_type w = as_sql_str k" for w
  proof (cases ?f)
    case None
    with that show ?thesis by (auto simp: find_None_iff')
  next
    case (Some x)
    with that find_Some_in [OF Some] assms show ?thesis
      by (auto simp: tables_ok_def wf_tables_def distinct_map inj_on_def)
  qed
  have safe: "w \<in> set (watermarks t) \<Longrightarrow> safe_int (wr_value w)" for w
    using assms by (simp add: tables_ok_def safe_tables_def)
  have "as_u64 a = as_u64 b \<longleftrightarrow> a = b" if "safe_int a" "safe_int b" for a b
    by (metis as_i64_as_u64 that)
  with uniq safe show ?thesis
    by (fastforce simp: watermark_of_def dest: find_Some_in)
qed

lemma att_below_iff:
  assumes "tables_ok t" "r \<in> set (attestations t)"
  shows "att_below_watermark t r \<longleftrightarrow>
     (\<exists>w. watermark_of (ar_pubkey r) AttestationTarget t = Some w \<and> as_u64 (ar_target r) < w)"
proof -
  have "safe_int (ar_target r)" using assms by (simp add: tables_ok_def safe_tables_def)
  moreover have "i64_safe w \<Longrightarrow> \<exists>v. safe_int v \<and> w = as_u64 v" for w
    by (metis as_u64_as_i64 safe_as_i64)
  moreover have "watermark_of pk k t = Some w \<Longrightarrow> i64_safe w" for pk k w
    using assms(1) find_wm_safe safe_as_u64 by (auto simp: watermark_of_def tables_ok_def)
  ultimately show ?thesis
    using watermark_row_iff [OF assms(1), of "ar_pubkey r" AttestationTarget "\<lambda>v. ar_target r < v"]
    unfolding att_below_watermark_def by (auto simp: as_u64_less_iff) (metis as_u64_less_iff)
qed

lemma block_below_iff:
  assumes "tables_ok t" "r \<in> set (blocks t)"
  shows "block_below_watermark t r \<longleftrightarrow>
     (\<exists>w. watermark_of (br_pubkey r) Block t = Some w \<and> as_u64 (br_slot r) < w)"
proof -
  have "safe_int (br_slot r)" using assms by (simp add: tables_ok_def safe_tables_def)
  moreover have "i64_safe w \<Longrightarrow> \<exists>v. safe_int v \<and> w = as_u64 v" for w
    by (metis as_u64_as_i64 safe_as_i64)
  moreover have "watermark_of pk k t = Some w \<Longrightarrow> i64_safe w" for pk k w
    using assms(1) find_wm_safe safe_as_u64 by (auto simp: watermark_of_def tables_ok_def)
  ultimately show ?thesis
    using watermark_row_iff [OF assms(1), of "br_pubkey r" Block "\<lambda>v. br_slot r < v"]
    unfolding block_below_watermark_def by (auto simp: as_u64_less_iff) (metis as_u64_less_iff)
qed

text \<open>
  The bound raised before the delete: every row with a target below the floor of its validator is
  at or below the source watermark.
\<close>

definition sources_bounded :: "string \<times> int \<Rightarrow> tables \<Rightarrow> bool" where
  "sources_bounded pt t \<longleftrightarrow>
     (\<forall>r\<in>set (attestations t). ar_pubkey r = fst pt \<longrightarrow> ar_target r < snd pt \<longrightarrow>
        wm_le (Some (as_u64 (ar_source r))) (watermark_of (fst pt) AttestationSource t))"

definition source_raised :: "tables \<Rightarrow> tables \<Rightarrow> bool" where
  "source_raised t t' \<longleftrightarrow> tables_ok t' \<and> same_history t t' \<and> floors_raised t t'
     \<and> (\<forall>pk k. k \<noteq> AttestationSource \<longrightarrow> watermark_of pk k t' = watermark_of pk k t)"

lemma source_raised_refl: "tables_ok t \<Longrightarrow> source_raised t t"
  by (simp add: source_raised_def same_history_def)

lemma source_raised_trans: "source_raised a b \<Longrightarrow> source_raised b c \<Longrightarrow> source_raised a c"
  by (auto simp: source_raised_def same_history_def intro: floors_raised_trans)

lemma sources_bounded_mono: "source_raised t t' \<Longrightarrow> sources_bounded pt t \<Longrightarrow> sources_bounded pt t'"
  unfolding sources_bounded_def source_raised_def same_history_def floors_raised_def
  by (metis wm_le_trans)

lemma raises_source_raised: "raises pk AttestationSource v t t' \<Longrightarrow> source_raised t t'"
  using raises_floors [of pk AttestationSource v t t'] by (auto simp: source_raised_def raises_def)

lemma txn_spec_raise_source_bound:
  "txn_spec (\<lambda>t _ t'. tables_ok t \<longrightarrow> source_raised t t' \<and> sources_bounded pt t') (raise_source_bound pt)"
proof -
  obtain pk twm where pt: "pt = (pk, twm)" by fastforce
  define q where "q = (\<lambda>t. max_opt (map ar_source (filter (\<lambda>r. ar_target r < twm) (att_rows_of pk t))))"
  have none: "sources_bounded pt t" if "q t = None" for t
    using that by (auto simp: q_def sources_bounded_def pt att_rows_of_def filter_empty_conv)
  have some: "safe_int m \<and> (\<forall>r\<in>set (attestations t). ar_pubkey r = pk \<longrightarrow> ar_target r < twm \<longrightarrow> ar_source r \<le> m)"
    if "tables_ok t" "q t = Some m" for t m
    using that by (auto simp: q_def max_opt_Some att_rows_of_def tables_ok_def safe_tables_def)
  have step: "source_raised t t' \<and> sources_bounded pt t'"
    if ok: "tables_ok t" and m: "q t = Some m" and r: "raises pk AttestationSource (as_u64 m) t t'" for t t' m
  proof -
    have "as_u64 (ar_source r) \<le> as_u64 m" if "r \<in> set (attestations t)" "ar_pubkey r = pk" "ar_target r < twm" for r
      using some [OF ok m] that ok by (auto simp: as_u64_le_iff tables_ok_def safe_tables_def)
    then have "as_u64 (ar_source r) \<le> max_wm w (as_u64 m)"
      if "r \<in> set (attestations t)" "ar_pubkey r = pk" "ar_target r < twm" for r w
      using that by (auto simp: max_wm_def le_max_iff_disj split: option.splits)
    then have "sources_bounded pt t'"
      using r by (auto simp: sources_bounded_def pt raises_def same_history_def wm_le_def)
    with r show ?thesis using raises_source_raised by blast
  qed
  have raise: "txn_spec (\<lambda>t _ t'. tables_ok t \<longrightarrow> safe_int m \<longrightarrow> raises pk AttestationSource (as_u64 m) t t')
      (raise_watermark_max pk AttestationSource (as_u64 m))" for m
  proof (cases "safe_int m")
    case True
    then show ?thesis
      by (intro txn_spec_mono [OF txn_spec_raise_watermark_max]) (auto simp: safe_as_u64)
  next
    case False
    then show ?thesis
      unfolding raise_watermark_max_def
      by (intro txn_spec_mono [OF txn_spec_bind [OF txn_spec_execute txn_spec_ret]]) auto
  qed
  define R where "R = (\<lambda>ms t (_ :: unit) t'. tables_ok t \<longrightarrow> q t = ms \<longrightarrow>
      source_raised t t' \<and> sources_bounded pt t')"
  have "txn_spec (R ms) (case ms of None \<Rightarrow> retE ()
      | Some m \<Rightarrow> bindE (read_watermark pk AttestationSource)
          (\<lambda>_. raise_watermark_max pk AttestationSource (as_u64 m)))" for ms
  proof (cases ms)
    case None
    show ?thesis unfolding None option.case R_def
      by (rule txn_spec_mono [OF txn_spec_ret]) (auto intro: none source_raised_refl)
  next
    case (Some m)
    show ?thesis unfolding Some option.case R_def
      by (rule txn_spec_mono [OF txn_spec_bind [OF txn_spec_read_watermark raise]])
        (use some step in blast)
  qed
  then have "txn_spec (\<lambda>t y t''. \<exists>x t'. (t' = t \<and> (\<exists>n :: nat. x = q t)) \<and> R x t' y t'') (raise_source_bound pt)"
    unfolding raise_source_bound_def pt prod.case q_def [symmetric]
    by (intro txn_spec_bind txn_spec_mono [OF txn_spec_query]) auto
  then show ?thesis by (rule txn_spec_mono) (auto simp: R_def)
qed

lemma txn_spec_raise_source_bounds:
  "txn_spec (\<lambda>t _ t'. tables_ok t \<longrightarrow> source_raised t t' \<and> (\<forall>pt\<in>set floors. sources_bounded pt t'))
     (forE floors raise_source_bound)"
proof (induction floors)
  case Nil
  show ?case unfolding forE.simps
    by (rule txn_spec_mono [OF txn_spec_ret]) (auto intro: source_raised_refl)
next
  case (Cons pt floors)
  have "source_raised t t'' \<and> (\<forall>p\<in>set (pt # floors). sources_bounded p t'')"
    if "tables_ok t" "tables_ok t \<longrightarrow> source_raised t t' \<and> sources_bounded pt t'"
      "tables_ok t' \<longrightarrow> source_raised t' t'' \<and> (\<forall>p\<in>set floors. sources_bounded p t'')" for t t' t''
  proof -
    have 1: "source_raised t t'" "sources_bounded pt t'" using that by blast+
    then have "tables_ok t'" by (simp add: source_raised_def)
    then have 2: "source_raised t' t''" "\<forall>p\<in>set floors. sources_bounded p t''" using that by blast+
    show ?thesis
      using source_raised_trans [OF 1(1) 2(1)] sources_bounded_mono [OF 2(1) 1(2)] 2(2) by simp
  qed
  then show ?case unfolding forE.simps
    by (intro txn_spec_mono [OF txn_spec_bind [OF txn_spec_raise_source_bound Cons.IH]]) blast
qed

definition pruned :: "tables \<Rightarrow> tables \<Rightarrow> bool" where
  "pruned t t' \<longleftrightarrow> tables_ok t' \<and> floors_raised t t' \<and> metadata t' = metadata t
     \<and> attestations t' = filter (\<lambda>r. \<not> att_below_watermark t r) (attestations t)
     \<and> blocks t' = filter (\<lambda>r. \<not> block_below_watermark t r) (blocks t)
     \<and> (\<forall>pk k. k \<noteq> AttestationSource \<longrightarrow> watermark_of pk k t' = watermark_of pk k t)
     \<and> (\<forall>r\<in>set (attestations t). att_below_watermark t r \<longrightarrow>
          wm_le (Some (as_u64 (ar_source r))) (watermark_of (ar_pubkey r) AttestationSource t'))"

definition stats_of :: "tables \<Rightarrow> prune_stats" where
  "stats_of t =
     \<lparr>attestations_deleted = of_nat (length (filter (att_below_watermark t) (attestations t))),
      blocks_deleted = of_nat (length (filter (block_below_watermark t) (blocks t)))\<rparr>"

lemma distinct_map_filter': "distinct (map f xs) \<Longrightarrow> distinct (map f (filter P xs))"
  by (simp add: distinct_map_filter)

lemma tables_ok_filter:
  "tables_ok t \<Longrightarrow> tables_ok (t\<lparr>attestations := filter P (attestations t), blocks := filter Q (blocks t)\<rparr>)"
  by (auto simp: tables_ok_def wf_tables_def safe_tables_def distinct_map_filter')

lemma prune_effect:
  assumes ok: "tables_ok t" and sr: "source_raised t t1"
    and sb: "\<forall>pt\<in>set (target_floors t). sources_bounded pt t1"
    and b: "delete_blocks_below t1 = Inr (nb, t2)" and a: "delete_attestations_below t2 = Inr (na, t3)"
  shows "pruned t t3" "na = length (filter (att_below_watermark t) (attestations t))"
    "nb = length (filter (block_below_watermark t) (blocks t))"
proof -
  have hist: "attestations t1 = attestations t" "blocks t1 = blocks t" "metadata t1 = metadata t"
    and ok1: "tables_ok t1"
    and wm1: "\<And>pk k. k \<noteq> AttestationSource \<Longrightarrow> watermark_of pk k t1 = watermark_of pk k t"
    using sr by (simp_all add: source_raised_def same_history_def)
  have ab: "att_below_watermark t1 r = att_below_watermark t r" if "r \<in> set (attestations t)" for r
    using att_below_iff [OF ok that] att_below_iff [OF ok1, of r] hist wm1 that by simp
  have bb: "block_below_watermark t1 r = block_below_watermark t r" if "r \<in> set (blocks t)" for r
    using block_below_iff [OF ok that] block_below_iff [OF ok1, of r] hist wm1 that by simp
  have t2: "t2 = t1\<lparr>blocks := filter (\<lambda>r. \<not> block_below_watermark t r) (blocks t)\<rparr>"
    and nb: "nb = length (filter (block_below_watermark t) (blocks t))"
    using b bb hist by (auto simp: delete_blocks_below_def cong: filter_cong)
  have "att_below_watermark t2 r = att_below_watermark t1 r" for r
    by (simp add: att_below_watermark_def t2)
  then have t3: "t3 = t1\<lparr>attestations := filter (\<lambda>r. \<not> att_below_watermark t r) (attestations t),
      blocks := filter (\<lambda>r. \<not> block_below_watermark t r) (blocks t)\<rparr>"
    and na: "na = length (filter (att_below_watermark t) (attestations t))"
    using a ab hist by (auto simp: delete_attestations_below_def t2 cong: filter_cong)
  have wm3: "watermark_of pk k t3 = watermark_of pk k t1" for pk k
    by (rule watermark_of_cong) (simp add: t3)
  have bounded: "wm_le (Some (as_u64 (ar_source r))) (watermark_of (ar_pubkey r) AttestationSource t3)"
    if r: "r \<in> set (attestations t)" and below: "att_below_watermark t r" for r
  proof -
    obtain w where "w \<in> set (watermarks t)" "wr_pubkey w = ar_pubkey r"
        "wr_type w = as_sql_str AttestationTarget" "ar_target r < wr_value w"
      using below by (auto simp: att_below_watermark_def)
    moreover from this have "(ar_pubkey r, wr_value w) \<in> set (target_floors t)"
      by (force simp: target_floors_def)
    ultimately show ?thesis
      using sb r hist by (fastforce simp: sources_bounded_def wm3)
  qed
  have "tables_ok t3" using tables_ok_filter [OF ok1] hist by (simp add: t3)
  with bounded show "pruned t t3"
    using sr hist by (simp add: pruned_def wm1 wm3 floors_raised_def source_raised_def) (simp add: t3)
  show "na = length (filter (att_below_watermark t) (attestations t))"
    "nb = length (filter (block_below_watermark t) (blocks t))" by (rule na, rule nb)
qed

lemma txn_spec_prune_body:
  "txn_spec (\<lambda>t stats t'. tables_ok t \<longrightarrow> pruned t t' \<and> stats = stats_of t \<and> watermarks t \<noteq> []) prune_body"
proof -
  define B where "B = (\<lambda>floors t (stats :: prune_stats) t'. tables_ok t \<longrightarrow> floors = target_floors t \<longrightarrow>
     pruned t t' \<and> stats = stats_of t)"
  have B: "txn_spec (B floors) (bindE (forE floors raise_source_bound)
     (\<lambda>_. bindE (sql (sql_execute delete_blocks_below))
     (\<lambda>b. bindE (sql (sql_execute delete_attestations_below))
     (\<lambda>a. retE \<lparr>attestations_deleted = of_nat a, blocks_deleted = of_nat b\<rparr>))))" for floors
    by (rule txn_spec_mono [OF txn_spec_bind [OF txn_spec_raise_source_bounds txn_spec_bind
          [OF txn_spec_execute txn_spec_bind [OF txn_spec_execute txn_spec_ret]]]])
      (use prune_effect in \<open>auto simp: B_def stats_of_def\<close>)
  define A where "A = (\<lambda>count t (stats :: prune_stats) t'. tables_ok t \<longrightarrow>
     pruned t t' \<and> stats = stats_of t \<and> count \<noteq> (0::nat))"
  have A: "txn_spec (A count) (if count = 0 then throwE NoWatermarksSet
      else bindE (sql (sql_query (\<lambda>n t. target_floors t)))
     (\<lambda>floors. bindE (forE floors raise_source_bound)
     (\<lambda>_. bindE (sql (sql_execute delete_blocks_below))
     (\<lambda>b. bindE (sql (sql_execute delete_attestations_below))
     (\<lambda>a. retE \<lparr>attestations_deleted = of_nat a, blocks_deleted = of_nat b\<rparr>)))))" for count
  proof (cases "count = 0")
    case False
    then show ?thesis
      by (simp, intro txn_spec_mono [OF txn_spec_bind [OF txn_spec_query B]]) (auto simp: A_def B_def)
  qed (simp add: txn_spec_throw)
  show ?thesis
    unfolding prune_body_def
    by (rule txn_spec_mono [OF txn_spec_bind [OF txn_spec_query A]]) (auto simp: A_def)
qed

section \<open>Guarantees\<close>

lemma above_att_floors_wm:
  "above_att_floors (att_floors pk t) (att_cand s tg r) \<longleftrightarrow>
     (\<forall>w. watermark_of pk AttestationSource t = Some w \<longrightarrow> w \<le> s)
     \<and> (\<forall>w. watermark_of pk AttestationTarget t = Some w \<longrightarrow> w < tg)"
  by (auto simp: above_att_floors_def att_floors_def split: option.splits)

lemma above_block_floor_wm:
  "above_block_floor (block_floor pk t) (block_cand sl r) \<longleftrightarrow>
     (\<forall>w. watermark_of pk Block t = Some w \<longrightarrow> w < sl)"
  by (auto simp: above_block_floor_def block_floor_def split: option.splits)

lemma pruned_att_row:
  assumes p: "pruned t t'" and ok: "tables_ok t" and e: "e \<in> att_history_of pk t"
  obtains "e \<in> att_history_of pk t'"
  | ws wt where "watermark_of pk AttestationSource t' = Some ws" "ea_source_epoch e \<le> ws"
      "watermark_of pk AttestationTarget t' = Some wt" "ea_target_epoch e < wt"
proof -
  obtain r where r: "r \<in> set (attestations t)" "ar_pubkey r = pk" "e = existing_of_row r"
    using e by (auto simp: att_history_of_def att_rows_of_def)
  show thesis
  proof (cases "att_below_watermark t r")
    case True
    then obtain wt where "watermark_of pk AttestationTarget t = Some wt" "as_u64 (ar_target r) < wt"
      using att_below_iff [OF ok r(1)] r(2) by auto
    moreover obtain ws where "watermark_of pk AttestationSource t' = Some ws" "as_u64 (ar_source r) \<le> ws"
      using p r True by (auto simp: pruned_def wm_le_def)
    ultimately show thesis using p r that(2) by (auto simp: pruned_def)
  next
    case False
    with p r that(1) show thesis by (auto simp: pruned_def att_history_of_def att_rows_of_def)
  qed
qed

lemma pruned_block_row:
  assumes p: "pruned t t'" and ok: "tables_ok t" and e: "(sl, root) \<in> block_history_of pk t"
  obtains "(sl, root) \<in> block_history_of pk t'" | w where "watermark_of pk Block t' = Some w" "sl < w"
proof -
  obtain r where r: "r \<in> set (blocks t)" "br_pubkey r = pk" "sl = as_u64 (br_slot r)" "root = br_signing_root r"
    using e by (auto simp: block_history_of_def block_rows_of_def)
  show thesis
  proof (cases "block_below_watermark t r")
    case True
    then show thesis using block_below_iff [OF ok r(1)] r p that(2) by (auto simp: pruned_def)
  next
    case False
    with p r that(1) show thesis by (auto simp: pruned_def block_history_of_def block_rows_of_def)
  qed
qed

lemma pruned_subset:
  "pruned t t' \<Longrightarrow> e \<in> att_history_of pk t' \<Longrightarrow> e \<in> att_history_of pk t"
  "pruned t t' \<Longrightarrow> b \<in> block_history_of pk t' \<Longrightarrow> b \<in> block_history_of pk t"
  by (auto simp: pruned_def att_history_of_def att_rows_of_def block_history_of_def block_rows_of_def)

lemma not_surrounds_if_above:
  "a \<le> s \<Longrightarrow> b < tg \<Longrightarrow> \<not> surrounds (s, tg) (a, b) \<and> \<not> surrounds (a, b) (s, tg)"
  by (auto simp: surrounds_def)

lemma pruned_admits:
  assumes p: "pruned t t'" and ok: "tables_ok t" and adm: "admits t' spec ins"
  shows "admits t spec ins"
proof (cases spec)
  case (SpecBlock pk sl r g gh)
  have fl: "above_block_floor (block_floor pk t') (block_cand sl r)" using adm SpecBlock by simp
  then have "above_block_floor (block_floor pk t) (block_cand sl r)"
    using p by (simp add: above_block_floor_wm pruned_def)
  moreover have "(sl, r') \<notin> block_history_of pk t" if ins for r'
    using adm SpecBlock that fl
    by (force simp: above_block_floor_wm elim!: pruned_block_row [OF p ok])
  ultimately show ?thesis using adm SpecBlock by (auto intro: pruned_subset [OF p])
next
  case (SpecAttestation pk s tg r g gh)
  have fl: "above_att_floors (att_floors pk t') (att_cand s tg r)" using adm SpecAttestation by simp
  have "wm_le (watermark_of pk k t) (watermark_of pk k t')" for k
    using p by (simp add: pruned_def floors_raised_def)
  with fl have fl0: "above_att_floors (att_floors pk t) (att_cand s tg r)"
    unfolding above_att_floors_wm wm_le_def by (meson order_trans le_less_trans)
  have covered: "\<not> surrounds (s, tg) (ea_span e) \<and> \<not> surrounds (ea_span e) (s, tg)
      \<and> (ins \<longrightarrow> ea_target_epoch e \<noteq> tg)" if "e \<in> att_history_of pk t" for e
    using p ok that
  proof (cases rule: pruned_att_row)
    case 1
    then show ?thesis using adm SpecAttestation by auto
  next
    case (2 ws wt)
    then have "ea_source_epoch e \<le> s" "ea_target_epoch e < tg"
      using fl unfolding above_att_floors_wm by force+
    then show ?thesis using not_surrounds_if_above by auto
  qed
  have "\<exists>e\<in>att_history_of pk t. ea_target_epoch e = tg \<and> ea_signing_root e = r" if "\<not> ins"
    using adm SpecAttestation that by (auto intro: pruned_subset [OF p])
  with fl0 covered show ?thesis by (simp add: SpecAttestation)
qed

lemma prune_run:
  assumes "prune_below_watermarks d = (x, d')" "tables_ok (committed (sd_conn d))"
  shows "case x of Inl e \<Rightarrow> committed (sd_conn d') = committed (sd_conn d)
    | Inr stats \<Rightarrow> pruned (committed (sd_conn d)) (committed (sd_conn d')) \<and> stats = stats_of (committed (sd_conn d))"
  using assms in_transaction_run [OF txn_spec_prune_body, of "sd_conn d" x]
  by (auto simp: prune_below_watermarks_def on_conn_iff split: sum.splits)

text \<open>
  C7: pruning never weakens protection. Whatever \<open>prune_below_watermarks\<close> returns and whatever the
  engine does, a block or attestation that the pruned tables admit was admitted by the tables
  before: the rows it deletes stay refused through the floors, the source floor included.
\<close>

theorem prune_never_weakens:
  assumes "prune_below_watermarks d = (x, d')" "tables_ok (committed (sd_conn d))"
    and "admits (committed (sd_conn d')) spec ins"
  shows "admits (committed (sd_conn d)) spec ins"
  using prune_run [OF assms(1,2)] assms(2,3) pruned_admits by (auto split: sum.splits)

definition pruned_fixture :: slashing_db where
  "pruned_fixture = from_connection
     \<lparr>committed = \<lparr>attestations = [att_row_of ''0xaa'' 7 8 (Some ''0x01'') ''0x00''], blocks = [],
        watermarks = [\<lparr>wr_pubkey = ''0xaa'', wr_type = ''att_target'', wr_value = 9\<rparr>], metadata = []\<rparr>,
      txn = None, tape = []\<rparr>"

theorem prune_never_weakens_witness:
  "let d = pruned_fixture; d' = snd (prune_below_watermarks d);
       spec = SpecAttestation ''0xaa'' 7 10 (Some ''0x02'') zero_root ''0x00''
   in attestations (committed (sd_conn d')) = [] \<and> admits (committed (sd_conn d)) spec True"
proof -
  define d where "d = pruned_fixture"
  define spec where "spec = SpecAttestation ''0xaa'' 7 10 (Some ''0x02'') zero_root ''0x00''"
  have 1: "tables_ok (committed (sd_conn d))" unfolding d_def by code_simp
  have 2: "admits (committed (sd_conn (snd (prune_below_watermarks d)))) spec True"
    unfolding d_def spec_def by code_simp
  have 3: "attestations (committed (sd_conn (snd (prune_below_watermarks d)))) = []"
    unfolding d_def by code_simp
  from prune_never_weakens [OF prod.collapse [symmetric] 1 2] 3 show ?thesis
    unfolding d_def spec_def by (simp add: Let_def)
qed

lemma count_run:
  assumes "count_below_watermarks d = (Inr stats, d')"
  shows "stats = stats_of (current (sd_conn d))"
proof -
  have q: "sql_query q c = (Inr x, c') \<Longrightarrow> \<exists>n. x = q n (current c) \<and> current c' = current c" for q :: "nat \<Rightarrow> tables \<Rightarrow> nat" and c c' x
    by (auto elim!: sql_query_InrE dest: same_tables_current)
  show ?thesis
    using assms unfolding count_below_watermarks_def
    by (auto simp: on_conn_iff result_iff stats_of_def split: if_splits dest!: q)
qed

lemma count_fixture:
  "fst (count_below_watermarks pruned_fixture) = Inr \<lparr>attestations_deleted = 1, blocks_deleted = 0\<rparr>"
  "snd (count_below_watermarks pruned_fixture) = pruned_fixture"
  by code_simp+

lemma prune_fixture: "isl (fst (prune_below_watermarks pruned_fixture)) = False"
  by code_simp

text \<open>
  C8: the dry run is exact. When \<open>prune_below_watermarks\<close> succeeds on a database, the numbers it
  reports are those \<open>count_below_watermarks\<close> announces on the same tables.
\<close>

theorem dry_run_matches_prune:
  assumes "count_below_watermarks d = (Inr announced, d1)" "prune_below_watermarks d2 = (Inr stats, d3)"
    and "current (sd_conn d) = committed (sd_conn d2)" "tables_ok (committed (sd_conn d2))"
  shows "stats = announced"
  using prune_run [OF assms(2,4)] count_run [OF assms(1)] assms(3) by simp

theorem dry_run_matches_prune_witness:
  "let d = pruned_fixture; (r, d1) = count_below_watermarks d; (r', d3) = prune_below_watermarks d1
   in r = r' \<and> r = Inr \<lparr>attestations_deleted = 1, blocks_deleted = 0\<rparr>"
proof -
  define d where "d = pruned_fixture"
  define stats where "stats = \<lparr>attestations_deleted = (1 :: u64), blocks_deleted = (0 :: u64)\<rparr>"
  obtain d1 where 1: "count_below_watermarks d = (Inr stats, d1)"
    using prod.collapse [of "count_below_watermarks d"]
    by (metis (full_types) d_def stats_def count_fixture)
  have d1: "d1 = d" using 1 count_fixture(2) by (simp add: d_def)
  obtain s2 d3 where 2: "prune_below_watermarks d1 = (Inr s2, d3)"
    using prune_fixture by (cases "prune_below_watermarks d1"; cases "fst (prune_below_watermarks d1)") (auto simp: d1 d_def)
  have 3: "tables_ok (committed (sd_conn d1))" unfolding d1 d_def by code_simp
  have 4: "current (sd_conn d) = committed (sd_conn d1)" unfolding d1 d_def by code_simp
  from dry_run_matches_prune [OF 1 2 4 3] 1 2 show ?thesis
    by (simp add: d_def [symmetric] stats_def)
qed

lemma set_attestation_watermark_run:
  assumes run: "set_attestation_watermark pubkey s t d = (x, d')"
    and ok: "tables_ok (committed (sd_conn d))" and safe: "i64_safe s" "i64_safe t"
  shows "case x of Inl e \<Rightarrow> committed (sd_conn d') = committed (sd_conn d)
    | Inr u \<Rightarrow> (let pk = normalize_pubkey pubkey; old = committed (sd_conn d); new = committed (sd_conn d') in
        tables_ok new \<and> same_history old new \<and> floors_raised old new
        \<and> watermark_of pk AttestationSource new = Some s \<and> watermark_of pk AttestationTarget new = Some t)"
proof -
  let ?pk = "normalize_pubkey pubkey"
  have two: "tables_ok t0 \<Longrightarrow> raises ?pk AttestationSource s t0 t1 \<and> watermark_of ?pk AttestationSource t1 = Some s
      \<Longrightarrow> (tables_ok t1 \<longrightarrow> raises ?pk AttestationTarget t t1 t2 \<and> watermark_of ?pk AttestationTarget t2 = Some t)
      \<Longrightarrow> tables_ok t2 \<and> same_history t0 t2 \<and> floors_raised t0 t2
        \<and> watermark_of ?pk AttestationSource t2 = Some s \<and> watermark_of ?pk AttestationTarget t2 = Some t" for t0 t1 t2
    using raises_floors [of ?pk AttestationSource s t0 t1] raises_floors [of ?pk AttestationTarget t t1 t2]
    by (auto simp: raises_def same_history_def intro: floors_raised_trans)
  have "txn_spec (\<lambda>t0 (_ :: unit) t2. tables_ok t0 \<longrightarrow> tables_ok t2 \<and> same_history t0 t2 \<and> floors_raised t0 t2
        \<and> watermark_of ?pk AttestationSource t2 = Some s \<and> watermark_of ?pk AttestationTarget t2 = Some t)
      (bindE (raise_watermark ?pk AttestationSource s) (\<lambda>_. raise_watermark ?pk AttestationTarget t))"
    by (rule txn_spec_mono [OF txn_spec_bind [OF txn_spec_raise_watermark [OF safe(1)]
            txn_spec_raise_watermark [OF safe(2)]]]) (use two in blast)
  from in_transaction_run [OF this, of "sd_conn d" x] run ok show ?thesis
    by (auto simp: set_attestation_watermark_def on_conn_iff Let_def split: sum.splits)
qed

lemma set_block_watermark_run:
  assumes run: "set_block_watermark pubkey sl d = (x, d')"
    and ok: "tables_ok (committed (sd_conn d))" and safe: "i64_safe sl"
  shows "case x of Inl e \<Rightarrow> committed (sd_conn d') = committed (sd_conn d)
    | Inr u \<Rightarrow> (let pk = normalize_pubkey pubkey; old = committed (sd_conn d); new = committed (sd_conn d') in
        tables_ok new \<and> same_history old new \<and> floors_raised old new \<and> watermark_of pk Block new = Some sl)"
  using in_transaction_run [OF txn_spec_raise_watermark [OF safe], of "normalize_pubkey pubkey" Block "sd_conn d" x]
    run ok raises_floors [of "normalize_pubkey pubkey" Block sl "committed (sd_conn d)" "committed (sd_conn d')"]
  by (auto simp: set_block_watermark_def on_conn_iff Let_def raises_def split: sum.splits)

text \<open>
  C9: setting the attestation watermarks either installs exactly the pair asked for, without
  lowering any floor or touching the history, or leaves the durable tables as they were.
\<close>

theorem set_attestation_watermark_exact:
  assumes "set_attestation_watermark pubkey s t d = (x, d')"
    and "tables_ok (committed (sd_conn d))" "i64_safe s" "i64_safe t"
  shows "(\<exists>e. x = Inl e \<and> committed (sd_conn d') = committed (sd_conn d))
     \<or> x = Inr () \<and> floors_raised (committed (sd_conn d)) (committed (sd_conn d'))
        \<and> same_history (committed (sd_conn d)) (committed (sd_conn d'))
        \<and> watermark_of (normalize_pubkey pubkey) AttestationSource (committed (sd_conn d')) = Some s
        \<and> watermark_of (normalize_pubkey pubkey) AttestationTarget (committed (sd_conn d')) = Some t"
  using set_attestation_watermark_run [OF assms] by (cases x) (auto simp: Let_def)

theorem set_attestation_watermark_exact_witness:
  "let d = fresh_db []; (x, d') = set_attestation_watermark ''AA'' 3 4 d
   in x = Inr () \<and> watermark_of ''0xaa'' AttestationTarget (committed (sd_conn d')) = Some 4"
proof -
  have ok: "tables_ok (committed (sd_conn (fresh_db [])))" by code_simp
  have safe: "i64_safe 3" "i64_safe 4" by (simp_all add: i64_safe_def)
  have x: "isl (fst (set_attestation_watermark ''AA'' 3 4 (fresh_db []))) = False" by code_simp
  have pk: "normalize_pubkey ''AA'' = ''0xaa''" by code_simp
  from set_attestation_watermark_exact [OF prod.collapse [symmetric] ok safe, of "''AA''"] x pk show ?thesis
    by (auto simp: Let_def split: prod.splits)
qed

end
