(* ===== verification/Slashing_Records.thy ===== *)
theory Slashing_Records
  imports Slashing_Watermarks
begin

text \<open>
  The record types of \<open>types.rs\<close> and the readers of \<open>db/records.rs\<close>: the internal history
  records, the EIP-3076 wire records, and the queries that the export and the operator commands
  run under one held connection. A small logic for code that only reads (\<open>read_spec\<close>) says
  what such code returns in terms of the tables it saw.

  A result set without a complete \<open>ORDER BY\<close> is modelled in insertion order; \<open>sort_key\<close> is
  stable, so rows that tie keep that order.
\<close>

section \<open>Records\<close>

record signed_attestation =
  sat_pubkey :: string
  sat_source_epoch :: epoch
  sat_target_epoch :: epoch
  sat_signing_root :: "string option"

record signed_block =
  sbl_pubkey :: string
  sbl_slot :: slot
  sbl_signing_root :: "string option"

record interchange_attestation =
  ia_source_epoch :: string
  ia_target_epoch :: string
  ia_signing_root :: "string option"

record interchange_block =
  ib_slot :: string
  ib_signing_root :: "string option"

record validator_record =
  vr_pubkey :: string
  vr_signed_blocks :: "interchange_block list"
  vr_signed_attestations :: "interchange_attestation list"

record interchange_metadata =
  interchange_format_version :: string
  im_genesis_validators_root :: string

record interchange_format =
  if_metadata :: interchange_metadata
  if_data :: "validator_record list"

definition is_ascii_hexdigit :: "char \<Rightarrow> bool" where
  "is_ascii_hexdigit c \<longleftrightarrow> is_digit c \<or> c \<in> set ''abcdefABCDEF''"

definition parse_record_pubkey :: "string \<Rightarrow> slashing_error + string" where
  "parse_record_pubkey raw =
     (let canonical = canonical_pubkey raw;
          body = (case strip_0x canonical of Some b \<Rightarrow> b | None \<Rightarrow> canonical)
      in if body = [] then Inl (InvalidPubkey ''empty'')
         else if length body mod 2 \<noteq> 0 \<or> \<not> list_all is_ascii_hexdigit body
         then Inl (InvalidPubkey ''not hex'')
         else Inr canonical)"

definition new_signed_attestation ::
  "string \<Rightarrow> epoch \<Rightarrow> epoch \<Rightarrow> string option \<Rightarrow> slashing_error + signed_attestation" where
  "new_signed_attestation pubkey source target signing_root =
     (case parse_record_pubkey pubkey of
        Inl e \<Rightarrow> Inl e
      | Inr pk \<Rightarrow> Inr \<lparr>sat_pubkey = pk, sat_source_epoch = source, sat_target_epoch = target,
                     sat_signing_root = signing_root\<rparr>)"

definition new_signed_block :: "string \<Rightarrow> slot \<Rightarrow> string option \<Rightarrow> slashing_error + signed_block" where
  "new_signed_block pubkey slot signing_root =
     (case parse_record_pubkey pubkey of
        Inl e \<Rightarrow> Inl e
      | Inr pk \<Rightarrow> Inr \<lparr>sbl_pubkey = pk, sbl_slot = slot, sbl_signing_root = signing_root\<rparr>)"

definition signed_attestation_from_stored :: "att_row \<Rightarrow> signed_attestation" where
  "signed_attestation_from_stored r =
     \<lparr>sat_pubkey = canonical_pubkey (ar_pubkey r), sat_source_epoch = as_u64 (ar_source r),
      sat_target_epoch = as_u64 (ar_target r), sat_signing_root = ar_signing_root r\<rparr>"

definition signed_block_from_stored :: "block_row \<Rightarrow> signed_block" where
  "signed_block_from_stored r =
     \<lparr>sbl_pubkey = canonical_pubkey (br_pubkey r), sbl_slot = as_u64 (br_slot r),
      sbl_signing_root = br_signing_root r\<rparr>"

section \<open>Readers\<close>

definition attestation_records :: "string \<Rightarrow> tables \<Rightarrow> signed_attestation list" where
  "attestation_records pk t =
     map signed_attestation_from_stored (sort_key ar_target (att_rows_of pk t))"

definition block_records :: "string \<Rightarrow> tables \<Rightarrow> signed_block list" where
  "block_records pk t = map signed_block_from_stored (sort_key br_slot (block_rows_of pk t))"

definition pubkeys_in :: "tables \<Rightarrow> string list" where
  "pubkeys_in t = remdups (map ar_pubkey (attestations t) @ map br_pubkey (blocks t)
     @ map wr_pubkey (watermarks t))"

definition read_attestations :: "string \<Rightarrow> (conn, slashing_error, signed_attestation list) action" where
  "read_attestations pubkey = sql (sql_query (\<lambda>n t. attestation_records pubkey t))"

definition read_blocks :: "string \<Rightarrow> (conn, slashing_error, signed_block list) action" where
  "read_blocks pubkey = sql (sql_query (\<lambda>n t. block_records pubkey t))"

definition read_all_pubkeys :: "(conn, slashing_error, string list) action" where
  "read_all_pubkeys = sql (sql_query (\<lambda>n t. pubkeys_in t))"

definition get_attestations ::
  "string \<Rightarrow> (slashing_db, slashing_error, signed_attestation list) action" where
  "get_attestations pubkey = on_conn (read_attestations (normalize_pubkey pubkey))"

definition get_blocks :: "string \<Rightarrow> (slashing_db, slashing_error, signed_block list) action" where
  "get_blocks pubkey = on_conn (read_blocks (normalize_pubkey pubkey))"

definition last_signed_attestation_epoch ::
  "string \<Rightarrow> (slashing_db, slashing_error, epoch option) action" where
  "last_signed_attestation_epoch pubkey = on_conn (sql (sql_query (\<lambda>n t.
     map_option as_u64 (max_opt (map ar_target (att_rows_of (normalize_pubkey pubkey) t))))))"

definition last_signed_block_slot :: "string \<Rightarrow> (slashing_db, slashing_error, slot option) action" where
  "last_signed_block_slot pubkey = on_conn (sql (sql_query (\<lambda>n t.
     map_option as_u64 (max_opt (map br_slot (block_rows_of (normalize_pubkey pubkey) t))))))"

text \<open>
  The idempotent insert shared by the seed helpers and the import: nothing happens when the
  public key already has a row at that target or slot. With such a row absent the unique
  index cannot be violated either.
\<close>

definition insert_attestation_if_absent :: "att_row \<Rightarrow> tables \<Rightarrow> nat \<times> tables" where
  "insert_attestation_if_absent r t =
     (if \<exists>x\<in>set (attestations t). ar_pubkey x = ar_pubkey r \<and> ar_target x = ar_target r
      then (0, t) else (1, t\<lparr>attestations := attestations t @ [r]\<rparr>))"

definition insert_block_if_absent :: "block_row \<Rightarrow> tables \<Rightarrow> nat \<times> tables" where
  "insert_block_if_absent r t =
     (if \<exists>x\<in>set (blocks t). br_pubkey x = br_pubkey r \<and> br_slot x = br_slot r
      then (0, t) else (1, t\<lparr>blocks := blocks t @ [r]\<rparr>))"

definition seed_attestation ::
  "hex_codec \<Rightarrow> string \<Rightarrow> epoch \<Rightarrow> epoch \<Rightarrow> string option \<Rightarrow> root
     \<Rightarrow> (slashing_db, slashing_error, unit) action" where
  "seed_attestation hx pubkey source target signing_root gvr =
     on_conn (bindE (sql (sql_execute (\<lambda>t. Inr (insert_attestation_if_absent
       (att_row_of (normalize_pubkey pubkey) source target signing_root (gvr_hex_of_root hx gvr)) t))))
     (\<lambda>_. retE ()))"

definition seed_block ::
  "hex_codec \<Rightarrow> string \<Rightarrow> slot \<Rightarrow> string option \<Rightarrow> root \<Rightarrow> (slashing_db, slashing_error, unit) action" where
  "seed_block hx pubkey slot signing_root gvr =
     on_conn (bindE (sql (sql_execute (\<lambda>t. Inr (insert_block_if_absent
       (block_row_of (normalize_pubkey pubkey) slot signing_root (gvr_hex_of_root hx gvr)) t))))
     (\<lambda>_. retE ()))"

section \<open>A logic for code that only reads\<close>

definition read_spec :: "(tables \<Rightarrow> 'a \<Rightarrow> bool) \<Rightarrow> (conn, 'e, 'a) action \<Rightarrow> bool" where
  "read_spec Q m \<longleftrightarrow> keeps reads m
     \<and> (\<forall>c x c'. m c = (Inr x, c') \<longrightarrow> current c' = current c \<and> Q (current c) x)"

lemma read_specD:
  assumes "read_spec Q m" "m c = (Inr x, c')"
  shows "current c' = current c" "Q (current c) x"
  using assms by (auto simp: read_spec_def)

lemma read_spec_reads: "read_spec Q m \<Longrightarrow> m c = (r, c') \<Longrightarrow> committed c' = committed c"
  by (auto simp: read_spec_def reads_def dest: keepsD)

lemma read_spec_mono: "read_spec P m \<Longrightarrow> (\<And>t x. P t x \<Longrightarrow> Q t x) \<Longrightarrow> read_spec Q m"
  by (auto simp: read_spec_def)

lemma read_spec_ret: "read_spec (\<lambda>t y. y = x) (retE x)"
  by (auto simp: read_spec_def keeps_def reads_def)

lemma read_spec_throw: "read_spec Q (throwE e)"
  by (auto simp: read_spec_def keeps_def reads_def)

lemma read_spec_bind:
  assumes "read_spec Q m" "\<And>x. read_spec (R x) (f x)"
  shows "read_spec (\<lambda>t y. \<exists>x. Q t x \<and> R x t y) (bindE m f)"
proof -
  have "keeps reads (bindE m f)"
    using assms by (intro keeps_bind) (auto simp: read_spec_def intro: reads_trans)
  then show ?thesis
    unfolding read_spec_def [of _ "bindE m f"] bindE_Inr_iff
    by (metis read_specD [OF assms(1)] read_specD [OF assms(2)])
qed

lemma read_spec_query: "read_spec (\<lambda>t x. \<exists>n. x = q n t) (sql (sql_query q))"
  by (auto simp: read_spec_def elim!: sql_query_InrE dest: same_tables_current)

lemma read_spec_watermark:
  "read_spec (\<lambda>t w. wf_tables t \<longrightarrow> w = watermark_of pk k t) (read_watermark pk k)"
proof -
  have "current c' = current c" if "read_watermark pk k c = (Inr w, c')" for c w c'
    using that by (auto simp: read_watermark_def elim!: sql_query_InrE dest: same_tables_current)
  then show ?thesis
    by (auto simp: read_spec_def read_watermark_reads dest: read_watermark_Inr)
qed

lemma read_spec_lift: "read_spec (\<lambda>t x. r = Inr x) (lift_sum r)"
  by (auto simp: read_spec_def keeps_def reads_def lift_sum_def)

text \<open>Collect the results of a loop body.\<close>

fun mapE :: "('b \<Rightarrow> ('s, 'e, 'a) action) \<Rightarrow> 'b list \<Rightarrow> ('s, 'e, 'a list) action" where
  "mapE f [] = retE []"
| "mapE f (x # xs) = bindE (f x) (\<lambda>y. bindE (mapE f xs) (\<lambda>ys. retE (y # ys)))"

lemma read_spec_mapE:
  assumes "\<And>x. read_spec (Q x) (f x)"
  shows "read_spec (\<lambda>t ys. list_all2 (\<lambda>x y. Q x t y) xs ys) (mapE f xs)"
proof (induction xs)
  case Nil
  show ?case unfolding mapE.simps by (rule read_spec_mono [OF read_spec_ret]) simp
next
  case (Cons x xs)
  show ?case unfolding mapE.simps
    by (rule read_spec_mono [OF read_spec_bind [OF assms read_spec_bind [OF Cons.IH read_spec_ret]]]) auto
qed

section \<open>What the inserts do\<close>

lemma insert_attestation_if_absent_ok:
  assumes "tables_ok t" "safe_int (ar_source r)" "safe_int (ar_target r)"
  shows "tables_ok (snd (insert_attestation_if_absent r t))"
  using assms
  by (auto simp: insert_attestation_if_absent_def tables_ok_def wf_tables_def safe_tables_def image_iff)

lemma insert_block_if_absent_ok:
  assumes "tables_ok t" "safe_int (br_slot r)"
  shows "tables_ok (snd (insert_block_if_absent r t))"
  using assms by (auto simp: insert_block_if_absent_def tables_ok_def wf_tables_def safe_tables_def image_iff)

lemma insert_attestation_if_absent_present:
  "\<exists>e\<in>att_history_of (ar_pubkey r) (snd (insert_attestation_if_absent r t)).
     ea_target_epoch e = as_u64 (ar_target r)"
proof (cases "\<exists>x\<in>set (attestations t). ar_pubkey x = ar_pubkey r \<and> ar_target x = ar_target r")
  case True
  then obtain x where "x \<in> set (attestations t)" "ar_pubkey x = ar_pubkey r" "ar_target x = ar_target r"
    by blast
  then have "existing_of_row x \<in> att_history_of (ar_pubkey r) (snd (insert_attestation_if_absent r t))"
    "ea_target_epoch (existing_of_row x) = as_u64 (ar_target r)"
    using True by (auto simp: insert_attestation_if_absent_def att_history_of_def att_rows_of_def existing_of_row_def)
  then show ?thesis by blast
next
  case False
  then show ?thesis
    by (auto simp: insert_attestation_if_absent_def att_history_of_def att_rows_of_def existing_of_row_def)
qed

lemma seed_attestation_run:
  assumes "seed_attestation hx pubkey s tg root gvr d = (Inr u, d')"
  shows "\<exists>e\<in>att_history_of (normalize_pubkey pubkey) (current (sd_conn d')). ea_target_epoch e = tg"
proof -
  define r where "r = att_row_of (normalize_pubkey pubkey) s tg root (gvr_hex_of_root hx gvr)"
  have "current (sd_conn d') = snd (insert_attestation_if_absent r (current (sd_conn d)))"
    using assms unfolding seed_attestation_def r_def
    by (auto simp: on_conn_iff result_iff write_tables_def current_def elim!: sql_execute_InrE split: option.splits)
  then show ?thesis
    using insert_attestation_if_absent_present [of r] by (simp add: r_def att_row_of_def)
qed

text \<open>The latest recorded epoch is the largest target on record.\<close>

lemma last_signed_attestation_epoch_run:
  assumes "last_signed_attestation_epoch pubkey d = (Inr e, d')" "tables_ok (current (sd_conn d))"
  shows "case e of None \<Rightarrow> att_history_of (normalize_pubkey pubkey) (current (sd_conn d)) = {}
    | Some m \<Rightarrow> m \<in> ea_target_epoch ` att_history_of (normalize_pubkey pubkey) (current (sd_conn d))
        \<and> (\<forall>x\<in>att_history_of (normalize_pubkey pubkey) (current (sd_conn d)). ea_target_epoch x \<le> m)"
proof -
  let ?rows = "att_rows_of (normalize_pubkey pubkey) (current (sd_conn d))"
  have e: "e = map_option as_u64 (max_opt (map ar_target ?rows))"
    using assms(1) by (auto simp: last_signed_attestation_epoch_def on_conn_iff elim!: sql_query_InrE)
  show ?thesis
  proof (cases "max_opt (map ar_target ?rows)")
    case None
    with e show ?thesis by (simp add: att_history_of_def)
  next
    case (Some m)
    then obtain r where r: "r \<in> set ?rows" "m = ar_target r" and top: "\<forall>x\<in>set ?rows. ar_target x \<le> m"
      by (auto simp: max_opt_Some)
    have safe: "x \<in> set ?rows \<Longrightarrow> safe_int (ar_target x)" for x
      using assms(2) safe_rows_of(1) [of "current (sd_conn d)" x] by (simp add: tables_ok_def)
    have "as_u64 (ar_target x) \<le> as_u64 m" if "x \<in> set ?rows" for x
      using that top r safe [OF that] safe [OF r(1)] by (simp add: word_le_def uint_as_u64)
    with e Some r show ?thesis
      by (auto simp: att_history_of_def existing_of_row_def image_image)
  qed
qed

end
