(* ===== verification/Slashing_Interchange.thy ===== *)
theory Slashing_Interchange
  imports Slashing_Records
begin

text \<open>
  EIP-3076 interchange and the pinned genesis root (\<open>db/interchange.rs\<close>): the fixed point that
  replaces the history below the watermarks by one synthetic record, export, the metadata checks,
  the parser of the numeric fields, the import transaction, and
  \<open>set_genesis_validators_root\<close>. The JSON text itself is read and written by serde, so the
  model starts and ends at the record types. Metrics and logging are left out.
\<close>

section \<open>Export\<close>

definition wire_attestation :: "signed_attestation \<Rightarrow> interchange_attestation" where
  "wire_attestation a =
     \<lparr>ia_source_epoch = u64_to_string (sat_source_epoch a),
      ia_target_epoch = u64_to_string (sat_target_epoch a), ia_signing_root = sat_signing_root a\<rparr>"

definition wire_block :: "signed_block \<Rightarrow> interchange_block" where
  "wire_block b = \<lparr>ib_slot = u64_to_string (sbl_slot b), ib_signing_root = sbl_signing_root b\<rparr>"

text \<open>The two inner loops and the outer loop of \<open>attestation_synthetic_bounds\<close>.\<close>

definition source_bound_at :: "(epoch \<times> epoch) list \<Rightarrow> epoch \<Rightarrow> epoch \<Rightarrow> epoch" where
  "source_bound_at rows source_wm target_bound =
     foldl (\<lambda>b (source, target). if target \<le> target_bound then max b source else b) source_wm rows"

definition raised_target :: "(epoch \<times> epoch) list \<Rightarrow> epoch \<Rightarrow> epoch \<Rightarrow> epoch option" where
  "raised_target rows source_bound target_bound =
     foldl (\<lambda>raised (source, target).
        if target > target_bound \<and> source < source_bound
        then Some (case raised of None \<Rightarrow> target | Some c \<Rightarrow> max c target) else raised) None rows"

lemma source_bound_at_simps [simp]:
  "source_bound_at [] b tb = b"
  "source_bound_at ((s, t) # rows) b tb = source_bound_at rows (if t \<le> tb then max b s else b) tb"
  by (simp_all add: source_bound_at_def)

lemma source_bound_at_ge: "b \<le> source_bound_at rows b tb"
proof (induction rows arbitrary: b)
  case (Cons x rows)
  obtain s t where x: "x = (s, t)" by fastforce
  have "b \<le> (if t \<le> tb then max b s else b)" by simp
  also note Cons.IH
  finally show ?case by (simp only: x source_bound_at_simps)
qed simp

lemma source_bound_at_row: "(s, t) \<in> set rows \<Longrightarrow> t \<le> tb \<Longrightarrow> s \<le> source_bound_at rows b tb"
proof (induction rows arbitrary: b)
  case (Cons x rows)
  show ?case
  proof (cases "x = (s, t)")
    case True
    then show ?thesis
      using Cons.prems source_bound_at_ge [of "max b s" rows tb] by simp
  next
    case False
    with Cons show ?thesis by (cases x) auto
  qed
qed simp

lemma source_bound_at_cases:
  "source_bound_at rows b tb = b \<or> (\<exists>s t. (s, t) \<in> set rows \<and> t \<le> tb \<and> source_bound_at rows b tb = s)"
proof (induction rows arbitrary: b)
  case (Cons x rows)
  obtain s t where x: "x = (s, t)" by fastforce
  from Cons [of "if t \<le> tb then max b s else b"] show ?case
    by (auto simp: x max_def split: if_splits)
qed simp

lemma source_bound_at_mono: "tb \<le> tb' \<Longrightarrow> source_bound_at rows b tb \<le> source_bound_at rows b tb'"
  using source_bound_at_cases [of rows b tb] source_bound_at_ge [of b rows tb']
    source_bound_at_row [of _ _ rows tb' b]
  by (auto intro: order.trans)

lemma raised_target_foldl:
  fixes rows :: "(epoch \<times> epoch) list"
  shows
  "foldl (\<lambda>raised (source, target).
        if target > tb \<and> source < sb
        then Some (case raised of None \<Rightarrow> target | Some c \<Rightarrow> max c target) else raised) r0 rows
   = (case r0 of None \<Rightarrow> max_opt (map snd (filter (\<lambda>(s, t). tb < t \<and> s < sb) rows))
      | Some c \<Rightarrow> max_opt (c # map snd (filter (\<lambda>(s, t). tb < t \<and> s < sb) rows)))"
proof (induction rows arbitrary: r0)
  case Nil
  show ?case by (cases r0) (simp_all add: max_opt_def)
next
  case (Cons x rows)
  obtain s t where x: "x = (s, t)" by fastforce
  have "max_opt (max c t # ys) = max_opt (c # t # ys)" for c :: epoch and ys
    by (cases "ys = []") (simp_all add: max_opt_def ac_simps)
  with Cons.IH x show ?case by (cases r0) simp_all
qed

lemma raised_target_eq:
  "raised_target rows sb tb = max_opt (map snd (filter (\<lambda>(s, t). tb < t \<and> s < sb) rows))"
  unfolding raised_target_def by (subst raised_target_foldl) simp

lemma raised_target_Some:
  assumes "raised_target rows sb tb = Some u"
  shows "\<exists>s. (s, u) \<in> set rows \<and> tb < u \<and> s < sb"
  using assms by (auto simp: raised_target_eq max_opt_Some)

lemma raised_target_None:
  "raised_target rows sb tb = None \<longleftrightarrow> (\<forall>(s, t)\<in>set rows. tb < t \<longrightarrow> sb \<le> s)"
  by (auto simp: raised_target_eq filter_empty_conv not_less)

function synthetic_bounds_from ::
  "(epoch \<times> epoch) list \<Rightarrow> epoch \<Rightarrow> epoch \<Rightarrow> epoch \<times> epoch" where
  "synthetic_bounds_from rows source_wm target_bound =
     (let source_bound = source_bound_at rows source_wm target_bound in
      case raised_target rows source_bound target_bound of
        Some next_bound \<Rightarrow> synthetic_bounds_from rows source_wm next_bound
      | None \<Rightarrow> (source_bound, target_bound))"
  by pat_completeness auto
termination
proof (relation "measure (\<lambda>(rows, _, tb). length (filter (\<lambda>(s, t). tb < t) rows))", goal_cases)
  case (2 rows ws tb sb u)
  then obtain s where s: "(s, u) \<in> set rows" "tb < u" using raised_target_Some by metis
  have "length (filter (\<lambda>(s, t). u < t) rows) = length (filter (\<lambda>(s, t). u < t) (filter (\<lambda>(s, t). tb < t) rows))"
    using s(2) by (auto simp: case_prod_beta intro!: arg_cong [where f = length] filter_cong)
  also have "\<dots> < length (filter (\<lambda>(s, t). tb < t) rows)"
    using s by (intro length_filter_less [where x = "(s, u)"]) auto
  finally show ?case by simp
qed simp

declare synthetic_bounds_from.simps [simp del]

definition attestation_synthetic_bounds ::
  "(epoch \<times> epoch) list \<Rightarrow> epoch \<Rightarrow> epoch \<Rightarrow> (epoch \<times> epoch) + (epoch \<times> epoch)" where
  "attestation_synthetic_bounds rows source_wm target_wm =
     (case synthetic_bounds_from rows source_wm target_wm of (source_bound, target_bound) \<Rightarrow>
        if source_bound > target_bound then Inl (source_bound, target_bound)
        else Inr (source_bound, target_bound))"

definition export_attestations ::
  "string \<Rightarrow> signed_attestation list \<Rightarrow> u64 option \<Rightarrow> u64 option
     \<Rightarrow> slashing_error + interchange_attestation list \<times> nat" where
  "export_attestations pubkey atts source_wm target_wm =
     (case (source_wm, target_wm) of
        (None, None) \<Rightarrow> Inr (map wire_attestation atts, 0)
      | (Some ws, Some wt) \<Rightarrow>
          (case attestation_synthetic_bounds (map (\<lambda>a. (sat_source_epoch a, sat_target_epoch a)) atts) ws wt of
             Inl (sb, tb) \<Rightarrow> Inl (UnrepresentableFloor pubkey sb tb)
           | Inr (sb, tb) \<Rightarrow>
               Inr (\<lparr>ia_source_epoch = u64_to_string sb, ia_target_epoch = u64_to_string tb, ia_signing_root = None\<rparr>
                    # map wire_attestation (filter (\<lambda>a. sat_target_epoch a > tb) atts), 1))
      | _ \<Rightarrow> Inl (UnrepresentableFloor pubkey
               (case source_wm of Some w \<Rightarrow> w | None \<Rightarrow> 0) (case target_wm of Some w \<Rightarrow> w | None \<Rightarrow> 0)))"

definition export_blocks :: "signed_block list \<Rightarrow> u64 option \<Rightarrow> interchange_block list \<times> nat" where
  "export_blocks bs block_wm =
     (case block_wm of
        Some slot_wm \<Rightarrow>
          (\<lparr>ib_slot = u64_to_string slot_wm, ib_signing_root = None\<rparr>
             # map wire_block (filter (\<lambda>b. sbl_slot b > slot_wm) bs), 1)
      | None \<Rightarrow> (map wire_block bs, 0))"

definition export_validator ::
  "string \<Rightarrow> (conn, slashing_error, validator_record \<times> nat) action" where
  "export_validator pubkey =
     bindE (read_attestations pubkey)
     (\<lambda>atts. bindE (read_blocks pubkey)
     (\<lambda>bs. bindE (read_watermark pubkey AttestationSource)
     (\<lambda>source_wm. bindE (read_watermark pubkey AttestationTarget)
     (\<lambda>target_wm. bindE (read_watermark pubkey Block)
     (\<lambda>block_wm. bindE (lift_sum (export_attestations pubkey atts source_wm target_wm))
     (\<lambda>(signed_attestations, n). case export_blocks bs block_wm of (signed_blocks, m) \<Rightarrow>
        retE (\<lparr>vr_pubkey = pubkey, vr_signed_blocks = signed_blocks,
               vr_signed_attestations = signed_attestations\<rparr>, n + m)))))))"

definition export :: "hex_codec \<Rightarrow> root \<Rightarrow> (slashing_db, slashing_error, interchange_format) action" where
  "export hx genesis_validators_root = on_conn
     (bindE read_all_pubkeys
     (\<lambda>pubkeys. bindE (mapE export_validator pubkeys)
     (\<lambda>records. retE
        \<lparr>if_metadata = \<lparr>interchange_format_version = ''5'',
           im_genesis_validators_root = gvr_hex_of_root hx genesis_validators_root\<rparr>,
         if_data = map fst records\<rparr>)))"

section \<open>Import\<close>

record parsed_attestation =
  pa_source_epoch :: epoch
  pa_target_epoch :: epoch
  pa_signing_root :: "string option"

record parsed_block =
  pb_slot :: slot
  pb_signing_root :: "string option"

record parsed_validator =
  pv_pubkey :: string
  pv_attestations :: "parsed_attestation list"
  pv_blocks :: "parsed_block list"
  pv_max_source :: "epoch option"
  pv_max_target :: "epoch option"
  pv_max_slot :: "slot option"

definition parse_interchange_attestation :: "interchange_attestation \<Rightarrow> slashing_error + parsed_attestation" where
  "parse_interchange_attestation a =
     (case parse_u64 (ia_source_epoch a) of
        None \<Rightarrow> Inl (InvalidInterchangeFormat (''invalid source_epoch: '' @ ia_source_epoch a))
      | Some s \<Rightarrow>
          (case parse_u64 (ia_target_epoch a) of
             None \<Rightarrow> Inl (InvalidInterchangeFormat (''invalid target_epoch: '' @ ia_target_epoch a))
           | Some t \<Rightarrow>
               Inr \<lparr>pa_source_epoch = s, pa_target_epoch = t, pa_signing_root = ia_signing_root a\<rparr>))"

definition parse_interchange_block :: "interchange_block \<Rightarrow> slashing_error + parsed_block" where
  "parse_interchange_block b =
     (case parse_u64 (ib_slot b) of
        None \<Rightarrow> Inl (InvalidInterchangeFormat (''invalid slot: '' @ ib_slot b))
      | Some s \<Rightarrow> Inr \<lparr>pb_slot = s, pb_signing_root = ib_signing_root b\<rparr>)"

text \<open>A loop that pushes each parsed element and stops at the first error.\<close>

fun parse_all :: "('a \<Rightarrow> 'e + 'b) \<Rightarrow> 'a list \<Rightarrow> 'e + 'b list" where
  "parse_all f [] = Inr []"
| "parse_all f (x # xs) =
     (case f x of
        Inl e \<Rightarrow> Inl e
      | Inr y \<Rightarrow> (case parse_all f xs of Inl e \<Rightarrow> Inl e | Inr ys \<Rightarrow> Inr (y # ys)))"

definition running_max :: "u64 list \<Rightarrow> u64 option" where
  "running_max xs = foldl (\<lambda>m x. Some (case m of None \<Rightarrow> x | Some c \<Rightarrow> max c x)) None xs"

definition parse_interchange_validator :: "validator_record \<Rightarrow> slashing_error + parsed_validator" where
  "parse_interchange_validator v =
     (case parse_all parse_interchange_attestation (vr_signed_attestations v) of
        Inl e \<Rightarrow> Inl e
      | Inr atts \<Rightarrow>
          (case parse_all parse_interchange_block (vr_signed_blocks v) of
             Inl e \<Rightarrow> Inl e
           | Inr bs \<Rightarrow>
               Inr \<lparr>pv_pubkey = normalize_pubkey (vr_pubkey v), pv_attestations = atts, pv_blocks = bs,
                    pv_max_source = running_max (map pa_source_epoch atts),
                    pv_max_target = running_max (map pa_target_epoch atts),
                    pv_max_slot = running_max (map pb_slot bs)\<rparr>))"

definition parse_interchange :: "interchange_format \<Rightarrow> slashing_error + parsed_validator list" where
  "parse_interchange f = parse_all parse_interchange_validator (if_data f)"

definition validate_interchange_metadata ::
  "hex_codec \<Rightarrow> interchange_format \<Rightarrow> root \<Rightarrow> slashing_error + unit" where
  "validate_interchange_metadata hx f expected =
     (let version = interchange_format_version (if_metadata f);
          actual = im_genesis_validators_root (if_metadata f)
      in if version \<noteq> ''5''
         then Inl (InvalidInterchangeFormat
           (''unsupported interchange_format_version: expected \"5\", got \"'' @ version @ ''\"''))
         else
           (case parse_gvr_hex hx actual of
              Inl _ \<Rightarrow> Inl (GenesisValidatorsRootMismatch (gvr_hex_of_root hx expected) actual)
            | Inr actual_root \<Rightarrow>
                if actual_root \<noteq> expected
                then Inl (GenesisValidatorsRootMismatch (gvr_hex_of_root hx expected) actual)
                else Inr ()))"

definition import_attestation ::
  "string \<Rightarrow> string \<Rightarrow> parsed_attestation \<Rightarrow> (conn, slashing_error, unit) action" where
  "import_attestation pubkey gvr_hex a =
     bindE (sql (sql_execute (\<lambda>t. Inr (insert_attestation_if_absent
       (att_row_of pubkey (pa_source_epoch a) (pa_target_epoch a) (pa_signing_root a) gvr_hex) t))))
     (\<lambda>_. retE ())"

definition import_block :: "string \<Rightarrow> string \<Rightarrow> parsed_block \<Rightarrow> (conn, slashing_error, unit) action" where
  "import_block pubkey gvr_hex b =
     bindE (sql (sql_execute (\<lambda>t. Inr (insert_block_if_absent
       (block_row_of pubkey (pb_slot b) (pb_signing_root b) gvr_hex) t))))
     (\<lambda>_. retE ())"

definition import_watermarks :: "parsed_validator \<Rightarrow> (conn, slashing_error, unit) action" where
  "import_watermarks v =
     bindE (case pv_max_slot v of
        Some sl \<Rightarrow> raise_watermark_max (pv_pubkey v) Block sl
      | None \<Rightarrow> retE ())
     (\<lambda>_. case (pv_max_source v, pv_max_target v) of
        (Some s, Some t) \<Rightarrow>
          bindE (raise_watermark_max (pv_pubkey v) AttestationSource s)
          (\<lambda>_. raise_watermark_max (pv_pubkey v) AttestationTarget t)
      | _ \<Rightarrow> retE ())"

definition import_validator :: "string \<Rightarrow> parsed_validator \<Rightarrow> (conn, slashing_error, unit) action" where
  "import_validator gvr_hex v =
     bindE (forE (pv_attestations v) (import_attestation (pv_pubkey v) gvr_hex))
     (\<lambda>_. bindE (forE (pv_blocks v) (import_block (pv_pubkey v) gvr_hex))
     (\<lambda>_. import_watermarks v))"

definition import :: "hex_codec \<Rightarrow> interchange_format \<Rightarrow> root \<Rightarrow> (slashing_db, slashing_error, unit) action" where
  "import hx f expected =
     bindE (lift_sum (validate_interchange_metadata hx f expected))
     (\<lambda>_. bindE (lift_sum (parse_interchange f))
     (\<lambda>parsed. on_conn (in_transaction
        (forE parsed (import_validator (gvr_hex_of_root hx expected))))))"

section \<open>The pinned genesis root\<close>

definition genesis_validators_root :: "(slashing_db, slashing_error, string option) action" where
  "genesis_validators_root = on_conn select_metadata_gvr"

definition update_metadata_gvr :: "string \<Rightarrow> tables \<Rightarrow> string + nat \<times> tables" where
  "update_metadata_gvr v t =
     Inr (length (filter (\<lambda>kv. fst kv = gvr_key) (metadata t)),
          t\<lparr>metadata := map (\<lambda>(k, w). if k = gvr_key then (k, v) else (k, w)) (metadata t)\<rparr>)"

definition insert_metadata_gvr :: "string \<Rightarrow> tables \<Rightarrow> string + nat \<times> tables" where
  "insert_metadata_gvr v t =
     (if gvr_key \<in> fst ` set (metadata t) then Inl ''UNIQUE constraint failed: metadata.key''
      else Inr (1, t\<lparr>metadata := metadata t @ [(gvr_key, v)]\<rparr>))"

definition pin_root_body :: "hex_codec \<Rightarrow> root \<Rightarrow> (conn, slashing_error, unit) action" where
  "pin_root_body hx root =
     (let canonical_hex = gvr_hex_of_root hx root in
      bindE select_metadata_gvr
      (\<lambda>existing. case existing of
         Some stored \<Rightarrow>
           bindE (lift_sum (parse_gvr_hex_policy hx stored))
           (\<lambda>stored_root.
             if stored_root \<noteq> root then throwE (GenesisValidatorsRootMismatch stored canonical_hex)
             else if stored \<noteq> canonical_hex
             then bindE (sql (sql_execute (update_metadata_gvr canonical_hex))) (\<lambda>_. retE ())
             else retE ())
       | None \<Rightarrow> bindE (sql (sql_execute (insert_metadata_gvr canonical_hex))) (\<lambda>_. retE ())))"

definition set_genesis_validators_root ::
  "hex_codec \<Rightarrow> root \<Rightarrow> (slashing_db, slashing_error, unit) action" where
  "set_genesis_validators_root hx root =
     (if root = zero_root
      then throwE (InvalidInterchangeFormat ''genesis_validators_root must not be all zeros'')
      else on_conn (in_transaction (pin_root_body hx root)))"

section \<open>The fixed point\<close>

text \<open>
  A pair that may stand for all the history at or below its target: it dominates the floors and
  every row it replaces, and no row it leaves beside itself has a smaller source.
\<close>

definition floor_pair :: "(epoch \<times> epoch) list \<Rightarrow> epoch \<Rightarrow> epoch \<Rightarrow> epoch \<times> epoch \<Rightarrow> bool" where
  "floor_pair rows ws wt p \<longleftrightarrow> ws \<le> fst p \<and> wt \<le> snd p
     \<and> (\<forall>(s, t)\<in>set rows. if t \<le> snd p then s \<le> fst p else fst p \<le> s)"

lemma synthetic_bounds_floor_pair:
  assumes "wt \<le> tb"
  shows "floor_pair rows ws wt (synthetic_bounds_from rows ws tb)"
  using assms
proof (induction rows ws tb rule: synthetic_bounds_from.induct)
  case (1 rows ws tb)
  show ?case
  proof (cases "raised_target rows (source_bound_at rows ws tb) tb")
    case None
    then have "synthetic_bounds_from rows ws tb = (source_bound_at rows ws tb, tb)"
      by (subst synthetic_bounds_from.simps) (simp add: Let_def)
    with None 1(2) show ?thesis
      by (auto simp: floor_pair_def raised_target_None source_bound_at_ge source_bound_at_row not_le)
  next
    case (Some u)
    then have "synthetic_bounds_from rows ws tb = synthetic_bounds_from rows ws u"
      by (subst synthetic_bounds_from.simps) (simp add: Let_def)
    with 1 Some raised_target_Some [OF Some] show ?thesis by auto
  qed
qed

lemma source_bound_at_least:
  assumes "floor_pair rows ws wt p" "tb \<le> snd p"
  shows "source_bound_at rows ws tb \<le> fst p"
  using source_bound_at_cases [of rows ws tb] assms by (fastforce simp: floor_pair_def)

lemma synthetic_bounds_least:
  assumes "floor_pair rows ws wt p" "tb \<le> snd p"
  shows "fst (synthetic_bounds_from rows ws tb) \<le> fst p \<and> snd (synthetic_bounds_from rows ws tb) \<le> snd p"
  using assms
proof (induction rows ws tb rule: synthetic_bounds_from.induct)
  case (1 rows ws tb)
  note sb = source_bound_at_least [OF 1(2,3)]
  show ?case
  proof (cases "raised_target rows (source_bound_at rows ws tb) tb")
    case None
    then have "synthetic_bounds_from rows ws tb = (source_bound_at rows ws tb, tb)"
      by (subst synthetic_bounds_from.simps) (simp add: Let_def)
    with sb 1(3) show ?thesis by simp
  next
    case (Some u)
    then have eq: "synthetic_bounds_from rows ws tb = synthetic_bounds_from rows ws u"
      by (subst synthetic_bounds_from.simps) (simp add: Let_def)
    obtain s where s: "(s, u) \<in> set rows" "s < source_bound_at rows ws tb"
      using raised_target_Some [OF Some] by blast
    have "u \<le> snd p"
    proof (rule ccontr)
      assume "\<not> u \<le> snd p"
      with s(1) 1(2) have "fst p \<le> s" by (fastforce simp: floor_pair_def)
      with s(2) sb show False by simp
    qed
    with 1(1) [OF refl Some] 1(2) eq show ?thesis by simp
  qed
qed

text \<open>
  C10: \<open>attestation_synthetic_bounds\<close> always returns, and the pair it computes is the least one
  that may stand for the history at or below its target; it is reported as an error exactly when
  that pair is no attestation (source above target).
\<close>

theorem synthetic_bounds_are_least:
  "\<exists>p. attestation_synthetic_bounds rows ws wt = (if fst p > snd p then Inl p else Inr p)
     \<and> floor_pair rows ws wt p
     \<and> (\<forall>q. floor_pair rows ws wt q \<longrightarrow> fst p \<le> fst q \<and> snd p \<le> snd q)"
proof -
  let ?p = "synthetic_bounds_from rows ws wt"
  have "attestation_synthetic_bounds rows ws wt = (if fst ?p > snd ?p then Inl ?p else Inr ?p)"
    by (auto simp: attestation_synthetic_bounds_def split: prod.splits)
  moreover have "fst ?p \<le> fst q \<and> snd ?p \<le> snd q" if "floor_pair rows ws wt q" for q
    using synthetic_bounds_least [OF that] that by (simp add: floor_pair_def)
  ultimately show ?thesis using synthetic_bounds_floor_pair [OF order.refl] by blast
qed

theorem synthetic_bounds_are_least_witness:
  "let rows = [(3, 9), (6, 7), (2, 12)]
   in attestation_synthetic_bounds rows 1 8 = Inr (6, 12) \<and> floor_pair rows 1 8 (6, 12)
      \<and> \<not> floor_pair rows 1 8 (6, 11)"
proof -
  have r: "attestation_synthetic_bounds [(3, 9), (6, 7), (2, 12)] 1 8 = Inr (6, 12)" by code_simp
  obtain p where p: "attestation_synthetic_bounds [(3, 9), (6, 7), (2, 12)] 1 8 = (if fst p > snd p then Inl p else Inr p)"
    "floor_pair [(3, 9), (6, 7), (2, 12)] 1 8 p"
    and least: "\<forall>q. floor_pair [(3, 9), (6, 7), (2, 12)] 1 8 q \<longrightarrow> fst p \<le> fst q \<and> snd p \<le> snd q"
    using synthetic_bounds_are_least [of "[(3, 9), (6, 7), (2, 12)]" 1 8] by blast
  have "p = (6, 12)" using p(1) r by (simp split: if_splits)
  with p(2) least r show ?thesis by fastforce
qed

section \<open>What export writes\<close>

definition export_record :: "tables \<Rightarrow> string \<Rightarrow> slashing_error + validator_record \<times> nat" where
  "export_record t pk =
     (case export_attestations pk (attestation_records pk t)
             (watermark_of pk AttestationSource t) (watermark_of pk AttestationTarget t) of
        Inl e \<Rightarrow> Inl e
      | Inr (atts, n) \<Rightarrow>
          (case export_blocks (block_records pk t) (watermark_of pk Block t) of (bs, m) \<Rightarrow>
             Inr (\<lparr>vr_pubkey = pk, vr_signed_blocks = bs, vr_signed_attestations = atts\<rparr>, n + m)))"

lemma read_spec_tail:
  "read_spec (\<lambda>t x. \<exists>atts n. r = Inr (atts, n) \<and> x = (case eb of (bs, m) \<Rightarrow> (f atts bs, n + m)))
     (bindE (lift_sum r) (\<lambda>(atts, n). case eb of (bs, m) \<Rightarrow> retE (f atts bs, n + (m :: nat))))"
  by (auto simp: read_spec_def keeps_def reads_def lift_sum_def bindE_def split: prod.splits sum.splits)

lemma export_validator_spec:
  "read_spec (\<lambda>t x. wf_tables t \<longrightarrow> export_record t pk = Inr x) (export_validator pk)"
  unfolding export_validator_def read_attestations_def read_blocks_def
  by (rule read_spec_mono [OF read_spec_bind [OF read_spec_query read_spec_bind [OF read_spec_query
        read_spec_bind [OF read_spec_watermark read_spec_bind [OF read_spec_watermark
        read_spec_bind [OF read_spec_watermark read_spec_tail]]]]]])
    (auto simp: export_record_def case_prod_beta)

definition exported :: "hex_codec \<Rightarrow> root \<Rightarrow> tables \<Rightarrow> interchange_format \<Rightarrow> bool" where
  "exported hx g t f \<longleftrightarrow>
     if_metadata f = \<lparr>interchange_format_version = ''5'', im_genesis_validators_root = gvr_hex_of_root hx g\<rparr>
     \<and> list_all2 (\<lambda>pk v. \<exists>n. export_record t pk = Inr (v, n)) (pubkeys_in t) (if_data f)"

lemma export_run:
  assumes "export hx g d = (r, d')" "wf_tables (current (sd_conn d))"
  shows "committed (sd_conn d') = committed (sd_conn d)"
    "r = Inr f \<Longrightarrow> exported hx g (current (sd_conn d)) f"
proof -
  have spec: "read_spec (\<lambda>t f. wf_tables t \<longrightarrow> exported hx g t f)
    (bindE read_all_pubkeys (\<lambda>pubkeys. bindE (mapE export_validator pubkeys)
      (\<lambda>records. retE \<lparr>if_metadata = \<lparr>interchange_format_version = ''5'',
           im_genesis_validators_root = gvr_hex_of_root hx g\<rparr>, if_data = map fst records\<rparr>)))"
    unfolding read_all_pubkeys_def
    by (rule read_spec_mono [OF read_spec_bind [OF read_spec_query
          read_spec_bind [OF read_spec_mapE [OF export_validator_spec] read_spec_ret]]])
      (auto simp: exported_def list_all2_map2 elim!: list_all2_mono)
  show "committed (sd_conn d') = committed (sd_conn d)"
    using assms(1) read_spec_reads [OF spec] by (auto simp: export_def on_conn_iff)
  show "exported hx g (current (sd_conn d)) f" if "r = Inr f"
    using assms read_specD(2) [OF spec] that by (auto simp: export_def on_conn_iff)
qed

lemma exported_record:
  assumes "exported hx g t f" "pk \<in> set (pubkeys_in t)"
  obtains v n where "v \<in> set (if_data f)" "export_record t pk = Inr (v, n)"
  using assms unfolding exported_def list_all2_conv_all_nth in_set_conv_nth by metis

section \<open>Reading the numbers back\<close>

lemma parse_all_map: "(\<And>x. f (g x) = Inr (h x)) \<Longrightarrow> parse_all f (map g xs) = Inr (map h xs)"
  by (induction xs) auto

lemma parse_all_Inr: "parse_all f xs = Inr ys \<longleftrightarrow> list_all2 (\<lambda>x y. f x = Inr y) xs ys"
proof (induction xs arbitrary: ys)
  case (Cons x xs)
  then show ?case by (cases "f x"; cases "parse_all f xs") (auto simp: list_all2_Cons1)
qed auto

definition parsed_of_attestation :: "signed_attestation \<Rightarrow> parsed_attestation" where
  "parsed_of_attestation a = \<lparr>pa_source_epoch = sat_source_epoch a, pa_target_epoch = sat_target_epoch a,
     pa_signing_root = sat_signing_root a\<rparr>"

definition parsed_of_block :: "signed_block \<Rightarrow> parsed_block" where
  "parsed_of_block b = \<lparr>pb_slot = sbl_slot b, pb_signing_root = sbl_signing_root b\<rparr>"

lemma parse_wire [simp]:
  "parse_interchange_attestation (wire_attestation a) = Inr (parsed_of_attestation a)"
  "parse_interchange_attestation \<lparr>ia_source_epoch = u64_to_string s, ia_target_epoch = u64_to_string t,
     ia_signing_root = r\<rparr> = Inr \<lparr>pa_source_epoch = s, pa_target_epoch = t, pa_signing_root = r\<rparr>"
  "parse_interchange_block (wire_block b) = Inr (parsed_of_block b)"
  "parse_interchange_block \<lparr>ib_slot = u64_to_string sl, ib_signing_root = r\<rparr>
     = Inr \<lparr>pb_slot = sl, pb_signing_root = r\<rparr>"
  by (simp_all add: parse_interchange_attestation_def parse_interchange_block_def wire_attestation_def
      wire_block_def parsed_of_attestation_def parsed_of_block_def parse_u64_to_string)

lemma running_max_eq: "running_max xs = max_opt xs"
proof -
  have "foldl (\<lambda>m x. Some (case m of None \<Rightarrow> x | Some c \<Rightarrow> max c x)) r xs
    = (case r of None \<Rightarrow> max_opt xs | Some c \<Rightarrow> max_opt (c # xs))" for r
  proof (induction xs arbitrary: r)
    case Nil
    show ?case by (cases r) (simp_all add: max_opt_def)
  next
    case (Cons x xs)
    have "max_opt (max c x # xs) = max_opt (c # x # xs)" for c :: u64
      by (cases "xs = []") (simp_all add: max_opt_def ac_simps)
    with Cons.IH show ?case by (cases r) simp_all
  qed
  then show ?thesis by (simp add: running_max_def)
qed

section \<open>Export protects every importer\<close>

text \<open>
  What EIP-3076 asks of an importer that keeps the records of the file: refuse what conflicts with
  a record, and refuse anything below the least source or not above the least target of the file.
\<close>

definition existing_of_parsed :: "parsed_attestation \<Rightarrow> existing_att" where
  "existing_of_parsed a = \<lparr>ea_source_epoch = pa_source_epoch a, ea_target_epoch = pa_target_epoch a,
     ea_signing_root = pa_signing_root a\<rparr>"

definition importer_refuses_attestation :: "parsed_attestation list \<Rightarrow> attestation_candidate \<Rightarrow> bool" where
  "importer_refuses_attestation as c \<longleftrightarrow>
     att_conflict (existing_of_parsed ` set as) c True
     \<or> as \<noteq> [] \<and> ((\<forall>a\<in>set as. ac_source_epoch c < pa_source_epoch a)
                \<or> (\<forall>a\<in>set as. ac_target_epoch c \<le> pa_target_epoch a))"

definition importer_refuses_block :: "parsed_block list \<Rightarrow> block_candidate \<Rightarrow> bool" where
  "importer_refuses_block bs c \<longleftrightarrow>
     (\<exists>b\<in>set bs. pb_slot b = bc_slot c \<and> \<not> is_resign True (pb_signing_root b) (bc_signing_root c))
     \<or> bs \<noteq> [] \<and> (\<forall>b\<in>set bs. bc_slot c \<le> pb_slot b)"

definition record_of_row :: "att_row \<Rightarrow> parsed_attestation" where
  "record_of_row r = parsed_of_attestation (signed_attestation_from_stored r)"

lemma existing_of_record [simp]: "existing_of_parsed (record_of_row r) = existing_of_row r"
  by (simp add: existing_of_parsed_def record_of_row_def parsed_of_attestation_def
      signed_attestation_from_stored_def existing_of_row_def)

lemma record_of_row_simps [simp]:
  "pa_source_epoch (record_of_row r) = as_u64 (ar_source r)"
  "pa_target_epoch (record_of_row r) = as_u64 (ar_target r)"
  by (simp_all add: record_of_row_def parsed_of_attestation_def signed_attestation_from_stored_def)

lemma att_records_rows:
  "map (\<lambda>a. (sat_source_epoch a, sat_target_epoch a)) (attestation_records pk t)
     = map att_row_span (sort_key ar_target (att_rows_of pk t))"
  by (simp add: attestation_records_def signed_attestation_from_stored_def att_row_span_def comp_def)

lemma att_history_of_rows: "att_history_of pk t = existing_of_row ` set (sort_key ar_target (att_rows_of pk t))"
  by (simp add: att_history_of_def)

lemma parse_interchange_validator_Inr:
  assumes "parse_all parse_interchange_attestation (vr_signed_attestations v) = Inr atts"
    "parse_all parse_interchange_block (vr_signed_blocks v) = Inr bs"
  obtains pv where "parse_interchange_validator v = Inr pv" "pv_attestations pv = atts" "pv_blocks pv = bs"
  using assms by (simp add: parse_interchange_validator_def)

text \<open>The parsed attestations of an exported record: the history, or the floor pair and what is above it.\<close>

lemma export_record_parsed:
  assumes "export_record t pk = Inr (v, n)"
  obtains (no_floor) pv where "parse_interchange_validator v = Inr pv"
      "watermark_of pk AttestationSource t = None" "watermark_of pk AttestationTarget t = None"
      "pv_attestations pv = map record_of_row (sort_key ar_target (att_rows_of pk t))"
  | (floor) pv ws wt sb tb where "parse_interchange_validator v = Inr pv"
      "watermark_of pk AttestationSource t = Some ws" "watermark_of pk AttestationTarget t = Some wt"
      "floor_pair (map att_row_span (sort_key ar_target (att_rows_of pk t))) ws wt (sb, tb)"
      "synthetic_bounds_from (map att_row_span (sort_key ar_target (att_rows_of pk t))) ws wt = (sb, tb)"
      "pv_attestations pv = \<lparr>pa_source_epoch = sb, pa_target_epoch = tb, pa_signing_root = None\<rparr>
         # map record_of_row (filter (\<lambda>r. tb < as_u64 (ar_target r)) (sort_key ar_target (att_rows_of pk t)))"
proof -
  obtain bs m where bs: "export_blocks (block_records pk t) (watermark_of pk Block t) = (bs, m)" by fastforce
  obtain atts k where atts: "export_attestations pk (attestation_records pk t)
      (watermark_of pk AttestationSource t) (watermark_of pk AttestationTarget t) = Inr (atts, k)"
    and v: "v = \<lparr>vr_pubkey = pk, vr_signed_blocks = bs, vr_signed_attestations = atts\<rparr>"
    using assms bs by (auto simp: export_record_def split: sum.splits prod.splits)
  obtain pbs where pbs: "parse_all parse_interchange_block bs = Inr pbs"
    using bs by (auto simp: export_blocks_def parse_all_map [where h = parsed_of_block] split: option.splits)
  have wire: "parse_all parse_interchange_attestation
      (map wire_attestation (map signed_attestation_from_stored rs)) = Inr (map record_of_row rs)" for rs
    by (subst map_map, rule parse_all_map) (simp add: record_of_row_def)
  show thesis
  proof (cases "watermark_of pk AttestationSource t")
    case None
    then have "watermark_of pk AttestationTarget t = None" "atts = map wire_attestation (attestation_records pk t)"
      using atts by (auto simp: export_attestations_def split: option.splits)
    moreover from this v have "parse_all parse_interchange_attestation (vr_signed_attestations v)
        = Inr (map record_of_row (sort_key ar_target (att_rows_of pk t)))"
      by (simp add: wire attestation_records_def del: map_map)
    moreover obtain pv where "parse_interchange_validator v = Inr pv"
      "pv_attestations pv = map record_of_row (sort_key ar_target (att_rows_of pk t))"
      by (rule parse_interchange_validator_Inr [of v _ pbs]) (use calculation v pbs in simp_all)
    ultimately show thesis using None no_floor by blast
  next
    case (Some ws)
    then obtain wt sb tb where wt: "watermark_of pk AttestationTarget t = Some wt"
      and b: "attestation_synthetic_bounds (map att_row_span (sort_key ar_target (att_rows_of pk t))) ws wt = Inr (sb, tb)"
      and as: "atts = \<lparr>ia_source_epoch = u64_to_string sb, ia_target_epoch = u64_to_string tb, ia_signing_root = None\<rparr>
                    # map wire_attestation (filter (\<lambda>a. sat_target_epoch a > tb) (attestation_records pk t))"
      using atts by (auto simp: export_attestations_def att_records_rows split: option.splits sum.splits)
    have keep: "filter (\<lambda>a. tb < sat_target_epoch a) (attestation_records pk t)
        = map signed_attestation_from_stored
            (filter (\<lambda>r. tb < as_u64 (ar_target r)) (sort_key ar_target (att_rows_of pk t)))"
      by (simp add: attestation_records_def filter_map comp_def signed_attestation_from_stored_def)
    have "floor_pair (map att_row_span (sort_key ar_target (att_rows_of pk t))) ws wt (sb, tb)"
      "synthetic_bounds_from (map att_row_span (sort_key ar_target (att_rows_of pk t))) ws wt = (sb, tb)"
      using b synthetic_bounds_floor_pair [OF order.refl, of "map att_row_span (sort_key ar_target (att_rows_of pk t))" ws wt]
      by (auto simp: attestation_synthetic_bounds_def split: prod.splits if_splits)
    moreover from v as have "parse_all parse_interchange_attestation (vr_signed_attestations v)
        = Inr (\<lparr>pa_source_epoch = sb, pa_target_epoch = tb, pa_signing_root = None\<rparr>
         # map record_of_row (filter (\<lambda>r. tb < as_u64 (ar_target r)) (sort_key ar_target (att_rows_of pk t))))"
      by (simp add: wire keep del: map_map)
    moreover obtain pv where "parse_interchange_validator v = Inr pv"
      "pv_attestations pv = \<lparr>pa_source_epoch = sb, pa_target_epoch = tb, pa_signing_root = None\<rparr>
         # map record_of_row (filter (\<lambda>r. tb < as_u64 (ar_target r)) (sort_key ar_target (att_rows_of pk t)))"
      by (rule parse_interchange_validator_Inr [of v _ pbs]) (use calculation v pbs in simp_all)
    ultimately show thesis using Some wt floor by blast
  qed
qed

lemma att_conflict_strict: "att_conflict R c strict \<Longrightarrow> att_conflict R c True"
  unfolding att_conflict_def is_resign_def by (fastforce split: option.splits)

lemma exported_attestations_protect:
  assumes rec: "export_record t pk = Inr (v, n)"
    and refused: "\<not> above_att_floors (att_floors pk t) c \<or> att_conflict (att_history_of pk t) c strict"
  shows "\<exists>pv. parse_interchange_validator v = Inr pv \<and> importer_refuses_attestation (pv_attestations pv) c"
  using rec
proof (cases rule: export_record_parsed)
  case (no_floor pv)
  then have "att_conflict (att_history_of pk t) c True"
    using refused att_conflict_strict by (auto simp: above_att_floors_def att_floors_def)
  with no_floor show ?thesis
    by (auto simp: importer_refuses_attestation_def att_history_of_rows image_image)
next
  case (floor pv ws wt sb tb)
  let ?kept = "filter (\<lambda>r. tb < as_u64 (ar_target r)) (sort_key ar_target (att_rows_of pk t))"
  have low: "importer_refuses_attestation (pv_attestations pv) c"
    if "ac_source_epoch c < sb \<or> ac_target_epoch c \<le> tb"
  proof -
    have "sb \<le> as_u64 (ar_source r)" if "r \<in> set ?kept" for r
      using floor(4) that by (auto simp: floor_pair_def att_row_span_def split: if_splits)
    with that floor(6) show ?thesis
      by (auto simp: importer_refuses_attestation_def intro: less_le_trans)
  qed
  show ?thesis
  proof (cases "above_att_floors (att_floors pk t) c")
    case False
    with floor(2,3,4) have "ac_source_epoch c < sb \<or> ac_target_epoch c \<le> tb"
      by (auto simp: above_att_floors_def att_floors_def floor_pair_def)
    with low floor(1) show ?thesis by blast
  next
    case True
    with refused have "att_conflict (att_history_of pk t) c True" using att_conflict_strict by blast
    then obtain r where r: "r \<in> set (sort_key ar_target (att_rows_of pk t))"
      and confl: "att_conflict {existing_of_row r} c True"
      unfolding att_history_of_rows att_conflict_def by blast
    show ?thesis
    proof (cases "as_u64 (ar_target r) \<le> tb")
      case True
      then have "as_u64 (ar_source r) \<le> sb"
        using floor(4) r by (auto simp: floor_pair_def att_row_span_def split: if_splits)
      with True confl have "ac_source_epoch c < sb \<or> ac_target_epoch c \<le> tb"
        by (auto simp: att_conflict_def surrounds_def existing_of_row_def)
      with low floor(1) show ?thesis by blast
    next
      case False
      with r have "existing_of_row r \<in> existing_of_parsed ` set (pv_attestations pv)"
        unfolding floor(6) by (auto simp: image_iff)
      with confl have "att_conflict (existing_of_parsed ` set (pv_attestations pv)) c True"
        unfolding att_conflict_def by blast
      with floor(1) show ?thesis by (auto simp: importer_refuses_attestation_def)
    qed
  qed
qed

definition record_of_block_row :: "block_row \<Rightarrow> parsed_block" where
  "record_of_block_row r = parsed_of_block (signed_block_from_stored r)"

lemma record_of_block_row_simps [simp]:
  "pb_slot (record_of_block_row r) = as_u64 (br_slot r)"
  "pb_signing_root (record_of_block_row r) = br_signing_root r"
  by (simp_all add: record_of_block_row_def parsed_of_block_def signed_block_from_stored_def)

lemma export_record_blocks:
  assumes "export_record t pk = Inr (v, n)" "parse_interchange_validator v = Inr pv"
  shows "pv_blocks pv = (case watermark_of pk Block t of
       None \<Rightarrow> map record_of_block_row (sort_key br_slot (block_rows_of pk t))
     | Some w \<Rightarrow> \<lparr>pb_slot = w, pb_signing_root = None\<rparr>
         # map record_of_block_row (filter (\<lambda>r. w < as_u64 (br_slot r)) (sort_key br_slot (block_rows_of pk t))))"
proof -
  have wire: "parse_all parse_interchange_block
      (map wire_block (map signed_block_from_stored rs)) = Inr (map record_of_block_row rs)" for rs
    by (subst map_map, rule parse_all_map) (simp add: record_of_block_row_def)
  have keep: "filter (\<lambda>b. w < sbl_slot b) (block_records pk t)
      = map signed_block_from_stored (filter (\<lambda>r. w < as_u64 (br_slot r)) (sort_key br_slot (block_rows_of pk t)))" for w
    by (simp add: block_records_def filter_map comp_def signed_block_from_stored_def)
  have "vr_signed_blocks v = fst (export_blocks (block_records pk t) (watermark_of pk Block t))"
    using assms(1) by (auto simp: export_record_def split: sum.splits prod.splits)
  moreover have "parse_all parse_interchange_block (vr_signed_blocks v) = Inr (pv_blocks pv)"
    using assms(2) by (auto simp: parse_interchange_validator_def split: sum.splits)
  ultimately show ?thesis
    by (cases "watermark_of pk Block t")
      (auto simp: export_blocks_def wire keep [unfolded block_records_def] block_records_def simp del: map_map)
qed

lemma exported_blocks_protect:
  assumes rec: "export_record t pk = Inr (v, n)" and pv: "parse_interchange_validator v = Inr pv"
    and refused: "\<not> above_block_floor (block_floor pk t) c
      \<or> (\<exists>r. (bc_slot c, r) \<in> block_history_of pk t \<and> \<not> is_resign strict r (bc_signing_root c))"
  shows "importer_refuses_block (pv_blocks pv) c"
proof (cases "watermark_of pk Block t")
  case None
  with refused obtain r where r: "r \<in> set (block_rows_of pk t)" "as_u64 (br_slot r) = bc_slot c"
    "\<not> is_resign strict (br_signing_root r) (bc_signing_root c)"
    by (auto simp: above_block_floor_def block_floor_def block_history_of_def)
  moreover from r(3) have "\<not> is_resign True (br_signing_root r) (bc_signing_root c)"
    by (auto simp: is_resign_def split: option.splits)
  ultimately show ?thesis
    using export_record_blocks [OF rec pv] None by (auto simp: importer_refuses_block_def)
next
  case (Some w)
  note bs = export_record_blocks [OF rec pv, unfolded Some option.case]
  show ?thesis
  proof (cases "bc_slot c \<le> w")
    case True
    then show ?thesis unfolding importer_refuses_block_def bs by auto
  next
    case False
    with refused Some obtain r where r: "r \<in> set (block_rows_of pk t)" "as_u64 (br_slot r) = bc_slot c"
      "\<not> is_resign strict (br_signing_root r) (bc_signing_root c)"
      by (auto simp: above_block_floor_def block_floor_def block_history_of_def)
    moreover from r(3) have "\<not> is_resign True (br_signing_root r) (bc_signing_root c)"
      by (auto simp: is_resign_def split: option.splits)
    ultimately show ?thesis
      using False unfolding importer_refuses_block_def bs by fastforce
  qed
qed

text \<open>
  C11: an exported file protects with any importer. When this database refuses an attestation
  because of its floors, a double vote or a surround, the file has a record set for that public
  key whose numbers parse and that makes an EIP-3076 importer refuse it as well; the same for
  blocks.
\<close>

theorem export_protects_any_importer:
  assumes "export hx g d = (Inr f, d')" "wf_tables (current (sd_conn d))"
    and "pk \<in> set (pubkeys_in (current (sd_conn d)))"
  shows "\<exists>v\<in>set (if_data f). \<exists>pv. vr_pubkey v = pk \<and> parse_interchange_validator v = Inr pv
    \<and> (\<forall>c strict. \<not> above_att_floors (att_floors pk (current (sd_conn d))) c
          \<or> att_conflict (att_history_of pk (current (sd_conn d))) c strict
        \<longrightarrow> importer_refuses_attestation (pv_attestations pv) c)
    \<and> (\<forall>c strict. \<not> above_block_floor (block_floor pk (current (sd_conn d))) c
          \<or> (\<exists>r. (bc_slot c, r) \<in> block_history_of pk (current (sd_conn d)) \<and> \<not> is_resign strict r (bc_signing_root c))
        \<longrightarrow> importer_refuses_block (pv_blocks pv) c)"
proof -
  from exported_record [OF export_run(2) [OF assms(1,2) refl] assms(3)] obtain v n
    where v: "v \<in> set (if_data f)" "export_record (current (sd_conn d)) pk = Inr (v, n)" by blast
  obtain pv where pv: "parse_interchange_validator v = Inr pv" using v(2) by (rule export_record_parsed)
  have "vr_pubkey v = pk" using v(2) by (auto simp: export_record_def split: sum.splits prod.splits)
  with v pv exported_attestations_protect [OF v(2)] exported_blocks_protect [OF v(2) pv] show ?thesis
    by (intro bexI [of _ v] exI [of _ pv]) auto
qed

definition export_fixture :: slashing_db where
  "export_fixture = from_connection \<lparr>committed = \<lparr>attestations = [att_row_of ''0xaa'' 5 10 (Some ''0x01'') ''0xcc''],
     blocks = [block_row_of ''0xaa'' 40 None ''0xcc''],
     watermarks = [\<lparr>wr_pubkey = ''0xaa'', wr_type = as_sql_str AttestationSource, wr_value = 5\<rparr>,
       \<lparr>wr_pubkey = ''0xaa'', wr_type = as_sql_str AttestationTarget, wr_value = 5\<rparr>],
     metadata = []\<rparr>, txn = None, tape = []\<rparr>"

theorem export_protects_any_importer_witness:
  "let t = current (sd_conn export_fixture); (r, d') = export hex_ref (replicate 32 7) export_fixture in
   case r of Inl e \<Rightarrow> False
   | Inr f \<Rightarrow> \<exists>v\<in>set (if_data f). \<exists>pv. vr_pubkey v = ''0xaa'' \<and> parse_interchange_validator v = Inr pv
       \<and> importer_refuses_attestation (pv_attestations pv) (att_cand 4 6 None)
       \<and> importer_refuses_block (pv_blocks pv) (block_cand 40 (Some ''0x02''))"
proof -
  let ?t = "current (sd_conn export_fixture)"
  have wf: "wf_tables ?t" by code_simp
  have pk: "''0xaa'' \<in> set (pubkeys_in ?t)" by code_simp
  have ref: "\<not> above_att_floors (att_floors ''0xaa'' ?t) (att_cand 4 6 None)" by code_simp
  have refb: "(40, None) \<in> block_history_of ''0xaa'' ?t" by code_simp
  have ok: "\<not> isl (fst (export hex_ref (replicate 32 7) export_fixture))" by code_simp
  obtain f d' where run: "export hex_ref (replicate 32 7) export_fixture = (Inr f, d')"
    using ok by (cases "export hex_ref (replicate 32 7) export_fixture"; cases "fst (export hex_ref (replicate 32 7) export_fixture)") auto
  have refb': "\<exists>r. (bc_slot (block_cand 40 (Some ''0x02'')), r) \<in> block_history_of ''0xaa'' ?t
      \<and> \<not> is_resign False r (bc_signing_root (block_cand 40 (Some ''0x02'')))"
    using refb by (intro exI [of _ None]) (simp add: is_resign_def)
  obtain v pv where "v \<in> set (if_data f)" "vr_pubkey v = ''0xaa''" "parse_interchange_validator v = Inr pv"
    "importer_refuses_attestation (pv_attestations pv) (att_cand 4 6 None)"
    "importer_refuses_block (pv_blocks pv) (block_cand 40 (Some ''0x02''))"
    using export_protects_any_importer [OF run wf pk] ref refb' by blast
  then show ?thesis unfolding run Let_def prod.case sum.case by blast
qed

text \<open>
  The one refusal that does not travel: a vote between the floor pair and the oldest row kept is
  refused here as \<open>TargetEpochBelowMinimum\<close>, but the file gives an importer no reason to refuse
  it.
\<close>

lemma export_forgets_below_minimum:
  "fst (on_conn (evaluate_attestation True ''0xaa'' 5 7 (Some ''0x02'')) export_fixture)
     = Inl (SlashableAttestation (TargetEpochBelowMinimum 7 10))
   \<and> (case fst (export hex_ref (replicate 32 7) export_fixture) of
        Inl e \<Rightarrow> False
      | Inr f \<Rightarrow> (case parse_interchange f of
          Inl e \<Rightarrow> False
        | Inr pvs \<Rightarrow> pvs \<noteq> [] \<and> list_all (\<lambda>pv. \<not> importer_refuses_attestation (pv_attestations pv)
            (att_cand 5 7 (Some ''0x02''))) pvs))"
  by code_simp

end
