(* ===== verification/Slashing_Import.thy ===== *)
theory Slashing_Import
  imports Slashing_Interchange
begin

text \<open>
  The laws of \<open>import\<close> and of \<open>set_genesis_validators_root\<close>: an import is all or nothing,
  keeps every row and floor, and covers every record of the file; what a file exported by one
  database refused is refused after importing it into any other; pinning a root never changes the
  chain of a database and leaves the canonical text that the reserve path compares with.
\<close>

section \<open>Growth\<close>

definition grown :: "tables \<Rightarrow> tables \<Rightarrow> bool" where
  "grown t t' \<longleftrightarrow> tables_ok t' \<and> floors_raised t t' \<and> metadata t' = metadata t
     \<and> set (attestations t) \<subseteq> set (attestations t') \<and> set (blocks t) \<subseteq> set (blocks t')"

lemma grown_refl [simp]: "tables_ok t \<Longrightarrow> grown t t"
  by (simp add: grown_def)

lemma grown_ok: "grown t t' \<Longrightarrow> tables_ok t'"
  by (simp add: grown_def)

lemma grown_trans: "grown a b \<Longrightarrow> grown b c \<Longrightarrow> grown a c"
  by (auto simp: grown_def intro: floors_raised_trans)

lemma raises_grown: "raises pk k v t t' \<Longrightarrow> grown t t'"
  using raises_floors [of pk k v t t'] by (auto simp: grown_def raises_def same_history_def)

lemma txn_spec_forE:
  assumes body: "\<And>x. x \<in> set xs \<Longrightarrow> txn_spec (\<lambda>t _ t'. tables_ok t \<longrightarrow> grown t t' \<and> P x t') (f x)"
    and stable: "\<And>x t t'. P x t \<Longrightarrow> grown t t' \<Longrightarrow> P x t'"
  shows "txn_spec (\<lambda>t _ t'. tables_ok t \<longrightarrow> grown t t' \<and> (\<forall>x\<in>set xs. P x t')) (forE xs f)"
  using body
proof (induction xs)
  case Nil
  show ?case unfolding forE.simps by (rule txn_spec_mono [OF txn_spec_ret]) auto
next
  case (Cons x xs)
  have step: "tables_ok t \<longrightarrow> grown t t'' \<and> (\<forall>y\<in>set (x # xs). P y t'')"
    if "tables_ok t \<longrightarrow> grown t t' \<and> P x t'" "tables_ok t' \<longrightarrow> grown t' t'' \<and> (\<forall>y\<in>set xs. P y t'')" for t t' t''
    using that stable grown_ok [of t t'] by (auto intro: grown_trans)
  have hd: "txn_spec (\<lambda>t _ t'. tables_ok t \<longrightarrow> grown t t' \<and> P x t') (f x)"
    by (rule Cons.prems) simp
  have tl: "txn_spec (\<lambda>t _ t'. tables_ok t \<longrightarrow> grown t t' \<and> (\<forall>y\<in>set xs. P y t')) (forE xs f)"
    by (rule Cons.IH, rule Cons.prems) simp
  show ?case unfolding forE.simps
    by (rule txn_spec_mono [OF txn_spec_bind [OF hd tl]]) (elim exE conjE, rule step)
qed

section \<open>What an import leaves behind\<close>

definition covers_attestation :: "string \<Rightarrow> tables \<Rightarrow> parsed_attestation \<Rightarrow> bool" where
  "covers_attestation pk t a \<longleftrightarrow>
     wm_le (Some (pa_source_epoch a)) (watermark_of pk AttestationSource t)
     \<and> wm_le (Some (pa_target_epoch a)) (watermark_of pk AttestationTarget t)"

definition covers_block :: "string \<Rightarrow> tables \<Rightarrow> parsed_block \<Rightarrow> bool" where
  "covers_block pk t b \<longleftrightarrow> wm_le (Some (pb_slot b)) (watermark_of pk Block t)"

definition recorded_attestation :: "string \<Rightarrow> tables \<Rightarrow> parsed_attestation \<Rightarrow> bool" where
  "recorded_attestation pk t a \<longleftrightarrow>
     (\<exists>r\<in>set (attestations t). ar_pubkey r = pk \<and> ar_target r = as_i64 (pa_target_epoch a))"

definition recorded_block :: "string \<Rightarrow> tables \<Rightarrow> parsed_block \<Rightarrow> bool" where
  "recorded_block pk t b \<longleftrightarrow>
     (\<exists>r\<in>set (blocks t). br_pubkey r = pk \<and> br_slot r = as_i64 (pb_slot b))"

definition imported :: "parsed_validator \<Rightarrow> tables \<Rightarrow> bool" where
  "imported v t \<longleftrightarrow>
     (\<forall>a\<in>set (pv_attestations v). covers_attestation (pv_pubkey v) t a \<and> recorded_attestation (pv_pubkey v) t a)
     \<and> (\<forall>b\<in>set (pv_blocks v). covers_block (pv_pubkey v) t b \<and> recorded_block (pv_pubkey v) t b)"

lemma grown_wm_le: "grown t t' \<Longrightarrow> wm_le a (watermark_of pk k t) \<Longrightarrow> wm_le a (watermark_of pk k t')"
  by (meson grown_def floors_raised_def wm_le_trans)

lemma recorded_stable:
  "recorded_attestation pk t a \<Longrightarrow> grown t t' \<Longrightarrow> recorded_attestation pk t' a"
  "recorded_block pk t b \<Longrightarrow> grown t t' \<Longrightarrow> recorded_block pk t' b"
  unfolding recorded_attestation_def recorded_block_def grown_def by blast+

lemma imported_stable: "imported v t \<Longrightarrow> grown t t' \<Longrightarrow> imported v t'"
  unfolding imported_def covers_attestation_def covers_block_def
  by (meson grown_wm_le recorded_stable)

definition attestation_in_range :: "parsed_attestation \<Rightarrow> bool" where
  "attestation_in_range a \<longleftrightarrow> i64_safe (pa_source_epoch a) \<and> i64_safe (pa_target_epoch a)"

definition validator_in_range :: "parsed_validator \<Rightarrow> bool" where
  "validator_in_range v \<longleftrightarrow> list_all attestation_in_range (pv_attestations v)
     \<and> list_all (\<lambda>b. i64_safe (pb_slot b)) (pv_blocks v)"

lemma watermark_of_rows:
  "watermark_of pk k (t\<lparr>attestations := as\<rparr>) = watermark_of pk k t"
  "watermark_of pk k (t\<lparr>blocks := bs\<rparr>) = watermark_of pk k t"
  by (simp_all add: watermark_of_def)

lemma txn_spec_import_attestation:
  assumes "attestation_in_range a"
  shows "txn_spec (\<lambda>t _ t'. tables_ok t \<longrightarrow> grown t t' \<and> recorded_attestation pk t' a) (import_attestation pk g a)"
proof -
  let ?r = "att_row_of pk (pa_source_epoch a) (pa_target_epoch a) (pa_signing_root a) g"
  have "grown t t' \<and> recorded_attestation pk t' a"
    if ok: "tables_ok t" and ins: "insert_attestation_if_absent ?r t = (k, t')" for t k t'
  proof -
    have "tables_ok t'"
      using insert_attestation_if_absent_ok [OF ok, of ?r] assms ins
      by (simp add: att_row_of_def attestation_in_range_def safe_as_i64)
    then show ?thesis
      using ins by (auto simp: insert_attestation_if_absent_def grown_def recorded_attestation_def
          floors_raised_def watermark_of_rows att_row_of_def split: if_splits)
  qed
  then show ?thesis unfolding import_attestation_def
    by (intro txn_spec_mono [OF txn_spec_bind [OF txn_spec_execute txn_spec_ret]]) auto
qed

lemma txn_spec_import_block:
  assumes "i64_safe (pb_slot b)"
  shows "txn_spec (\<lambda>t _ t'. tables_ok t \<longrightarrow> grown t t' \<and> recorded_block pk t' b) (import_block pk g b)"
proof -
  let ?r = "block_row_of pk (pb_slot b) (pb_signing_root b) g"
  have "grown t t' \<and> recorded_block pk t' b"
    if ok: "tables_ok t" and ins: "insert_block_if_absent ?r t = (k, t')" for t k t'
  proof -
    have "tables_ok t'"
      using insert_block_if_absent_ok [OF ok, of ?r] assms ins
      by (simp add: block_row_of_def safe_as_i64)
    then show ?thesis
      using ins by (auto simp: insert_block_if_absent_def grown_def recorded_block_def
          floors_raised_def watermark_of_rows block_row_of_def split: if_splits)
  qed
  then show ?thesis unfolding import_block_def
    by (intro txn_spec_mono [OF txn_spec_bind [OF txn_spec_execute txn_spec_ret]]) auto
qed

lemma raises_wm_le: "raises pk k v t t' \<Longrightarrow> x \<le> v \<Longrightarrow> wm_le (Some x) (watermark_of pk k t')"
  by (auto simp: raises_def wm_le_def max_wm_def max_def split: option.splits)

lemma txn_spec_raise_max:
  assumes "i64_safe v"
  shows "txn_spec (\<lambda>t _ t'. tables_ok t \<longrightarrow> grown t t' \<and> (\<forall>x. x \<le> v \<longrightarrow> wm_le (Some x) (watermark_of pk k t')))
     (raise_watermark_max pk k v)"
  by (rule txn_spec_mono [OF txn_spec_raise_watermark_max [OF assms]])
    (auto intro: raises_grown raises_wm_le)

text \<open>The maxima of a parsed validator are the largest of its numbers.\<close>

definition maxima_ok :: "parsed_validator \<Rightarrow> bool" where
  "maxima_ok v \<longleftrightarrow> pv_max_source v = max_opt (map pa_source_epoch (pv_attestations v))
     \<and> pv_max_target v = max_opt (map pa_target_epoch (pv_attestations v))
     \<and> pv_max_slot v = max_opt (map pb_slot (pv_blocks v))"

lemma parse_interchange_validator_maxima: "parse_interchange_validator r = Inr v \<Longrightarrow> maxima_ok v"
  by (auto simp: parse_interchange_validator_def maxima_ok_def running_max_eq split: sum.splits)

lemma parse_interchange_mem:
  assumes "parse_interchange f = Inr vs"
  shows "v \<in> set vs \<Longrightarrow> \<exists>r\<in>set (if_data f). parse_interchange_validator r = Inr v"
    and "r \<in> set (if_data f) \<Longrightarrow> \<exists>v\<in>set vs. parse_interchange_validator r = Inr v"
  using assms unfolding parse_interchange_def parse_all_Inr list_all2_conv_all_nth
  by (metis in_set_conv_nth)+

lemma parse_interchange_maxima: "parse_interchange f = Inr vs \<Longrightarrow> v \<in> set vs \<Longrightarrow> maxima_ok v"
  using parse_interchange_mem(1) parse_interchange_validator_maxima by blast

lemma maxima_Some:
  assumes "maxima_ok v"
  shows "pv_max_slot v = Some m \<longleftrightarrow> m \<in> pb_slot ` set (pv_blocks v) \<and> (\<forall>b\<in>set (pv_blocks v). pb_slot b \<le> m)"
    "pv_max_source v = Some m \<longleftrightarrow> m \<in> pa_source_epoch ` set (pv_attestations v)
       \<and> (\<forall>a\<in>set (pv_attestations v). pa_source_epoch a \<le> m)"
    "pv_max_target v = Some m \<longleftrightarrow> m \<in> pa_target_epoch ` set (pv_attestations v)
       \<and> (\<forall>a\<in>set (pv_attestations v). pa_target_epoch a \<le> m)"
  using assms by (simp_all add: maxima_ok_def max_opt_Some)

lemma txn_spec_import_watermarks:
  assumes ok: "validator_in_range v" "maxima_ok v"
  shows "txn_spec (\<lambda>t _ t'. tables_ok t \<longrightarrow> grown t t'
      \<and> (\<forall>a\<in>set (pv_attestations v). covers_attestation (pv_pubkey v) t' a)
      \<and> (\<forall>b\<in>set (pv_blocks v). covers_block (pv_pubkey v) t' b)) (import_watermarks v)"
proof -
  let ?pk = "pv_pubkey v"
  define B where "B t' \<longleftrightarrow> (\<forall>b\<in>set (pv_blocks v). covers_block ?pk t' b)" for t'
  define A where "A t' \<longleftrightarrow> (\<forall>a\<in>set (pv_attestations v). covers_attestation ?pk t' a)" for t'
  have B_mono: "B t \<Longrightarrow> grown t t' \<Longrightarrow> B t'" for t t'
    by (auto simp: B_def covers_block_def intro: grown_wm_le)
  have blk: "txn_spec (\<lambda>t _ t'. tables_ok t \<longrightarrow> grown t t' \<and> B t')
      (case pv_max_slot v of Some sl \<Rightarrow> raise_watermark_max ?pk Block sl | None \<Rightarrow> retE ())"
  proof (cases "pv_max_slot v")
    case None
    then have "pv_blocks v = []" using ok(2) by (metis maxima_ok_def max_opt_None map_is_Nil_conv)
    then have "B t" for t by (simp add: B_def)
    with None show ?thesis by (auto intro: txn_spec_mono [OF txn_spec_ret])
  next
    case (Some sl)
    then have "i64_safe sl" "\<forall>b\<in>set (pv_blocks v). pb_slot b \<le> sl"
      using ok(1) by (auto simp: maxima_Some(1) [OF ok(2)] validator_in_range_def list_all_iff)
    with Some show ?thesis
      by (auto simp: B_def covers_block_def intro: txn_spec_mono [OF txn_spec_raise_max])
  qed
  have att: "txn_spec (\<lambda>t _ t'. tables_ok t \<longrightarrow> grown t t' \<and> A t')
      (case (pv_max_source v, pv_max_target v) of
        (Some s, Some t) \<Rightarrow> bindE (raise_watermark_max ?pk AttestationSource s)
          (\<lambda>_. raise_watermark_max ?pk AttestationTarget t)
      | _ \<Rightarrow> retE ())"
  proof (cases "pv_attestations v = []")
    case True
    then have "A t" for t by (simp add: A_def)
    with True ok(2) show ?thesis by (auto simp: maxima_ok_def max_opt_def intro: txn_spec_mono [OF txn_spec_ret])
  next
    case False
    then obtain s t where st: "pv_max_source v = Some s" "pv_max_target v = Some t"
      using ok(2) by (auto simp: maxima_ok_def max_opt_def)
    then have safe: "i64_safe s" "i64_safe t"
      and le: "\<forall>a\<in>set (pv_attestations v). pa_source_epoch a \<le> s \<and> pa_target_epoch a \<le> t"
      using ok(1) by (auto simp: maxima_Some(2,3) [OF ok(2)] validator_in_range_def attestation_in_range_def list_all_iff)
    have step: "grown t0 t2 \<and> A t2"
      if "grown t0 t1 \<and> (\<forall>x. x \<le> s \<longrightarrow> wm_le (Some x) (watermark_of ?pk AttestationSource t1))"
        "grown t1 t2 \<and> (\<forall>x. x \<le> t \<longrightarrow> wm_le (Some x) (watermark_of ?pk AttestationTarget t2))" for t0 t1 t2
      using that le unfolding A_def covers_attestation_def by (meson grown_trans grown_wm_le)
    show ?thesis unfolding st prod.case option.case
      by (rule txn_spec_mono [OF txn_spec_bind [OF txn_spec_raise_max [OF safe(1)] txn_spec_raise_max [OF safe(2)]]])
        (use step grown_ok in blast)
  qed
  have "txn_spec (\<lambda>t _ t'. tables_ok t \<longrightarrow> grown t t' \<and> A t' \<and> B t') (import_watermarks v)"
    unfolding import_watermarks_def
    by (rule txn_spec_mono [OF txn_spec_bind [OF blk att]]) (use B_mono grown_ok grown_trans in blast)
  then show ?thesis by (simp add: A_def B_def)
qed

lemma txn_spec_import_validator:
  assumes ok: "validator_in_range v" "maxima_ok v"
  shows "txn_spec (\<lambda>t _ t'. tables_ok t \<longrightarrow> grown t t' \<and> imported v t') (import_validator g v)"
proof -
  have range: "a \<in> set (pv_attestations v) \<Longrightarrow> attestation_in_range a" "b \<in> set (pv_blocks v) \<Longrightarrow> i64_safe (pb_slot b)" for a b
    using ok(1) by (auto simp: validator_in_range_def list_all_iff)
  have atts: "txn_spec (\<lambda>t _ t'. tables_ok t \<longrightarrow> grown t t' \<and> (\<forall>a\<in>set (pv_attestations v). recorded_attestation (pv_pubkey v) t' a))
      (forE (pv_attestations v) (import_attestation (pv_pubkey v) g))"
    by (rule txn_spec_forE) (fact txn_spec_import_attestation [OF range(1)], fact recorded_stable(1))
  have blks: "txn_spec (\<lambda>t _ t'. tables_ok t \<longrightarrow> grown t t' \<and> (\<forall>b\<in>set (pv_blocks v). recorded_block (pv_pubkey v) t' b))
      (forE (pv_blocks v) (import_block (pv_pubkey v) g))"
    by (rule txn_spec_forE) (fact txn_spec_import_block [OF range(2)], fact recorded_stable(2))
  have step: "grown t0 t3 \<and> imported v t3"
    if 1: "grown t0 t1 \<and> (\<forall>a\<in>set (pv_attestations v). recorded_attestation (pv_pubkey v) t1 a)"
      and 2: "grown t1 t2 \<and> (\<forall>b\<in>set (pv_blocks v). recorded_block (pv_pubkey v) t2 b)"
      and 3: "grown t2 t3 \<and> (\<forall>a\<in>set (pv_attestations v). covers_attestation (pv_pubkey v) t3 a)
        \<and> (\<forall>b\<in>set (pv_blocks v). covers_block (pv_pubkey v) t3 b)" for t0 t1 t2 t3
  proof -
    have "grown t1 t3" "grown t0 t3" using 1 2 3 grown_trans by blast+
    with 1 2 3 show ?thesis unfolding imported_def by (meson recorded_stable)
  qed
  show ?thesis unfolding import_validator_def
    by (rule txn_spec_mono [OF txn_spec_bind [OF atts txn_spec_bind [OF blks txn_spec_import_watermarks [OF ok]]]])
      (elim exE conjE, intro impI, rule step, auto dest: grown_ok)
qed

lemma import_run:
  assumes run: "import hx f g d = (x, d')" and ok: "tables_ok (committed (sd_conn d))"
    and range: "\<And>vs. parse_interchange f = Inr vs \<Longrightarrow> list_all validator_in_range vs"
  shows "case x of Inl e \<Rightarrow> committed (sd_conn d') = committed (sd_conn d)
    | Inr _ \<Rightarrow> (\<exists>vs. parse_interchange f = Inr vs \<and> validate_interchange_metadata hx f g = Inr ()
        \<and> grown (committed (sd_conn d)) (committed (sd_conn d'))
        \<and> (\<forall>v\<in>set vs. imported v (committed (sd_conn d'))))"
proof (cases "validate_interchange_metadata hx f g")
  case (Inl e)
  then have "import hx f g d = (Inl e, d)" by (simp add: import_def bindE_def lift_sum_def)
  with run show ?thesis by auto
next
  case meta: (Inr u)
  show ?thesis
  proof (cases "parse_interchange f")
    case (Inl e)
    with meta have "import hx f g d = (Inl e, d)" by (simp add: import_def bindE_def lift_sum_def)
    with run show ?thesis by auto
  next
    case (Inr vs)
    have each: "v \<in> set vs \<Longrightarrow> validator_in_range v \<and> maxima_ok v" for v
      using range [OF Inr] parse_interchange_maxima [OF Inr] by (auto simp: list_all_iff)
    have spec: "txn_spec (\<lambda>t _ t'. tables_ok t \<longrightarrow> grown t t' \<and> (\<forall>v\<in>set vs. imported v t'))
        (forE vs (import_validator (gvr_hex_of_root hx g)))"
      by (rule txn_spec_forE [OF txn_spec_import_validator imported_stable]) (use each in auto)
    obtain c where c: "in_transaction (forE vs (import_validator (gvr_hex_of_root hx g))) (sd_conn d) = (x, c)"
      and d': "d' = d\<lparr>sd_conn := c\<rparr>"
      using run meta Inr by (auto simp: import_def bindE_def lift_sum_def on_conn_iff)
    from in_transaction_run [OF spec c] ok d' meta Inr show ?thesis by (cases x) auto
  qed
qed

lemma covered_excludes_attestation:
  assumes "covers_attestation pk t a" "above_att_floors (att_floors pk t) c"
  shows "ac_target_epoch c \<noteq> pa_target_epoch a
    \<and> \<not> surrounds (ac_span c) (pa_source_epoch a, pa_target_epoch a)
    \<and> \<not> surrounds (pa_source_epoch a, pa_target_epoch a) (ac_span c)"
  using assms by (auto simp: covers_attestation_def wm_le_def above_att_floors_def att_floors_def surrounds_def)

lemma covered_excludes_block:
  assumes "covers_block pk t b" "above_block_floor (block_floor pk t) c"
  shows "bc_slot c \<noteq> pb_slot b"
  using assms by (auto simp: covers_block_def wm_le_def above_block_floor_def block_floor_def)

lemma admits_above_floors:
  "admits t (SpecAttestation pk s tg r g gh) ins \<Longrightarrow> above_att_floors (att_floors pk t) (att_cand s tg r)"
  "admits t (SpecBlock pk sl r g gh) ins \<Longrightarrow> above_block_floor (block_floor pk t) (block_cand sl r)"
  by simp_all

text \<open>Every new attestation row of an import is one of the file.\<close>

definition file_row :: "parsed_validator list \<Rightarrow> att_row \<Rightarrow> bool" where
  "file_row vs r \<longleftrightarrow> (\<exists>v\<in>set vs. \<exists>a\<in>set (pv_attestations v).
     ar_pubkey r = pv_pubkey v \<and> ar_target r = as_i64 (pa_target_epoch a))"

definition rows_within :: "(att_row \<Rightarrow> bool) \<Rightarrow> tables \<Rightarrow> tables \<Rightarrow> bool" where
  "rows_within P t t' \<longleftrightarrow> (\<forall>r\<in>set (attestations t'). r \<in> set (attestations t) \<or> P r)"

lemma rows_within_bind:
  assumes "txn_spec (\<lambda>t _ t'. rows_within P t t') m" "\<And>x. txn_spec (\<lambda>t _ t'. rows_within P t t') (f x)"
  shows "txn_spec (\<lambda>t _ t'. rows_within P t t') (bindE m f)"
  by (rule txn_spec_mono [OF txn_spec_bind [OF assms]]) (auto simp: rows_within_def)

lemma rows_within_ret: "txn_spec (\<lambda>t _ t'. rows_within P t t') (retE x)"
  by (rule txn_spec_mono [OF txn_spec_ret]) (simp add: rows_within_def)

lemma rows_within_forE:
  assumes "\<And>x. x \<in> set xs \<Longrightarrow> txn_spec (\<lambda>t _ t'. rows_within P t t') (f x)"
  shows "txn_spec (\<lambda>t _ t'. rows_within P t t') (forE xs f)"
  using assms by (induction xs) (auto intro: rows_within_ret rows_within_bind)

lemma rows_within_import_validator:
  assumes "v \<in> set vs"
  shows "txn_spec (\<lambda>t _ t'. rows_within (file_row vs) t t') (import_validator g v)"
proof -
  have att: "txn_spec (\<lambda>t _ t'. rows_within (file_row vs) t t') (import_attestation (pv_pubkey v) g a)"
    if a: "a \<in> set (pv_attestations v)" for a
  proof -
    have "file_row vs (att_row_of (pv_pubkey v) (pa_source_epoch a) (pa_target_epoch a) (pa_signing_root a) g)"
      unfolding file_row_def att_row_of_def using assms a by fastforce
    then show ?thesis unfolding import_attestation_def
      by (intro txn_spec_mono [OF txn_spec_bind [OF txn_spec_execute txn_spec_ret]])
        (auto simp: rows_within_def insert_attestation_if_absent_def split: if_splits)
  qed
  have blk: "txn_spec (\<lambda>t _ t'. rows_within (file_row vs) t t') (import_block (pv_pubkey v) g b)" for b
    unfolding import_block_def
    by (intro txn_spec_mono [OF txn_spec_bind [OF txn_spec_execute txn_spec_ret]])
      (auto simp: rows_within_def insert_block_if_absent_def split: if_splits)
  have raise: "txn_spec (\<lambda>t _ t'. rows_within (file_row vs) t t') (raise_watermark_max pk k x)" for pk k x
    unfolding raise_watermark_max_def
    by (intro txn_spec_mono [OF txn_spec_bind [OF txn_spec_execute txn_spec_ret]])
      (auto simp: rows_within_def upsert_watermark_max_def)
  show ?thesis unfolding import_validator_def import_watermarks_def
    by (intro rows_within_bind rows_within_forE att blk)
      (auto intro!: raise rows_within_ret rows_within_bind split: option.splits)
qed

lemma import_rows:
  assumes run: "import hx f g d = (Inr u, d')" and vs: "parse_interchange f = Inr vs"
  shows "rows_within (file_row vs) (committed (sd_conn d)) (committed (sd_conn d'))"
proof -
  obtain c where c: "in_transaction (forE vs (import_validator (gvr_hex_of_root hx g))) (sd_conn d) = (Inr u, c)"
    and d': "d' = d\<lparr>sd_conn := c\<rparr>"
    using run vs by (cases "validate_interchange_metadata hx f g")
      (auto simp: import_def bindE_def lift_sum_def on_conn_iff)
  have "txn_spec (\<lambda>t _ t'. rows_within (file_row vs) t t') (forE vs (import_validator (gvr_hex_of_root hx g)))"
    by (rule rows_within_forE) (rule rows_within_import_validator)
  from in_transaction_run [OF this c] d' show ?thesis by simp
qed

text \<open>
  C12: an import is all or nothing, and it covers the file. A failed import leaves the durable
  tables as they were. After a successful one no row is lost, no floor is lowered, and for every
  attestation of the file no later candidate that the tables admit is a double vote with it or
  surrounds it or is surrounded by it; likewise no admitted block is at the slot of a block of
  the file. Epochs and slots of the file are below \<open>2^63\<close>.
\<close>

theorem import_covers_file:
  assumes "import hx f g d = (x, d')" "tables_ok (committed (sd_conn d))"
    and "parse_interchange f = Inr vs" "list_all validator_in_range vs"
  shows "case x of
      Inl e \<Rightarrow> committed (sd_conn d') = committed (sd_conn d)
    | Inr _ \<Rightarrow> grown (committed (sd_conn d)) (committed (sd_conn d'))
        \<and> (\<forall>v\<in>set vs. \<forall>s tg r g' gh ins.
             admits (committed (sd_conn d')) (SpecAttestation (pv_pubkey v) s tg r g' gh) ins \<longrightarrow>
             (\<forall>a\<in>set (pv_attestations v). tg \<noteq> pa_target_epoch a
                \<and> \<not> surrounds (s, tg) (pa_source_epoch a, pa_target_epoch a)
                \<and> \<not> surrounds (pa_source_epoch a, pa_target_epoch a) (s, tg)))
        \<and> (\<forall>v\<in>set vs. \<forall>sl r g' gh ins.
             admits (committed (sd_conn d')) (SpecBlock (pv_pubkey v) sl r g' gh) ins \<longrightarrow>
             (\<forall>b\<in>set (pv_blocks v). sl \<noteq> pb_slot b))"
proof (cases x)
  case (Inl e)
  with import_run [OF assms(1,2)] assms(3,4) show ?thesis by simp
next
  case (Inr u)
  with import_run [OF assms(1,2)] assms(3,4) have grown: "grown (committed (sd_conn d)) (committed (sd_conn d'))"
    and imp: "v \<in> set vs \<Longrightarrow> imported v (committed (sd_conn d'))" for v by auto
  have atts: "tg \<noteq> pa_target_epoch a \<and> \<not> surrounds (s, tg) (pa_source_epoch a, pa_target_epoch a)
      \<and> \<not> surrounds (pa_source_epoch a, pa_target_epoch a) (s, tg)"
    if "v \<in> set vs" "a \<in> set (pv_attestations v)"
      "admits (committed (sd_conn d')) (SpecAttestation (pv_pubkey v) s tg r g' gh) ins" for v a s tg r g' gh ins
    using covered_excludes_attestation [OF _ admits_above_floors(1) [OF that(3)], of a] imp [OF that(1)] that(2)
    by (simp add: imported_def)
  have blks: "sl \<noteq> pb_slot b"
    if "v \<in> set vs" "b \<in> set (pv_blocks v)"
      "admits (committed (sd_conn d')) (SpecBlock (pv_pubkey v) sl r g' gh) ins" for v b sl r g' gh ins
    using covered_excludes_block [OF _ admits_above_floors(2) [OF that(3)], of b] imp [OF that(1)] that(2)
    by (simp add: imported_def)
  show ?thesis unfolding Inr sum.case using grown atts blks by blast
qed

definition import_fixture :: interchange_format where
  "import_fixture = \<lparr>if_metadata = \<lparr>interchange_format_version = ''5'',
     im_genesis_validators_root = gvr_hex_of_root hex_ref (replicate 32 7)\<rparr>,
     if_data = [\<lparr>vr_pubkey = ''AA'', vr_signed_blocks = [\<lparr>ib_slot = ''41'', ib_signing_root = None\<rparr>],
       vr_signed_attestations = [\<lparr>ia_source_epoch = ''3'', ia_target_epoch = ''9'', ia_signing_root = Some ''0x01''\<rparr>,
         \<lparr>ia_source_epoch = ''4'', ia_target_epoch = ''8'', ia_signing_root = None\<rparr>]\<rparr>]\<rparr>"

lemma import_fixture_parsed:
  "parse_interchange import_fixture = Inr [\<lparr>pv_pubkey = ''0xaa'',
     pv_attestations = [\<lparr>pa_source_epoch = 3, pa_target_epoch = 9, pa_signing_root = Some ''0x01''\<rparr>,
       \<lparr>pa_source_epoch = 4, pa_target_epoch = 8, pa_signing_root = None\<rparr>],
     pv_blocks = [\<lparr>pb_slot = 41, pb_signing_root = None\<rparr>],
     pv_max_source = Some 4, pv_max_target = Some 9, pv_max_slot = Some 41\<rparr>]"
  by code_simp

theorem import_covers_file_witness:
  "let (x, d') = import hex_ref import_fixture (replicate 32 7) (fresh_db []) in
   x = Inr () \<and> grown empty_tables (committed (sd_conn d'))
   \<and> admits (committed (sd_conn d')) (SpecAttestation ''0xaa'' 4 10 None [] []) True"
proof -
  obtain x d' where run: "import hex_ref import_fixture (replicate 32 7) (fresh_db []) = (x, d')" by fastforce
  have "fst (import hex_ref import_fixture (replicate 32 7) (fresh_db [])) = Inr ()" by code_simp
  with run have x: "x = Inr ()" by simp
  have "admits (committed (sd_conn (snd (import hex_ref import_fixture (replicate 32 7) (fresh_db [])))))
      (SpecAttestation ''0xaa'' 4 10 None [] []) True" by code_simp
  with run have adm: "admits (committed (sd_conn d')) (SpecAttestation ''0xaa'' 4 10 None [] []) True" by simp
  have ok: "tables_ok (committed (sd_conn (fresh_db [])))" by code_simp
  have "committed (sd_conn (fresh_db [])) = empty_tables" by code_simp
  with import_covers_file [OF run ok import_fixture_parsed] x adm run show ?thesis
    by (simp add: validator_in_range_def attestation_in_range_def i64_safe_def)
qed

section \<open>Export, then import\<close>

lemma safe_bound: "i64_safe w \<longleftrightarrow> w \<le> 0x7FFFFFFFFFFFFFFF"
  by (simp add: i64_safe_def word_le_nat_alt word_less_nat_alt) arith

lemma watermark_of_safe: "tables_ok t \<Longrightarrow> watermark_of pk k t = Some w \<Longrightarrow> i64_safe w"
  by (auto simp: watermark_of_def tables_ok_def safe_as_u64 dest: find_wm_safe)

lemma att_rows_safe:
  assumes "tables_ok t" "r \<in> set (att_rows_of pk t)"
  shows "i64_safe (as_u64 (ar_source r))" "i64_safe (as_u64 (ar_target r))"
  using safe_rows_of(1) [of t r pk] assms by (simp_all add: tables_ok_def safe_as_u64)

lemma block_rows_safe:
  assumes "tables_ok t" "r \<in> set (block_rows_of pk t)"
  shows "i64_safe (as_u64 (br_slot r))"
  using safe_rows_of(2) [of t r pk] assms by (simp add: tables_ok_def safe_as_u64)

lemma synthetic_bounds_safe:
  assumes ok: "tables_ok t" and wm: "i64_safe ws" "i64_safe wt"
    and b: "synthetic_bounds_from (map att_row_span (sort_key ar_target (att_rows_of pk t))) ws wt = (sb, tb)"
  shows "i64_safe sb \<and> i64_safe tb"
proof -
  have "floor_pair (map att_row_span (sort_key ar_target (att_rows_of pk t))) ws wt (0x7FFFFFFFFFFFFFFF, 0x7FFFFFFFFFFFFFFF)"
    using wm att_rows_safe [OF ok] by (auto simp: floor_pair_def att_row_span_def safe_bound)
  from synthetic_bounds_least [OF this, of wt] wm b show ?thesis by (simp add: safe_bound)
qed

lemma exported_in_range:
  assumes ok: "tables_ok t" and rec: "export_record t pk = Inr (v, n)" and pv: "parse_interchange_validator v = Inr pv"
  shows "validator_in_range pv"
proof -
  have "list_all (\<lambda>b. i64_safe (pb_slot b)) (pv_blocks pv)"
    using export_record_blocks [OF rec pv] block_rows_safe [OF ok] watermark_of_safe [OF ok]
    by (auto simp: list_all_iff split: option.splits)
  moreover have "list_all attestation_in_range (pv_attestations pv)"
    using rec
  proof (cases rule: export_record_parsed)
    case (no_floor pv')
    with pv att_rows_safe [OF ok] show ?thesis by (auto simp: list_all_iff attestation_in_range_def)
  next
    case (floor pv' ws wt sb tb)
    with synthetic_bounds_safe [OF ok _ _ floor(5)] watermark_of_safe [OF ok] pv att_rows_safe [OF ok]
    show ?thesis by (auto simp: list_all_iff attestation_in_range_def)
  qed
  ultimately show ?thesis by (simp add: validator_in_range_def)
qed

lemma exported_mem:
  assumes "exported hx g t f" "v \<in> set (if_data f)"
  obtains pk n where "export_record t pk = Inr (v, n)"
  using assms unfolding exported_def list_all2_conv_all_nth in_set_conv_nth by metis

text \<open>An exported file passes the metadata check and parses, with every number in range.\<close>

lemma exported_parses:
  assumes ok: "tables_ok t" and ex: "exported hx g t f"
  shows "\<exists>vs. parse_interchange f = Inr vs \<and> list_all validator_in_range vs"
proof -
  have "\<exists>pv. parse_interchange_validator v = Inr pv \<and> validator_in_range pv" if mem: "v \<in> set (if_data f)" for v
  proof -
    obtain pk n where rec: "export_record t pk = Inr (v, n)" using ex mem by (rule exported_mem)
    then obtain pv where "parse_interchange_validator v = Inr pv" by (rule export_record_parsed)
    with exported_in_range [OF ok rec] show ?thesis by blast
  qed
  then have "\<exists>vs. parse_all parse_interchange_validator xs = Inr vs \<and> list_all validator_in_range vs"
    if "set xs \<subseteq> set (if_data f)" for xs
    using that by (induction xs) fastforce+
  then show ?thesis by (simp add: parse_interchange_def)
qed

lemma exported_metadata_valid:
  assumes "hex_codec_ok hx" "length g = 32" "exported hx g t f"
  shows "validate_interchange_metadata hx f g = Inr ()"
  using assms parse_gvr_hex_of_root by (auto simp: exported_def validate_interchange_metadata_def Let_def)

text \<open>Coverage of the exported records covers the floors and rows they came from.\<close>

lemma imported_covers_origin:
  assumes rec: "export_record t pk = Inr (v, n)" and pv: "parse_interchange_validator v = Inr pv"
    and imp: "imported pv t'" and key: "normalize_pubkey pk = pk"
  shows "wm_le (watermark_of pk k t) (watermark_of pk k t')"
    and "r \<in> set (att_rows_of pk t) \<Longrightarrow>
      wm_le (Some (as_u64 (ar_source r))) (watermark_of pk AttestationSource t')
      \<and> wm_le (Some (as_u64 (ar_target r))) (watermark_of pk AttestationTarget t')"
    and "b \<in> set (block_rows_of pk t) \<Longrightarrow> wm_le (Some (as_u64 (br_slot b))) (watermark_of pk Block t')"
proof -
  have "vr_pubkey v = pk" using rec by (auto simp: export_record_def split: sum.splits prod.splits)
  then have pvk: "pv_pubkey pv = pk" using pv key by (auto simp: parse_interchange_validator_def split: sum.splits)
  have wm_le_Some: "x \<le> y \<Longrightarrow> wm_le (Some y) w \<Longrightarrow> wm_le (Some x) w" for x y :: u64 and w
    by (fastforce simp: wm_le_def)
  have atts: "(\<forall>k. k \<noteq> Block \<longrightarrow> wm_le (watermark_of pk k t) (watermark_of pk k t'))
      \<and> (\<forall>r\<in>set (att_rows_of pk t). wm_le (Some (as_u64 (ar_source r))) (watermark_of pk AttestationSource t')
        \<and> wm_le (Some (as_u64 (ar_target r))) (watermark_of pk AttestationTarget t'))"
    using rec
  proof (cases rule: export_record_parsed)
    case (no_floor pv')
    have "wm_le (watermark_of pk k t) (watermark_of pk k t')" if "k \<noteq> Block" for k
      using no_floor(2,3) that by (cases k) (simp_all add: wm_le_def)
    then show ?thesis
      using no_floor pv imp pvk by (auto simp: imported_def covers_attestation_def)
  next
    case (floor pv' ws wt sb tb)
    then have top: "wm_le (Some sb) (watermark_of pk AttestationSource t')" "wm_le (Some tb) (watermark_of pk AttestationTarget t')"
      and kept: "r \<in> set (att_rows_of pk t) \<Longrightarrow> tb < as_u64 (ar_target r) \<Longrightarrow>
        wm_le (Some (as_u64 (ar_source r))) (watermark_of pk AttestationSource t')
        \<and> wm_le (Some (as_u64 (ar_target r))) (watermark_of pk AttestationTarget t')" for r
      using pv imp pvk by (auto simp: imported_def covers_attestation_def)
    have "wm_le (watermark_of pk k t) (watermark_of pk k t')" if "k \<noteq> Block" for k
      using floor(2-4) that top by (cases k) (auto simp: floor_pair_def intro: wm_le_Some)
    moreover have "wm_le (Some (as_u64 (ar_source r))) (watermark_of pk AttestationSource t')
        \<and> wm_le (Some (as_u64 (ar_target r))) (watermark_of pk AttestationTarget t')"
      if r: "r \<in> set (att_rows_of pk t)" for r
    proof (cases "tb < as_u64 (ar_target r)")
      case False
      then have "as_u64 (ar_source r) \<le> sb" "as_u64 (ar_target r) \<le> tb"
        using floor(4) r by (auto simp: floor_pair_def att_row_span_def not_less split: if_splits)
      with top show ?thesis by (auto intro: wm_le_Some)
    qed (rule kept [OF r])
    ultimately show ?thesis by blast
  qed
  have blks: "wm_le (watermark_of pk Block t) (watermark_of pk Block t')
      \<and> (\<forall>b\<in>set (block_rows_of pk t). wm_le (Some (as_u64 (br_slot b))) (watermark_of pk Block t'))"
  proof (cases "watermark_of pk Block t")
    case None
    with export_record_blocks [OF rec pv] imp pvk show ?thesis
      by (auto simp: imported_def covers_block_def wm_le_def)
  next
    case (Some w)
    then have top: "wm_le (Some w) (watermark_of pk Block t')"
      and kept: "b \<in> set (block_rows_of pk t) \<Longrightarrow> w < as_u64 (br_slot b) \<Longrightarrow>
        wm_le (Some (as_u64 (br_slot b))) (watermark_of pk Block t')" for b
      using export_record_blocks [OF rec pv] imp pvk by (auto simp: imported_def covers_block_def)
    with Some show ?thesis by (metis not_le wm_le_Some)
  qed
  show "wm_le (watermark_of pk k t) (watermark_of pk k t')" using atts blks by (cases "k = Block") auto
  show "r \<in> set (att_rows_of pk t) \<Longrightarrow>
      wm_le (Some (as_u64 (ar_source r))) (watermark_of pk AttestationSource t')
      \<and> wm_le (Some (as_u64 (ar_target r))) (watermark_of pk AttestationTarget t')" using atts by blast
  show "b \<in> set (block_rows_of pk t) \<Longrightarrow> wm_le (Some (as_u64 (br_slot b))) (watermark_of pk Block t')"
    using blks by blast
qed

lemma floors_cover_acceptance:
  assumes above: "above_att_floors (att_floors pk t') c"
    and wms: "\<And>k. wm_le (watermark_of pk k t) (watermark_of pk k t')"
    and rows: "\<And>r. r \<in> set (att_rows_of pk t) \<Longrightarrow>
      wm_le (Some (as_u64 (ar_source r))) (watermark_of pk AttestationSource t')
      \<and> wm_le (Some (as_u64 (ar_target r))) (watermark_of pk AttestationTarget t')"
  shows "above_att_floors (att_floors pk t) c \<and> \<not> att_conflict (att_history_of pk t) c strict
    \<and> \<not> below_minimum (ea_target_epoch ` att_history_of pk t) (ac_target_epoch c)"
proof -
  have hist: "ea_source_epoch e \<le> ac_source_epoch c \<and> ea_target_epoch e < ac_target_epoch c"
    if "e \<in> att_history_of pk t" for e
    using that rows above
    by (fastforce simp: att_history_of_def existing_of_row_def wm_le_def above_att_floors_def att_floors_def)
  then have "\<not> att_conflict (att_history_of pk t) c strict"
    unfolding att_conflict_def surrounds_def by fastforce
  moreover have "\<not> below_minimum (ea_target_epoch ` att_history_of pk t) (ac_target_epoch c)"
    using hist unfolding below_minimum_def by (fastforce dest: less_asym)
  moreover have "above_att_floors (att_floors pk t) c"
    using above wms [of AttestationSource] wms [of AttestationTarget]
    by (fastforce simp: above_att_floors_def att_floors_def wm_le_def split: option.splits)
  ultimately show ?thesis by blast
qed

text \<open>
  C13: moving the history to another database loses no protection. When a file exported by one
  database was imported by any other, an attestation of a recorded public key that the second
  database's floors let through is one the first would have accepted: it is above the first's
  floors, conflicts with none of its rows and is not below its minimum. A block that they let
  through is at no recorded slot and above the first's floor.
\<close>

theorem export_import_keeps_protection:
  assumes "export hx g d1 = (Inr f, d1')" "tables_ok (current (sd_conn d1))"
    and "import hx f g d2 = (Inr (), d2')" "tables_ok (committed (sd_conn d2))"
    and "pk \<in> set (pubkeys_in (current (sd_conn d1)))" "normalize_pubkey pk = pk"
  shows "(\<forall>c strict. above_att_floors (att_floors pk (committed (sd_conn d2'))) c \<longrightarrow>
        above_att_floors (att_floors pk (current (sd_conn d1))) c
        \<and> \<not> att_conflict (att_history_of pk (current (sd_conn d1))) c strict
        \<and> \<not> below_minimum (ea_target_epoch ` att_history_of pk (current (sd_conn d1))) (ac_target_epoch c))
    \<and> (\<forall>c. above_block_floor (block_floor pk (committed (sd_conn d2'))) c \<longrightarrow>
        above_block_floor (block_floor pk (current (sd_conn d1))) c
        \<and> bc_slot c \<notin> fst ` block_history_of pk (current (sd_conn d1)))"
proof -
  let ?t = "current (sd_conn d1)" and ?t' = "committed (sd_conn d2')"
  have wf: "wf_tables ?t" using assms(2) by (simp add: tables_ok_def)
  note ex = export_run(2) [OF assms(1) wf refl]
  obtain vs where vs: "parse_interchange f = Inr vs" "list_all validator_in_range vs"
    using exported_parses [OF assms(2) ex] by blast
  from import_run [OF assms(3,4)] vs have imp: "v \<in> set vs \<Longrightarrow> imported v ?t'" for v by auto
  obtain v n where v: "v \<in> set (if_data f)" "export_record ?t pk = Inr (v, n)"
    using exported_record [OF ex assms(5)] .
  obtain pv where pv: "parse_interchange_validator v = Inr pv" "pv \<in> set vs"
    using parse_interchange_mem(2) [OF vs(1) v(1)] by blast
  note cov = imported_covers_origin [OF v(2) pv(1) imp [OF pv(2)] assms(6)]
  have blk: "above_block_floor (block_floor pk ?t) c \<and> bc_slot c \<notin> fst ` block_history_of pk ?t"
    if "above_block_floor (block_floor pk ?t') c" for c
    using that cov(1) [of Block] cov(3)
    by (fastforce simp: above_block_floor_def block_floor_def wm_le_def block_history_of_def split: option.splits)
  from floors_cover_acceptance [OF _ cov(1,2)] blk show ?thesis by blast
qed

theorem export_import_keeps_protection_witness:
  "let g = replicate 32 7; (r, d1') = export hex_ref g export_fixture in
   case r of Inl e \<Rightarrow> False
   | Inr f \<Rightarrow> (let (x, d2') = import hex_ref f g (fresh_db []) in
       x = Inr () \<and> above_att_floors (att_floors ''0xaa'' (committed (sd_conn d2'))) (att_cand 5 11 None)
       \<and> \<not> att_conflict (att_history_of ''0xaa'' (current (sd_conn export_fixture))) (att_cand 5 11 None) True)"
proof -
  let ?g = "replicate 32 7 :: root"
  define f where "f = (case fst (export hex_ref ?g export_fixture) of Inr f \<Rightarrow> f | Inl _ \<Rightarrow> import_fixture)"
  have "\<not> isl (fst (export hex_ref ?g export_fixture))" by code_simp
  then obtain d1' where run: "export hex_ref ?g export_fixture = (Inr f, d1')"
    unfolding f_def by (cases "export hex_ref ?g export_fixture"; cases "fst (export hex_ref ?g export_fixture)") auto
  have imp1: "fst (import hex_ref f ?g (fresh_db [])) = Inr ()" unfolding f_def by code_simp
  have above1: "above_att_floors (att_floors ''0xaa'' (committed (sd_conn (snd (import hex_ref f ?g (fresh_db [])))))) (att_cand 5 11 None)"
    unfolding f_def by code_simp
  from imp1 obtain d2' where imp: "import hex_ref f ?g (fresh_db []) = (Inr (), d2')"
    by (cases "import hex_ref f ?g (fresh_db [])") simp
  with above1 have above: "above_att_floors (att_floors ''0xaa'' (committed (sd_conn d2'))) (att_cand 5 11 None)"
    by simp
  have ok: "tables_ok (current (sd_conn export_fixture))" "tables_ok (committed (sd_conn (fresh_db [])))"
    by code_simp+
  have pk: "''0xaa'' \<in> set (pubkeys_in (current (sd_conn export_fixture)))" "normalize_pubkey ''0xaa'' = ''0xaa''"
    by code_simp+
  have "\<not> att_conflict (att_history_of ''0xaa'' (current (sd_conn export_fixture))) (att_cand 5 11 None) True"
    using export_import_keeps_protection [OF run ok(1) imp ok(2) pk] above by blast
  with above show ?thesis unfolding Let_def run prod.case sum.case imp by (intro conjI refl)
qed

section \<open>Pinning the genesis root\<close>

definition pinned_text :: "tables \<Rightarrow> string option" where
  "pinned_text t = map_of (metadata t) gvr_key"

lemma pinned_text_update:
  "pinned_text t \<noteq> None \<Longrightarrow> update_metadata_gvr v t = Inr (n, t') \<Longrightarrow> pinned_text t' = Some v"
proof -
  have "map_of kvs gvr_key \<noteq> None \<Longrightarrow>
      map_of (map (\<lambda>(k, w). if k = gvr_key then (k, v) else (k, w)) kvs) gvr_key = Some v" for kvs
    by (induction kvs) (auto split: if_splits)
  then show "pinned_text t \<noteq> None \<Longrightarrow> update_metadata_gvr v t = Inr (n, t') \<Longrightarrow> pinned_text t' = Some v"
    by (auto simp: pinned_text_def update_metadata_gvr_def)
qed

lemma pinned_text_insert:
  "insert_metadata_gvr v t = Inr (n, t') \<Longrightarrow> pinned_text t' = Some v \<and> pinned_text t = None"
proof (cases "gvr_key \<in> fst ` set (metadata t)")
  case False
  then have "map_of (metadata t) gvr_key = None" by (simp add: map_of_eq_None_iff)
  moreover assume "insert_metadata_gvr v t = Inr (n, t')"
  ultimately show ?thesis using False by (auto simp: insert_metadata_gvr_def pinned_text_def map_add_Some_iff)
qed (simp add: insert_metadata_gvr_def)

definition pinned_to :: "hex_codec \<Rightarrow> root \<Rightarrow> tables \<Rightarrow> tables \<Rightarrow> bool" where
  "pinned_to hx root t t' \<longleftrightarrow> pinned_text t' = Some (gvr_hex_of_root hx root)
     \<and> (\<forall>s. pinned_text t = Some s \<longrightarrow> parse_gvr_hex_policy hx s = Inr root)
     \<and> attestations t' = attestations t \<and> blocks t' = blocks t \<and> watermarks t' = watermarks t"

lemma txn_spec_lift: "txn_spec (\<lambda>t x t'. r = Inr x \<and> t' = t) (lift_sum r)"
  by (auto simp: txn_spec_def lift_sum_def)

lemma txn_spec_pin_root_body: "txn_spec (\<lambda>t _ t'. pinned_to hx root t t') (pin_root_body hx root)"
proof -
  let ?hex = "gvr_hex_of_root hx root"
  have some: "txn_spec (\<lambda>t _ t'. pinned_text t = Some stored \<longrightarrow> pinned_to hx root t t')
     (bindE (lift_sum (parse_gvr_hex_policy hx stored))
        (\<lambda>stored_root. if stored_root \<noteq> root then throwE (GenesisValidatorsRootMismatch stored ?hex)
             else if stored \<noteq> ?hex
             then bindE (sql (sql_execute (update_metadata_gvr ?hex))) (\<lambda>_. retE ()) else retE ()))" for stored
  proof -
    have upd: "txn_spec (\<lambda>t _ t'. \<exists>n. update_metadata_gvr ?hex t = Inr (n, t'))
        (bindE (sql (sql_execute (update_metadata_gvr ?hex))) (\<lambda>_. retE ()))"
      by (rule txn_spec_mono [OF txn_spec_bind [OF txn_spec_execute txn_spec_ret]]) auto
    have branch: "txn_spec (\<lambda>t _ t'. stored_root = root \<and> (if stored \<noteq> ?hex
            then \<exists>n. update_metadata_gvr ?hex t = Inr (n, t') else t' = t))
        (if stored_root \<noteq> root then throwE (GenesisValidatorsRootMismatch stored ?hex)
             else if stored \<noteq> ?hex
             then bindE (sql (sql_execute (update_metadata_gvr ?hex))) (\<lambda>_. retE ()) else retE ())" for stored_root
      using upd by (auto intro: txn_spec_throw txn_spec_mono [OF txn_spec_ret])
    have keep: "update_metadata_gvr ?hex t = Inr (n, t') \<Longrightarrow>
        attestations t' = attestations t \<and> blocks t' = blocks t \<and> watermarks t' = watermarks t" for n t t'
      by (auto simp: update_metadata_gvr_def)
    show ?thesis
      by (rule txn_spec_mono [OF txn_spec_bind [OF txn_spec_lift branch]])
        (auto simp: pinned_to_def dest: keep intro: pinned_text_update split: if_splits)
  qed
  have none: "txn_spec (\<lambda>t _ t'. pinned_text t = None \<longrightarrow> pinned_to hx root t t')
      (bindE (sql (sql_execute (insert_metadata_gvr ?hex))) (\<lambda>_. retE ()))"
    by (rule txn_spec_mono [OF txn_spec_bind [OF txn_spec_execute txn_spec_ret]])
      (auto simp: pinned_to_def dest: pinned_text_insert, auto simp: insert_metadata_gvr_def split: if_splits)
  have both: "txn_spec (\<lambda>t _ t'. pinned_text t = existing \<longrightarrow> pinned_to hx root t t')
     (case existing of
         Some stored \<Rightarrow>
           bindE (lift_sum (parse_gvr_hex_policy hx stored))
           (\<lambda>stored_root.
             if stored_root \<noteq> root then throwE (GenesisValidatorsRootMismatch stored ?hex)
             else if stored \<noteq> ?hex
             then bindE (sql (sql_execute (update_metadata_gvr ?hex))) (\<lambda>_. retE ())
             else retE ())
       | None \<Rightarrow> bindE (sql (sql_execute (insert_metadata_gvr ?hex))) (\<lambda>_. retE ()))" for existing
    using some none by (cases existing) simp_all
  show ?thesis unfolding pin_root_body_def Let_def select_metadata_gvr_def
    by (rule txn_spec_mono [OF txn_spec_bind [OF txn_spec_query both]]) (auto simp: pinned_text_def)
qed

lemma set_genesis_root_run:
  assumes "set_genesis_validators_root hx root d = (x, d')"
  shows "case x of Inl e \<Rightarrow> committed (sd_conn d') = committed (sd_conn d)
    | Inr _ \<Rightarrow> root \<noteq> zero_root \<and> pinned_to hx root (committed (sd_conn d)) (committed (sd_conn d'))"
proof (cases "root = zero_root")
  case False
  obtain y c where run: "in_transaction (pin_root_body hx root) (sd_conn d) = (y, c)" by fastforce
  then have "y = x" "committed (sd_conn d') = committed c"
    using assms False by (simp_all add: set_genesis_validators_root_def on_conn_iff)
  with in_transaction_run [OF txn_spec_pin_root_body run] False show ?thesis by (cases x) simp_all
qed (use assms in \<open>auto simp: set_genesis_validators_root_def\<close>)

text \<open>
  C14: pinning never moves a database to another chain. \<open>set_genesis_validators_root\<close> refuses
  the all-zeros root. When it succeeds, any root pinned before decodes to the same bytes, the
  stored text is the canonical one and the history and floors are untouched; when it fails
  nothing durable changes.
\<close>

theorem set_genesis_root_keeps_chain:
  "case set_genesis_validators_root hx root d of
     (Inl e, d') \<Rightarrow> committed (sd_conn d') = committed (sd_conn d)
   | (Inr _, d') \<Rightarrow> root \<noteq> zero_root
       \<and> pinned_to hx root (committed (sd_conn d)) (committed (sd_conn d'))"
  using set_genesis_root_run [of hx root d] by (auto split: prod.splits sum.splits)

text \<open>A pinned root in text other than the canonical one: the same bytes, another spelling.\<close>

definition noncanonical_pin :: "hex_codec \<Rightarrow> root \<Rightarrow> tables \<Rightarrow> bool" where
  "noncanonical_pin hx root t \<longleftrightarrow>
     (case pinned_text t of
        None \<Rightarrow> False
      | Some text \<Rightarrow> parse_gvr_hex_policy hx text = Inr root \<and> text \<noteq> gvr_hex_of_root hx root)"

lemma noncanonical_pin_iff:
  "noncanonical_pin hx root t \<longleftrightarrow> (\<exists>text. map_of (metadata t) gvr_key = Some text
     \<and> parse_gvr_hex_policy hx text = Inr root \<and> text \<noteq> gvr_hex_of_root hx root)"
  by (auto simp: noncanonical_pin_def pinned_text_def split: option.splits)

lemma check_gvr_before_lock_pinned:
  assumes "map_of (metadata (current (sd_conn d))) gvr_key = Some pinned" "parse_gvr_hex_policy hx pinned = Inr root"
    and "gvr_cache d = None \<or> gvr_cache d = Some root" "check_gvr_before_lock hx root d = (Inl e, d')"
  shows "is_database_error e"
proof (cases "gvr_cache d")
  case None
  obtain x c1 where sel: "select_metadata_gvr (sd_conn d) = (x, c1)" by fastforce
  show ?thesis
  proof (cases x)
    case (Inl e')
    then have "is_database_error e'" using sel by (auto simp: select_metadata_gvr_def map_err_Inl_iff is_database_error_def)
    with assms(4) None sel Inl show ?thesis
      by (simp add: check_gvr_before_lock_def pinned_gvr_def read_metadata_gvr_def bindE_def on_conn_def)
  next
    case (Inr y)
    then have "y = Some pinned" using sel assms(1) by (auto simp: select_metadata_gvr_def elim: sql_query_InrE)
    with assms(2,4) None sel Inr show ?thesis
      by (simp add: check_gvr_before_lock_def pinned_gvr_def read_metadata_gvr_def bindE_def on_conn_def lift_sum_def retE_def)
  qed
next
  case (Some g)
  with assms(3,4) show ?thesis by (simp add: check_gvr_before_lock_def pinned_gvr_def bindE_def retE_def)
qed

text \<open>
  C15: the reserve path compares the pinned root as text. On any database whose pinned root decodes to
  the root of the chain but is not spelled canonically (upper case, or without prefix), no reserve of a block or
  of an attestation for that chain ever succeeds, whichever thread leads and whatever the others queue, although
  the check before the lock, which compares bytes, fails only when the database does; a successful
  \<open>set_genesis_validators_root\<close> with the same root rewrites the pinned and ends this. Stored and queued
  epochs and slots are below 2^63.
\<close>

theorem noncanonical_pin_blocks_reserve:
  assumes pin: "noncanonical_pin hx root (committed (sd_conn d))" "txn (sd_conn d) = None"
    and cache: "gvr_cache d = None \<or> gvr_cache d = Some root"
    and among: "waits_among tx others d" "tables_ok (committed (sd_conn d))"
    and range: "i64_safe source" "i64_safe target" "i64_safe slot"
  shows "isl (fst (reserve_attestation hx others tx pubkey source target signing_root root d))
    \<and> isl (fst (reserve_block hx others tx pubkey slot signing_root root d))
    \<and> (\<forall>e d'. check_gvr_before_lock hx root d = (Inl e, d') \<longrightarrow> is_database_error e)
    \<and> (\<forall>u d'. set_genesis_validators_root hx root d = (Inr u, d') \<longrightarrow> \<not> noncanonical_pin hx root (committed (sd_conn d')))"
proof -
  obtain pinned where text_is: "map_of (metadata (committed (sd_conn d))) gvr_key = Some pinned"
    "parse_gvr_hex_policy hx pinned = Inr root" "pinned \<noteq> gvr_hex_of_root hx root"
    using pin(1) by (auto simp: noncanonical_pin_iff)
  let ?att = "SpecAttestation (normalize_pubkey pubkey) source target signing_root root (gvr_hex_of_root hx root)"
  let ?block = "SpecBlock (normalize_pubkey pubkey) slot signing_root root (gvr_hex_of_root hx root)"
  have no: "\<not> pin_allows (committed (sd_conn d)) ?att" "\<not> pin_allows (committed (sd_conn d)) ?block"
    using text_is by (simp_all add: pin_allows_def)
  have safe: "spec_safe ?att" "spec_safe ?block" using range by simp_all
  have "reserve_attestation hx others tx pubkey source target signing_root root d \<noteq> (Inr res, d')"
    "reserve_block hx others tx pubkey slot signing_root root d \<noteq> (Inr res, d')" for res d'
    using checked_reserve_pinned [OF _ among safe(1)] checked_reserve_pinned [OF _ among safe(2)] no
    unfolding reserve_attestation_def reserve_block_def by blast+
  then have "isl (fst (reserve_attestation hx others tx pubkey source target signing_root root d))"
    "isl (fst (reserve_block hx others tx pubkey slot signing_root root d))"
    by (metis prod.collapse sum.collapse(2))+
  moreover have "\<not> noncanonical_pin hx root (committed (sd_conn d'))" if "set_genesis_validators_root hx root d = (Inr u, d')" for u d'
    using set_genesis_root_run [OF that] by (auto simp: noncanonical_pin_iff pinned_to_def pinned_text_def)
  moreover have "current (sd_conn d) = committed (sd_conn d)" using pin(2) by (simp add: current_def)
  ultimately show ?thesis using check_gvr_before_lock_pinned [OF _ text_is(2) cache] text_is(1) by auto
qed

definition upper_hex_db :: slashing_db where
  "upper_hex_db = from_connection \<lparr>committed = empty_tables\<lparr>metadata :=
     [(gvr_key, ''0x'' @ concat (replicate 32 ''AB''))]\<rparr>, txn = None, tape = []\<rparr>"

text \<open>A database pinned in upper case refuses a vote, and accepts it once it is pinned again.\<close>

theorem noncanonical_pin_blocks_reserve_witness:
  "let root = replicate 32 0xAB; others = \<lparr>ot_in_flight = [], ot_arrivals = []\<rparr> in
     isl (fst (reserve_block hex_ref others 0 ''0xaa'' 3 (Some ''0x01'') root upper_hex_db))
     \<and> fst (check_gvr_before_lock hex_ref root upper_hex_db) = Inr ()
     \<and> fst (reserve_attestation hex_ref others 0 ''0xaa'' 1 2 (Some ''0x01'') root upper_hex_db)
         = Inl (GenesisRootMismatch root root)
     \<and> \<not> isl (fst (reserve_attestation hex_ref others 0 ''0xaa'' 1 2 (Some ''0x01'') root
           (snd (set_genesis_validators_root hex_ref root upper_hex_db))))"
proof -
  let ?root = "replicate 32 0xAB :: root" and ?others = "\<lparr>ot_in_flight = [], ot_arrivals = []\<rparr>"
  have 1: "fst (check_gvr_before_lock hex_ref ?root upper_hex_db) = Inr ()" by code_simp
  have 2: "fst (reserve_attestation hex_ref ?others 0 ''0xaa'' 1 2 (Some ''0x01'') ?root upper_hex_db)
         = Inl (GenesisRootMismatch ?root ?root)" by code_simp
  have 3: "\<not> isl (fst (reserve_attestation hex_ref ?others 0 ''0xaa'' 1 2 (Some ''0x01'') ?root
           (snd (set_genesis_validators_root hex_ref ?root upper_hex_db))))" by code_simp
  have pin: "noncanonical_pin hex_ref ?root (committed (sd_conn upper_hex_db))" by code_simp
  have idle: "txn (sd_conn upper_hex_db) = None" "gvr_cache upper_hex_db = None" "waits_among 0 ?others upper_hex_db"
    by (simp_all add: upper_hex_db_def from_connection_def waits_among_def other_items_def)
  have ok: "tables_ok (committed (sd_conn upper_hex_db))" "i64_safe 1" "i64_safe 2" "i64_safe 3" by code_simp+
  from noncanonical_pin_blocks_reserve [OF pin idle(1) disjI1 [OF idle(2)] idle(3) ok] 1 2 3 show ?thesis
    by (simp only: Let_def simp_thms)
qed

end
