(* ===== verification/Signer_Locks.thy ===== *)
theory Signer_Locks
  imports Rvc_Prelude
begin

text \<open>
  The per-validator lock map of \<open>signer/src/locks.rs\<close>. Each entry is an
  \<open>Arc\<close> of an async mutex; the model gives every mutex ever created a number, and keeps the
  list of tasks that own a clone of an \<open>Arc\<close> together with whether they hold the mutex.
  Eviction removes the entries whose \<open>Arc\<close> nobody but the map owns. The theorem is that this
  never lets two tasks hold locks for the same public key at once.
\<close>

type_synonym pubkey48 = "byte list"

record lock_ref =
  lr_pubkey :: pubkey48
  lr_lock :: nat
  lr_held :: bool

record lock_map =
  lm_map :: "(pubkey48 \<times> nat) list"
  lm_overflow_warned :: bool
  lm_capacity :: nat
  lm_next :: nat
  lm_refs :: "lock_ref list"

definition SUPPORTED_KEY_COUNT :: nat where
  "SUPPORTED_KEY_COUNT = 200"

definition DEFAULT_CAPACITY :: nat where
  "DEFAULT_CAPACITY = SUPPORTED_KEY_COUNT * 4"

definition with_capacity :: "nat \<Rightarrow> lock_map" where
  "with_capacity capacity = \<lparr>lm_map = [], lm_overflow_warned = False, lm_capacity = capacity,
     lm_next = 0, lm_refs = []\<rparr>"

definition new_lock_map :: lock_map where
  "new_lock_map = with_capacity DEFAULT_CAPACITY"

text \<open>\<open>Arc::strong_count\<close>: one for the map, one for each task.\<close>

definition strong_count :: "lock_map \<Rightarrow> nat \<Rightarrow> nat" where
  "strong_count m l = 1 + length (filter (\<lambda>r. lr_lock r = l) (lm_refs m))"

definition retain_held :: "lock_map \<Rightarrow> (pubkey48 \<times> nat) list" where
  "retain_held m = filter (\<lambda>(_, l). strong_count m l > 1) (lm_map m)"

definition evict_unheld :: "lock_map \<Rightarrow> lock_map" where
  "evict_unheld m =
     (if length (lm_map m) \<ge> lm_capacity m
      then m\<lparr>lm_map := retain_held m, lm_overflow_warned := length (retain_held m) \<ge> lm_capacity m\<rparr>
      else m)"

text \<open>\<open>get\<close>, up to the clone it returns: the number of the lock and the map after it.\<close>

definition get_lock :: "pubkey48 \<Rightarrow> lock_map \<Rightarrow> nat \<times> lock_map" where
  "get_lock pubkey m =
     (case map_of (lm_map m) pubkey of
        Some existing \<Rightarrow> (existing, m)
      | None \<Rightarrow>
          (lm_next m, (evict_unheld m)\<lparr>lm_map := lm_map (evict_unheld m) @ [(pubkey, lm_next m)],
             lm_next := Suc (lm_next m)\<rparr>))"

definition clone_ref :: "pubkey48 \<Rightarrow> lock_map \<Rightarrow> lock_map" where
  "clone_ref pubkey m =
     (case get_lock pubkey m of (l, m1) \<Rightarrow>
        m1\<lparr>lm_refs := \<lparr>lr_pubkey = pubkey, lr_lock = l, lr_held = False\<rparr> # lm_refs m1\<rparr>)"

text \<open>
  The life of a caller of \<open>lock\<close>: it clones the \<open>Arc\<close>, waits, gets the mutex when no other
  task holds it, and drops its clone at the end (or gives up waiting).
\<close>

inductive lock_step :: "lock_map \<Rightarrow> lock_map \<Rightarrow> bool" where
  request: "lock_step m (clone_ref pubkey m)"
| acquire: "lm_refs m = before @ r # after \<Longrightarrow> \<not> lr_held r
    \<Longrightarrow> (\<forall>r'\<in>set (lm_refs m). lr_lock r' = lr_lock r \<longrightarrow> \<not> lr_held r')
    \<Longrightarrow> lock_step m (m\<lparr>lm_refs := before @ r\<lparr>lr_held := True\<rparr> # after\<rparr>)"
| release: "lm_refs m = before @ r # after \<Longrightarrow> lock_step m (m\<lparr>lm_refs := before @ after\<rparr>)"

inductive lock_reachable :: "nat \<Rightarrow> lock_map \<Rightarrow> bool" for capacity where
  start: "lock_reachable capacity (with_capacity capacity)"
| step: "lock_reachable capacity m \<Longrightarrow> lock_step m m' \<Longrightarrow> lock_reachable capacity m'"

definition held_pubkeys :: "lock_map \<Rightarrow> pubkey48 list" where
  "held_pubkeys m = map lr_pubkey (filter lr_held (lm_refs m))"

definition lock_inv :: "lock_map \<Rightarrow> bool" where
  "lock_inv m \<longleftrightarrow> distinct (map fst (lm_map m)) \<and> distinct (map snd (lm_map m))
     \<and> (\<forall>l\<in>snd ` set (lm_map m). l < lm_next m)
     \<and> (\<forall>r\<in>set (lm_refs m). (lr_pubkey r, lr_lock r) \<in> set (lm_map m))
     \<and> distinct (map lr_lock (filter lr_held (lm_refs m)))"

lemma strong_count_ref: "r \<in> set (lm_refs m) \<Longrightarrow> strong_count m (lr_lock r) > 1"
  by (auto simp: strong_count_def filter_empty_conv)

lemma get_lock_inv:
  assumes inv: "lock_inv m" and get: "get_lock pubkey m = (l, m')"
  shows "lock_inv m' \<and> (pubkey, l) \<in> set (lm_map m') \<and> lm_refs m' = lm_refs m"
proof (cases "map_of (lm_map m) pubkey")
  case (Some existing)
  then show ?thesis
    using inv get by (auto simp: get_lock_def dest: map_of_SomeD)
next
  case None
  let ?m1 = "evict_unheld m"
  have m': "l = lm_next m" "m' = ?m1\<lparr>lm_map := lm_map ?m1 @ [(pubkey, lm_next m)], lm_next := Suc (lm_next m)\<rparr>"
    using get None by (auto simp: get_lock_def)
  have kept: "lock_inv (m\<lparr>lm_map := retain_held m, lm_overflow_warned := b\<rparr>)" for b
    using inv strong_count_ref [of _ m]
    by (fastforce simp: lock_inv_def retain_held_def distinct_map_filter)
  have sub: "set (lm_map ?m1) \<subseteq> set (lm_map m)" "lm_refs ?m1 = lm_refs m" "lm_next ?m1 = lm_next m"
    by (auto simp: evict_unheld_def retain_held_def)
  have inv1: "lock_inv ?m1" using inv kept by (simp add: evict_unheld_def)
  have "pubkey \<notin> fst ` set (lm_map m)" using None by (simp add: map_of_eq_None_iff)
  moreover have "lm_next m \<notin> snd ` set (lm_map m)" using inv by (auto simp: lock_inv_def)
  ultimately have "pubkey \<notin> fst ` set (lm_map ?m1)" "lm_next m \<notin> snd ` set (lm_map ?m1)"
    using sub(1) by blast+
  with inv1 m' sub show ?thesis by (auto simp: lock_inv_def)
qed

lemma lock_inv_step:
  assumes "lock_inv m" "lock_step m m'"
  shows "lock_inv m'"
  using assms(2)
proof cases
  case (request pubkey)
  obtain l m1 where get: "get_lock pubkey m = (l, m1)" by fastforce
  from get_lock_inv [OF assms(1) get] request get show ?thesis by (auto simp: clone_ref_def lock_inv_def)
next
  case (acquire before r after)
  then have "lr_lock r \<notin> lr_lock ` set (filter lr_held (before @ after))" by auto
  with acquire assms(1) show ?thesis by (auto simp: lock_inv_def)
next
  case (release before r after)
  with assms(1) show ?thesis by (auto simp: lock_inv_def split: if_splits)
qed

lemma lock_inv_reachable: "lock_reachable capacity m \<Longrightarrow> lock_inv m"
  by (induction rule: lock_reachable.induct)
    (simp add: lock_inv_def with_capacity_def, rule lock_inv_step)

text \<open>
  C16: two tasks never hold the lock of the same public key at once, whatever the capacity of the
  lock map and however entries are evicted from it.
\<close>

theorem lock_map_mutual_exclusion:
  assumes "lock_reachable capacity m"
  shows "distinct (held_pubkeys m)"
proof -
  have inv: "lock_inv m" using lock_inv_reachable [OF assms] .
  let ?h = "filter lr_held (lm_refs m)"
  have inj: "inj_on snd (set (lm_map m))" using inv by (simp add: lock_inv_def distinct_map)
  have fun1: "l = l'" if "(pk, l) \<in> set (lm_map m)" "(pk, l') \<in> set (lm_map m)" for pk l l'
    using that inv by (auto simp: lock_inv_def intro: eq_key_imp_eq_value)
  have d: "distinct (map lr_lock ?h)" using inv by (simp add: lock_inv_def)
  have mem: "(lr_pubkey r, lr_lock r) \<in> set (lm_map m)" if "r \<in> set ?h" for r
    using that inv by (simp add: lock_inv_def)
  have "inj_on lr_pubkey (set ?h)"
  proof (rule inj_onI)
    fix r r' assume r: "r \<in> set ?h" "r' \<in> set ?h" "lr_pubkey r = lr_pubkey r'"
    then have "lr_lock r = lr_lock r'" using fun1 mem by metis
    with d r show "r = r'" by (auto simp: distinct_map dest: inj_onD)
  qed
  moreover have "distinct ?h" using d by (simp add: distinct_map)
  ultimately show ?thesis by (simp add: held_pubkeys_def distinct_map)
qed

theorem lock_map_mutual_exclusion_witness:
  "\<exists>m. lock_reachable 1 m \<and> held_pubkeys m = [[1], [2]] \<and> distinct (held_pubkeys m) \<and> lm_overflow_warned m"
proof -
  define m0 where "m0 = clone_ref [2] (with_capacity 1)"
  define m1 where "m1 = m0\<lparr>lm_refs := [\<lparr>lr_pubkey = [2], lr_lock = 0, lr_held = True\<rparr>]\<rparr>"
  define m2 where "m2 = clone_ref [1] m1"
  define m3 where "m3 = m2\<lparr>lm_refs := [\<lparr>lr_pubkey = [1], lr_lock = 1, lr_held = True\<rparr>,
     \<lparr>lr_pubkey = [2], lr_lock = 0, lr_held = True\<rparr>]\<rparr>"
  note evals = clone_ref_def get_lock_def with_capacity_def evict_unheld_def retain_held_def strong_count_def
  have refs0: "lm_refs m0 = [\<lparr>lr_pubkey = [2], lr_lock = 0, lr_held = False\<rparr>]"
    by (simp add: m0_def evals)
  have refs2: "lm_refs m2 = [\<lparr>lr_pubkey = [1], lr_lock = 1, lr_held = False\<rparr>,
     \<lparr>lr_pubkey = [2], lr_lock = 0, lr_held = True\<rparr>]"
    by (simp add: m2_def m1_def m0_def evals)
  have s1: "lock_step m0 m1"
    using lock_step.acquire [of m0 "[]" "\<lparr>lr_pubkey = [2], lr_lock = 0, lr_held = False\<rparr>" "[]"]
    by (simp add: refs0 m1_def)
  have s3: "lock_step m2 m3"
    using lock_step.acquire [of m2 "[]" "\<lparr>lr_pubkey = [1], lr_lock = 1, lr_held = False\<rparr>"
      "[\<lparr>lr_pubkey = [2], lr_lock = 0, lr_held = True\<rparr>]"]
    by (simp add: refs2 m3_def)
  have "lock_reachable 1 m0" unfolding m0_def
    by (rule lock_reachable.step [OF lock_reachable.start lock_step.request])
  then have "lock_reachable 1 m1" using s1 by (rule lock_reachable.step)
  then have "lock_reachable 1 m2" unfolding m2_def by (rule lock_reachable.step) (rule lock_step.request)
  then have r: "lock_reachable 1 m3" using s3 by (rule lock_reachable.step)
  have "held_pubkeys m3 = [[1], [2]]" "lm_overflow_warned m3"
    by (simp_all add: m3_def m2_def m1_def m0_def held_pubkeys_def evals)
  with r lock_map_mutual_exclusion [OF r] show ?thesis by blast
qed

end
