(* ===== verification/Signer_Core.thy ===== *)
theory Signer_Core
  imports Slashing_Reserve Signer_Locks
begin

text \<open>
  The signing core of the signer crate: its errors and their classification for the transports
  (\<open>signer/src/error.rs\<close>, \<open>crypto/src/error.rs\<close>), the audited view of the slashing database
  (\<open>slashing/src/scoped.rs\<close>), the slashable flow reserve, sign, reconcile and the non-slashable
  flow (\<open>signer/src/core.rs\<close>), and the signing gate on top of both (\<open>signer/src/gate.rs\<close>).

  The backend that signs is outside this model: a call of it is an argument, either the client
  timeout, an answer, or a panic of the blocking task. The enablement check is made twice, so it
  is a function of the number of the call; so is the closure that resolves the timeout policy.
  The state is the slashing database and the audit records emitted so far. Metrics hooks and log
  lines are left out.
\<close>

section \<open>Errors\<close>

datatype signing_error =
    KeyNotFound string
  | LocalRejected string
  | RemoteSignerError string
  | InvalidRemoteSignature
  | UnsupportedSigningType string
  | UnsupportedDuty string
  | SignerLacksGloasSupport string string

fun show_signing_error :: "signing_error \<Rightarrow> string" where
  "show_signing_error (KeyNotFound m) = ''key not found: '' @ m"
| "show_signing_error (LocalRejected m) = ''signing rejected locally (no remote contact): '' @ m"
| "show_signing_error (RemoteSignerError m) = ''remote signer error: '' @ m"
| "show_signing_error InvalidRemoteSignature = ''remote signer returned invalid signature''"
| "show_signing_error (UnsupportedSigningType m) = ''unsupported remote signing type: '' @ m"
| "show_signing_error (UnsupportedDuty duty) = ''unsupported duty: '' @ duty"
| "show_signing_error (SignerLacksGloasSupport rpc details) =
     ''signer does not support Gloas duties ('' @ rpc @ ''): '' @ details"

definition is_unambiguous_no_signature :: "signing_error \<Rightarrow> bool" where
  "is_unambiguous_no_signature e =
     (case e of
        KeyNotFound _ \<Rightarrow> True | LocalRejected _ \<Rightarrow> True | UnsupportedSigningType _ \<Rightarrow> True
      | UnsupportedDuty _ \<Rightarrow> True | SignerLacksGloasSupport _ _ \<Rightarrow> True | _ \<Rightarrow> False)"

datatype signing_gate_error =
    BlockedByDoppelganger
  | SlashingBlocked slashing_error
  | CommitFailed root slashing_error
  | SigningFailed string
  | GateKeyNotFound
  | UnknownPubkey

definition permits_retry_with_root :: "signing_gate_error \<Rightarrow> root \<Rightarrow> bool" where
  "permits_retry_with_root e proposed_root =
     (case e of
        CommitFailed signing_root _ \<Rightarrow> signing_root = proposed_root
      | SlashingBlocked _ \<Rightarrow> False
      | _ \<Rightarrow> False)"

datatype gate_err_class =
    ClassBlockedByDoppelganger
  | ClassSlashingBlocked string bool "string option"
  | ClassCommitFailed string
  | ClassKeyNotFound
  | ClassInternal string

definition client_message :: "gate_err_class \<Rightarrow> string" where
  "client_message c =
     (case c of
        ClassBlockedByDoppelganger \<Rightarrow> ''signing blocked by doppelganger gate''
      | ClassSlashingBlocked m _ _ \<Rightarrow> m
      | ClassCommitFailed _ \<Rightarrow> ''slashing DB commit failed; same-root retry is safe''
      | ClassKeyNotFound \<Rightarrow> ''unknown public key''
      | ClassInternal _ \<Rightarrow> ''internal signing error'')"

definition metrics_label :: "gate_err_class \<Rightarrow> string" where
  "metrics_label c =
     (case c of
        ClassBlockedByDoppelganger \<Rightarrow> ''doppelganger''
      | ClassSlashingBlocked _ violation _ \<Rightarrow> if violation then ''slashing'' else ''slashing_db_error''
      | ClassCommitFailed _ \<Rightarrow> ''internal''
      | ClassInternal _ \<Rightarrow> ''internal''
      | ClassKeyNotFound \<Rightarrow> ''key_not_found'')"

definition classify :: "hex_codec \<Rightarrow> signing_gate_error \<Rightarrow> gate_err_class" where
  "classify hx err =
     (case err of
        BlockedByDoppelganger \<Rightarrow> ClassBlockedByDoppelganger
      | SlashingBlocked inner \<Rightarrow>
          (case inner of
             SlashableBlock _ \<Rightarrow>
               ClassSlashingBlocked (''slashing protection violation: '' @ show_slashing_error hx inner) True None
           | SlashableAttestation _ \<Rightarrow>
               ClassSlashingBlocked (''slashing protection violation: '' @ show_slashing_error hx inner) True None
           | other \<Rightarrow>
               ClassSlashingBlocked ''slashing protection error'' False (Some (show_slashing_error hx other)))
      | CommitFailed _ inner \<Rightarrow> ClassCommitFailed (show_slashing_error hx inner)
      | GateKeyNotFound \<Rightarrow> ClassKeyNotFound
      | UnknownPubkey \<Rightarrow> ClassKeyNotFound
      | SigningFailed msg \<Rightarrow> ClassInternal msg)"

section \<open>The audited view of the database\<close>

record audit_record =
  au_client_cn :: string
  au_pubkey :: string
  au_outcome :: string

record sign_world =
  sw_db :: slashing_db
  sw_audit :: "audit_record list"

definition audit_log :: "string \<Rightarrow> string \<Rightarrow> string \<Rightarrow> sign_world \<Rightarrow> sign_world" where
  "audit_log client_cn pubkey outcome w =
     w\<lparr>sw_audit := sw_audit w @ [\<lparr>au_client_cn = client_cn, au_pubkey = pubkey, au_outcome = outcome\<rparr>]\<rparr>"

record scoped_db =
  sc_client_cn :: string
  sc_gvr :: root

definition audited ::
  "scoped_db \<Rightarrow> string \<Rightarrow> string \<Rightarrow> (slashing_db, slashing_error, 'a) action
     \<Rightarrow> (sign_world, slashing_error, 'a) action" where
  "audited sc pubkey_hex outcome m w =
     (case m (sw_db w) of
        (Inr x, d) \<Rightarrow> (Inr x, audit_log (sc_client_cn sc) pubkey_hex outcome (w\<lparr>sw_db := d\<rparr>))
      | (Inl e, d) \<Rightarrow> (Inl e, audit_log (sc_client_cn sc) pubkey_hex ''rejected'' (w\<lparr>sw_db := d\<rparr>)))"

definition scoped_reserve_block ::
  "hex_codec \<Rightarrow> other_threads \<Rightarrow> nat \<Rightarrow> scoped_db \<Rightarrow> string \<Rightarrow> slot \<Rightarrow> string option
     \<Rightarrow> (sign_world, slashing_error, committed_reservation) action" where
  "scoped_reserve_block hx others tx sc pubkey_hex slot signing_root_hex =
     audited sc pubkey_hex ''staged'' (reserve_block hx others tx pubkey_hex slot signing_root_hex (sc_gvr sc))"

definition scoped_reserve_attestation ::
  "hex_codec \<Rightarrow> other_threads \<Rightarrow> nat \<Rightarrow> scoped_db \<Rightarrow> string \<Rightarrow> epoch \<Rightarrow> epoch \<Rightarrow> string option
     \<Rightarrow> (sign_world, slashing_error, committed_reservation) action" where
  "scoped_reserve_attestation hx others tx sc pubkey_hex source_epoch target_epoch signing_root_hex =
     audited sc pubkey_hex ''staged''
       (reserve_attestation hx others tx pubkey_hex source_epoch target_epoch signing_root_hex (sc_gvr sc))"

definition scoped_reconcile_unsigned ::
  "scoped_db \<Rightarrow> committed_reservation \<Rightarrow> sign_world \<Rightarrow> reconcile_outcome \<times> sign_world" where
  "scoped_reconcile_unsigned sc res w =
     (case reconcile_unsigned res (sw_db w) of
        (outcome, d) \<Rightarrow>
          (outcome, audit_log (sc_client_cn sc) (cr_pubkey_hex res)
             (case outcome of Failed _ \<Rightarrow> ''reconcile_failed'' | Deleted \<Rightarrow> ''reconciled''
              | NotApplicable \<Rightarrow> ''reconciled'') (w\<lparr>sw_db := d\<rparr>)))"

text \<open>
  \<open>stage_block\<close> and \<open>stage_attestation\<close> of the view: a rejection is audited at once, a staged
  row carries its audit record until the caller has committed or discarded.
\<close>

definition scoped_stage ::
  "scoped_db \<Rightarrow> string \<Rightarrow> (slashing_db, slashing_error, 'a) action
     \<Rightarrow> (sign_world, slashing_error, 'a \<times> audit_record) action" where
  "scoped_stage sc pubkey_hex m w =
     (case m (sw_db w) of
        (Inr staged, d) \<Rightarrow>
          (Inr (staged, \<lparr>au_client_cn = sc_client_cn sc, au_pubkey = pubkey_hex, au_outcome = ''staged''\<rparr>),
           w\<lparr>sw_db := d\<rparr>)
      | (Inl e, d) \<Rightarrow> (Inl e, audit_log (sc_client_cn sc) pubkey_hex ''rejected'' (w\<lparr>sw_db := d\<rparr>)))"

definition scoped_stage_block ::
  "hex_codec \<Rightarrow> scoped_db \<Rightarrow> string \<Rightarrow> slot \<Rightarrow> string option
     \<Rightarrow> (sign_world, slashing_error, staged_block \<times> audit_record) action" where
  "scoped_stage_block hx sc pubkey_hex slot signing_root_hex =
     scoped_stage sc pubkey_hex (stage_block hx pubkey_hex slot signing_root_hex (sc_gvr sc))"

definition scoped_stage_attestation ::
  "hex_codec \<Rightarrow> scoped_db \<Rightarrow> string \<Rightarrow> epoch \<Rightarrow> epoch \<Rightarrow> string option
     \<Rightarrow> (sign_world, slashing_error, staged_attestation \<times> audit_record) action" where
  "scoped_stage_attestation hx sc pubkey_hex source_epoch target_epoch signing_root_hex =
     scoped_stage sc pubkey_hex
       (stage_attestation hx pubkey_hex source_epoch target_epoch signing_root_hex (sc_gvr sc))"

definition emit_audit :: "audit_record \<Rightarrow> sign_world \<Rightarrow> sign_world" where
  "emit_audit a = audit_log (au_client_cn a) (au_pubkey a) (au_outcome a)"

section \<open>The slashable core\<close>

datatype timeout_policy = DiscardStagedRow | RetainStagedRow

datatype timeout_policy_source = Fixed timeout_policy | ResolveUnderLock "nat \<Rightarrow> timeout_policy"

definition fail_closed_max :: "timeout_policy \<Rightarrow> timeout_policy \<Rightarrow> timeout_policy" where
  "fail_closed_max a b =
     (if a = RetainStagedRow \<or> b = RetainStagedRow then RetainStagedRow else DiscardStagedRow)"

datatype sign_result = Elapsed | Answered "signing_error + byte list" | BackendPanic string

datatype 'a blocking = Returned 'a | Panicked string

type_synonym sign_answer = "(signing_gate_error + byte list) blocking"

datatype slashable_kind = BlockDuty slot | AttestationDuty epoch epoch

record sign_session =
  ss_pubkey_bytes :: pubkey48
  ss_signing_root :: root
  ss_policy :: timeout_policy
  ss_policy_recheck :: "timeout_policy option"
  ss_op_name :: string
  ss_client_cn :: string
  ss_gvr :: root

definition ss_scoped :: "sign_session \<Rightarrow> scoped_db" where
  "ss_scoped s = \<lparr>sc_client_cn = ss_client_cn s, sc_gvr = ss_gvr s\<rparr>"

definition map_reserve_error :: "sign_session \<Rightarrow> slashing_error \<Rightarrow> signing_gate_error" where
  "map_reserve_error s err =
     (if is_reserve_commit_failure err then CommitFailed (ss_signing_root s) err else SlashingBlocked err)"

definition reconcile_reservation :: "sign_session \<Rightarrow> committed_reservation \<Rightarrow> sign_world \<Rightarrow> sign_world" where
  "reconcile_reservation s res w = snd (scoped_reconcile_unsigned (ss_scoped s) res w)"

definition finish_reserve_timeout ::
  "sign_session \<Rightarrow> committed_reservation \<Rightarrow> sign_world \<Rightarrow> sign_answer \<times> sign_world" where
  "finish_reserve_timeout s res w =
     (Returned (Inl (SigningFailed ''signer timed out'')),
      case ss_policy s of DiscardStagedRow \<Rightarrow> reconcile_reservation s res w | RetainStagedRow \<Rightarrow> w)"

definition finish_reserve_ambiguous ::
  "sign_session \<Rightarrow> committed_reservation \<Rightarrow> signing_error \<Rightarrow> sign_world \<Rightarrow> sign_answer \<times> sign_world" where
  "finish_reserve_ambiguous s res err w =
     (Returned (Inl (SigningFailed (show_signing_error err))),
      case ss_policy s of DiscardStagedRow \<Rightarrow> reconcile_reservation s res w | RetainStagedRow \<Rightarrow> w)"

text \<open>The fail-closed recheck of the policy, immediately before the backend is called.\<close>

definition recheck_policy :: "sign_session \<Rightarrow> sign_session" where
  "recheck_policy s =
     (case ss_policy_recheck s of
        Some p \<Rightarrow> s\<lparr>ss_policy := fail_closed_max (ss_policy s) p\<rparr>
      | None \<Rightarrow> s)"

definition finish_reserved ::
  "sign_session \<Rightarrow> committed_reservation \<Rightarrow> sign_result \<Rightarrow> sign_world \<Rightarrow> sign_answer \<times> sign_world" where
  "finish_reserved s res outcome w =
     (case outcome of
        Elapsed \<Rightarrow> finish_reserve_timeout s res w
      | BackendPanic msg \<Rightarrow> (Panicked msg, w)
      | Answered (Inr sig) \<Rightarrow> (Returned (Inr sig), w)
      | Answered (Inl e) \<Rightarrow>
          if is_unambiguous_no_signature e
          then (Returned (Inl (case e of KeyNotFound _ \<Rightarrow> GateKeyNotFound
                                | other \<Rightarrow> SigningFailed (show_signing_error other))),
                reconcile_reservation s res w)
          else finish_reserve_ambiguous s res e w)"

definition reserve_then_sign ::
  "sign_session \<Rightarrow> (sign_world, slashing_error, committed_reservation) action \<Rightarrow> sign_result
     \<Rightarrow> sign_world \<Rightarrow> sign_answer \<times> sign_world" where
  "reserve_then_sign s reserve outcome w =
     (case reserve w of
        (Inl e, w1) \<Rightarrow> (Returned (Inl (map_reserve_error s e)), w1)
      | (Inr res, w1) \<Rightarrow> finish_reserved (recheck_policy s) res outcome w1)"

definition reserve_duty ::
  "hex_codec \<Rightarrow> other_threads \<Rightarrow> nat \<Rightarrow> sign_session \<Rightarrow> slashable_kind
     \<Rightarrow> (sign_world, slashing_error, committed_reservation) action" where
  "reserve_duty hx others tx s kind =
     (let pubkey_hex = hex_encode hx (ss_pubkey_bytes s);
          signing_root = Some (hex_encode hx (ss_signing_root s))
      in case kind of
        BlockDuty slot \<Rightarrow> scoped_reserve_block hx others tx (ss_scoped s) pubkey_hex slot signing_root
      | AttestationDuty source_epoch target_epoch \<Rightarrow>
          scoped_reserve_attestation hx others tx (ss_scoped s) pubkey_hex source_epoch target_epoch signing_root)"

definition reserve_then_sign_duty ::
  "hex_codec \<Rightarrow> other_threads \<Rightarrow> nat \<Rightarrow> sign_session \<Rightarrow> slashable_kind \<Rightarrow> sign_result
     \<Rightarrow> sign_world \<Rightarrow> sign_answer \<times> sign_world" where
  "reserve_then_sign_duty hx others tx s kind outcome =
     reserve_then_sign s (reserve_duty hx others tx s kind) outcome"

record sign_slashable_request =
  rq_pubkey :: pubkey48
  rq_enabled_under_lock :: bool
  rq_signing_root :: root
  rq_policy :: timeout_policy_source
  rq_op_name :: string
  rq_client_cn :: string
  rq_gvr :: root
  rq_kind :: slashable_kind

definition session_of :: "sign_slashable_request \<Rightarrow> sign_session" where
  "session_of req =
     \<lparr>ss_pubkey_bytes = rq_pubkey req, ss_signing_root = rq_signing_root req,
      ss_policy = (case rq_policy req of Fixed p \<Rightarrow> p | ResolveUnderLock f \<Rightarrow> f 0),
      ss_policy_recheck = (case rq_policy req of Fixed _ \<Rightarrow> None | ResolveUnderLock f \<Rightarrow> Some (f 1)),
      ss_op_name = rq_op_name req, ss_client_cn = rq_client_cn req, ss_gvr = rq_gvr req\<rparr>"

text \<open>What the caller gets from \<open>spawn_blocking(...).await\<close>: a panic of the task is an error.\<close>

definition join_blocking :: "string \<Rightarrow> sign_answer \<Rightarrow> signing_gate_error + byte list" where
  "join_blocking op_name a =
     (case a of
        Returned r \<Rightarrow> r
      | Panicked e \<Rightarrow> Inl (SigningFailed (op_name @ '' task panicked: '' @ e)))"

definition sign_slashable_with_body ::
  "sign_slashable_request \<Rightarrow> (sign_session \<Rightarrow> sign_world \<Rightarrow> sign_answer \<times> sign_world)
     \<Rightarrow> (sign_world, signing_gate_error, byte list) action" where
  "sign_slashable_with_body req body w =
     (if \<not> rq_enabled_under_lock req then (Inl BlockedByDoppelganger, w)
      else case body (session_of req) w of (a, w1) \<Rightarrow> (join_blocking (rq_op_name req) a, w1))"

definition sign_slashable ::
  "hex_codec \<Rightarrow> other_threads \<Rightarrow> nat \<Rightarrow> sign_slashable_request \<Rightarrow> sign_result
     \<Rightarrow> (sign_world, signing_gate_error, byte list) action" where
  "sign_slashable hx others tx req outcome =
     sign_slashable_with_body req (\<lambda>s. reserve_then_sign_duty hx others tx s (rq_kind req) outcome)"

section \<open>The deprecated order: stage, sign, commit\<close>

text \<open>The trait \<open>StagedRow\<close>: how to commit and how to discard what was staged.\<close>

record staged_row =
  commit_row :: "(sign_world, slashing_error, unit) action"
  discard_row :: "sign_world \<Rightarrow> sign_world"

definition on_db :: "(slashing_db, 'e, 'a) action \<Rightarrow> (sign_world, 'e, 'a) action" where
  "on_db m w = (case m (sw_db w) of (r, d) \<Rightarrow> (r, w\<lparr>sw_db := d\<rparr>))"

definition staged_block_row :: "staged_block \<Rightarrow> staged_row" where
  "staged_block_row sb =
     \<lparr>commit_row = on_db (commit_staged_block sb),
      discard_row = (\<lambda>w. w\<lparr>sw_db := discard_staged_block sb (sw_db w)\<rparr>)\<rparr>"

definition staged_attestation_row :: "staged_attestation \<Rightarrow> staged_row" where
  "staged_attestation_row sa =
     \<lparr>commit_row = on_db (commit_staged_attestation sa),
      discard_row = (\<lambda>w. w\<lparr>sw_db := discard_staged_attestation sa (sw_db w)\<rparr>)\<rparr>"

definition audited_row :: "staged_row \<Rightarrow> audit_record \<Rightarrow> staged_row" where
  "audited_row r a =
     \<lparr>commit_row = (\<lambda>w. case commit_row r w of (x, w1) \<Rightarrow> (x, emit_audit a w1)),
      discard_row = (\<lambda>w. emit_audit a (discard_row r w))\<rparr>"

definition retain_staged_row ::
  "sign_session \<Rightarrow> staged_row \<Rightarrow> string \<Rightarrow> sign_world \<Rightarrow> sign_answer \<times> sign_world" where
  "retain_staged_row s staged failed_msg w =
     (case commit_row staged w of
        (Inl e, w1) \<Rightarrow> (Returned (Inl (CommitFailed (ss_signing_root s) e)), w1)
      | (Inr _, w1) \<Rightarrow> (Returned (Inl (SigningFailed failed_msg)), w1))"

definition finish_timeout :: "sign_session \<Rightarrow> staged_row \<Rightarrow> sign_world \<Rightarrow> sign_answer \<times> sign_world" where
  "finish_timeout s staged w =
     (case ss_policy s of
        DiscardStagedRow \<Rightarrow> (Returned (Inl (SigningFailed ''signer timed out'')), discard_row staged w)
      | RetainStagedRow \<Rightarrow> retain_staged_row s staged ''signer timed out'' w)"

definition finish_ambiguous_error ::
  "sign_session \<Rightarrow> staged_row \<Rightarrow> signing_error \<Rightarrow> sign_world \<Rightarrow> sign_answer \<times> sign_world" where
  "finish_ambiguous_error s staged err w =
     (case ss_policy s of
        DiscardStagedRow \<Rightarrow> (Returned (Inl (SigningFailed (show_signing_error err))), discard_row staged w)
      | RetainStagedRow \<Rightarrow> retain_staged_row s staged (show_signing_error err) w)"

text \<open>A panic of the backend drops the staged guard, which rolls back.\<close>

definition stage_then_sign ::
  "sign_session \<Rightarrow> (sign_world, slashing_error, staged_row) action \<Rightarrow> sign_result
     \<Rightarrow> sign_world \<Rightarrow> sign_answer \<times> sign_world" where
  "stage_then_sign s0 stage outcome w =
     (case stage w of
        (Inl e, w1) \<Rightarrow> (Returned (Inl (SlashingBlocked e)), w1)
      | (Inr staged, w1) \<Rightarrow>
          let s = recheck_policy s0 in
          (case outcome of
             Elapsed \<Rightarrow> finish_timeout s staged w1
           | BackendPanic msg \<Rightarrow> (Panicked msg, discard_row staged w1)
           | Answered (Inr sig) \<Rightarrow>
               (case commit_row staged w1 of
                  (Inr _, w2) \<Rightarrow> (Returned (Inr sig), w2)
                | (Inl e, w2) \<Rightarrow> (Returned (Inl (CommitFailed (ss_signing_root s) e)), w2))
           | Answered (Inl e) \<Rightarrow>
               if is_unambiguous_no_signature e
               then (Returned (Inl (case e of KeyNotFound _ \<Rightarrow> GateKeyNotFound
                                     | other \<Rightarrow> SigningFailed (show_signing_error other))),
                     discard_row staged w1)
               else finish_ambiguous_error s staged e w1))"

section \<open>The non-slashable core\<close>

datatype nonslashable_failure =
    TimedOut u64
  | NsKeyNotFound
  | NsBackend signing_error
  | NsBlocked

text \<open>The backend's answer is \<open>None\<close> when the client timeout elapsed first.\<close>

definition sign_nonslashable_core ::
  "bool \<Rightarrow> (signing_error + byte list) option \<Rightarrow> u64 \<Rightarrow> nonslashable_failure + byte list" where
  "sign_nonslashable_core enabled answer sign_timeout =
     (if \<not> enabled then Inl NsBlocked
      else case answer of
        None \<Rightarrow> Inl (TimedOut sign_timeout)
      | Some (Inr sig) \<Rightarrow> Inr sig
      | Some (Inl (KeyNotFound _)) \<Rightarrow> Inl NsKeyNotFound
      | Some (Inl e) \<Rightarrow> Inl (NsBackend e))"

section \<open>The gate\<close>

text \<open>
  The gate asks its enablement once outside the lock and once under it (or inside the
  non-slashable core); \<open>en\<close> answers the \<open>n\<close>-th question.
\<close>

type_synonym enablement = "nat \<Rightarrow> pubkey48 \<Rightarrow> bool"

definition default_when_unknown :: bool where
  "default_when_unknown = False"

definition gate_decision :: "enablement \<Rightarrow> pubkey48 \<Rightarrow> bool" where
  "gate_decision en pubkey = en 0 pubkey"

definition gate_sign_block ::
  "hex_codec \<Rightarrow> other_threads \<Rightarrow> nat \<Rightarrow> enablement \<Rightarrow> pubkey48 \<Rightarrow> slot \<Rightarrow> root \<Rightarrow> root \<Rightarrow> string
     \<Rightarrow> sign_result \<Rightarrow> (sign_world, signing_gate_error, byte list) action" where
  "gate_sign_block hx others tx en pubkey slot signing_root gvr client_cn outcome =
     (if \<not> gate_decision en pubkey then throwE BlockedByDoppelganger
      else sign_slashable hx others tx
        \<lparr>rq_pubkey = pubkey, rq_enabled_under_lock = en 1 pubkey, rq_signing_root = signing_root,
         rq_policy = Fixed DiscardStagedRow, rq_op_name = ''sign_block'', rq_client_cn = client_cn,
         rq_gvr = gvr, rq_kind = BlockDuty slot\<rparr> outcome)"

definition gate_sign_attestation ::
  "hex_codec \<Rightarrow> other_threads \<Rightarrow> nat \<Rightarrow> enablement \<Rightarrow> pubkey48 \<Rightarrow> epoch \<Rightarrow> epoch \<Rightarrow> root \<Rightarrow> root
     \<Rightarrow> string \<Rightarrow> sign_result \<Rightarrow> (sign_world, signing_gate_error, byte list) action" where
  "gate_sign_attestation hx others tx en pubkey source_epoch target_epoch signing_root gvr client_cn outcome =
     (if \<not> gate_decision en pubkey then throwE BlockedByDoppelganger
      else sign_slashable hx others tx
        \<lparr>rq_pubkey = pubkey, rq_enabled_under_lock = en 1 pubkey, rq_signing_root = signing_root,
         rq_policy = Fixed DiscardStagedRow, rq_op_name = ''sign_attestation'', rq_client_cn = client_cn,
         rq_gvr = gvr, rq_kind = AttestationDuty source_epoch target_epoch\<rparr> outcome)"

definition gate_sign_nonslashable ::
  "enablement \<Rightarrow> pubkey48 \<Rightarrow> (signing_error + byte list) option \<Rightarrow> u64 \<Rightarrow> signing_gate_error + byte list" where
  "gate_sign_nonslashable en pubkey answer sign_timeout =
     (if \<not> gate_decision en pubkey then Inl BlockedByDoppelganger
      else case sign_nonslashable_core (en 1 pubkey) answer sign_timeout of
        Inr sig \<Rightarrow> Inr sig
      | Inl NsBlocked \<Rightarrow> Inl BlockedByDoppelganger
      | Inl (TimedOut _) \<Rightarrow> Inl (SigningFailed ''signer timed out'')
      | Inl NsKeyNotFound \<Rightarrow> Inl GateKeyNotFound
      | Inl (NsBackend e) \<Rightarrow> Inl (SigningFailed (show_signing_error e)))"

section \<open>One reserve, seen by its caller\<close>

definition duty_spec :: "hex_codec \<Rightarrow> sign_session \<Rightarrow> slashable_kind \<Rightarrow> reserve_spec" where
  "duty_spec hx s kind =
     (let pk = normalize_pubkey (hex_encode hx (ss_pubkey_bytes s)); r = Some (hex_encode hx (ss_signing_root s));
          g = ss_gvr s; gh = gvr_hex_of_root hx (ss_gvr s)
      in case kind of BlockDuty sl \<Rightarrow> SpecBlock pk sl r g gh | AttestationDuty sr tg \<Rightarrow> SpecAttestation pk sr tg r g gh)"

lemma audited_Inr:
  "audited sc pk out m w = (Inr x, w') \<longleftrightarrow>
     (\<exists>d. m (sw_db w) = (Inr x, d) \<and> w' = audit_log (sc_client_cn sc) pk out (w\<lparr>sw_db := d\<rparr>))"
  by (auto simp: audited_def split: prod.splits sum.splits)

lemma audited_Inl:
  "audited sc pk out m w = (Inl e, w') \<longleftrightarrow>
     (\<exists>d. m (sw_db w) = (Inl e, d) \<and> w' = audit_log (sc_client_cn sc) pk ''rejected'' (w\<lparr>sw_db := d\<rparr>))"
  by (auto simp: audited_def split: prod.splits sum.splits)

lemma sw_db_audit_log [simp]: "sw_db (audit_log cn pk out w) = sw_db w"
  by (simp add: audit_log_def)

definition kind_safe :: "slashable_kind \<Rightarrow> bool" where
  "kind_safe k = (case k of BlockDuty sl \<Rightarrow> i64_safe sl | AttestationDuty s t \<Rightarrow> i64_safe s \<and> i64_safe t)"

lemma duty_spec_safe: "kind_safe kind \<Longrightarrow> spec_safe (duty_spec hx s kind)"
  by (cases kind) (simp_all add: kind_safe_def duty_spec_def Let_def)

lemma reserve_duty_db:
  assumes "reserve_duty hx others tx s kind w = (r, w')"
  shows "bindE (check_gvr_before_lock hx (ss_gvr s)) (\<lambda>_. enqueue_and_wait hx others (duty_spec hx s kind) tx) (sw_db w)
      = (r, sw_db w')"
  using assms by (cases kind; cases r)
    (auto simp: reserve_duty_def scoped_reserve_block_def scoped_reserve_attestation_def audited_Inr audited_Inl
      reserve_block_def reserve_attestation_def duty_spec_def ss_scoped_def Let_def)

text \<open>
  The caller may lead the group commit or wait for another thread that leads; \<open>waits_among\<close> says only
  that its channel is its own and that what the others queue is in range.
\<close>

lemma reserve_duty_run:
  assumes run: "reserve_duty hx others tx s kind w = (r, w')"
    and among: "waits_among tx others (sw_db w)" and ok: "tables_ok (committed (sd_conn (sw_db w)))" "kind_safe kind"
  shows "r = Inr res \<Longrightarrow> backs (committed (sd_conn (sw_db w'))) (duty_spec hx s kind)"
    and "isl r \<Longrightarrow> \<exists>acc. fst ` set acc \<subseteq> set (other_items others (sw_db w))
      \<and> admits_all (committed (sd_conn (sw_db w))) acc
      \<and> committed (sd_conn (sw_db w')) = apply_all (committed (sd_conn (sw_db w))) acc"
proof -
  let ?t = "committed (sd_conn (sw_db w))" and ?t' = "committed (sd_conn (sw_db w'))"
  have "(r = Inr res \<longrightarrow> backs ?t' (duty_spec hx s kind))
    \<and> (isl r \<longrightarrow> (\<exists>acc. fst ` set acc \<subseteq> set (other_items others (sw_db w)) \<and> admits_all ?t acc \<and> ?t' = apply_all ?t acc))"
    using reserve_duty_db [OF run]
  proof (cases rule: bindE_cases)
    case (err e)
    then show ?thesis using check_gvr_frame(1) by (auto intro: exI [of _ "[]"])
  next
    case (ok x d1)
    note f = check_gvr_frame [OF ok(1)]
    have "waits_among tx others d1" "other_items others d1 = other_items others (sw_db w)"
      using among f by (simp_all add: waits_among_def other_items_def)
    with enqueue_and_wait_run [OF ok(2)] f(1) assms(3) duty_spec_safe [OF assms(4)] obtain acc
      where acc: "?t' = apply_all ?t acc" "admits_all ?t acc"
        "\<And>res. r = Inr res \<Longrightarrow> \<exists>item. (item, res) \<in> set acc \<and> qr_spec item = duty_spec hx s kind"
        "isl r \<Longrightarrow> fst ` set acc \<subseteq> set (other_items others (sw_db w))"
      by metis
    then show ?thesis using admits_all_backs [OF acc(2)] by (metis acc(1))
  qed
  then show "r = Inr res \<Longrightarrow> backs ?t' (duty_spec hx s kind)"
    "isl r \<Longrightarrow> \<exists>acc. fst ` set acc \<subseteq> set (other_items others (sw_db w)) \<and> admits_all ?t acc \<and> ?t' = apply_all ?t acc"
    by blast+
qed

text \<open>
  C17: a signature is handed out only for a recorded duty. When \<open>sign_slashable\<close> returns a
  signature, to a caller that led the group commit or to one that waited for another leader while
  other callers enqueued, signing was enabled under the lock, the bytes are the backend's answer, and
  the durable tables hold the row of that duty. Stored and queued epochs and slots are below 2^63.
\<close>

theorem signature_implies_record:
  assumes "sign_slashable hx others tx req outcome w = (Inr sig, w')"
    and "waits_among tx others (sw_db w)" "tables_ok (committed (sd_conn (sw_db w)))" "kind_safe (rq_kind req)"
  shows "rq_enabled_under_lock req \<and> outcome = Answered (Inr sig)
    \<and> backs (committed (sd_conn (sw_db w'))) (duty_spec hx (session_of req) (rq_kind req))"
proof -
  let ?s = "session_of req"
  have en: "rq_enabled_under_lock req"
    using assms(1) by (auto simp: sign_slashable_def sign_slashable_with_body_def split: if_splits)
  obtain a where body: "reserve_then_sign_duty hx others tx ?s (rq_kind req) outcome w = (a, w')"
    and a: "join_blocking (rq_op_name req) a = Inr sig"
    using assms(1) en by (auto simp: sign_slashable_def sign_slashable_with_body_def split: prod.splits)
  have ret: "a = Returned (Inr sig)" using a by (cases a) (auto simp: join_blocking_def)
  obtain res w1 where reserve: "reserve_duty hx others tx ?s (rq_kind req) w = (Inr res, w1)"
    and fin: "finish_reserved (recheck_policy ?s) res outcome w1 = (Returned (Inr sig), w')"
    using body ret by (auto simp: reserve_then_sign_duty_def reserve_then_sign_def split: prod.splits sum.splits)
  have "outcome = Answered (Inr sig) \<and> w' = w1"
    using fin by (auto simp: finish_reserved_def finish_reserve_timeout_def finish_reserve_ambiguous_def
        split: sign_result.splits sum.splits if_splits)
  with en reserve_duty_run(1) [OF reserve assms(2-4)] show ?thesis by simp
qed

definition att_request :: "timeout_policy_source \<Rightarrow> sign_slashable_request" where
  "att_request policy = \<lparr>rq_pubkey = [0xAA], rq_enabled_under_lock = True, rq_signing_root = replicate 32 1,
     rq_policy = policy, rq_op_name = ''sign_attestation'', rq_client_cn = ''local-vc'', rq_gvr = replicate 32 7,
     rq_kind = AttestationDuty 2 3\<rparr>"

definition fresh_world :: "outcome list \<Rightarrow> sign_world" where
  "fresh_world faults = \<lparr>sw_db = fresh_db faults, sw_audit = []\<rparr>"

text \<open>No other thread, and a leader elsewhere that holds one batch while another caller is about to arrive.\<close>

definition nobody :: other_threads where
  "nobody = \<lparr>ot_in_flight = [], ot_arrivals = []\<rparr>"

definition busy :: other_threads where
  "busy = \<lparr>ot_in_flight = [att_item 7 ''0xbb'' 1 2 ''0x02''], ot_arrivals = [[], [att_item 8 ''0xcc'' 1 2 ''0x03'']]\<rparr>"

definition led_world :: "outcome list \<Rightarrow> sign_world" where
  "led_world faults = \<lparr>sw_db = (fresh_db faults)\<lparr>leader_active := True\<rparr>, sw_audit = []\<rparr>"

lemma fresh_world_ready:
  "waits_among 0 nobody (sw_db (fresh_world faults))" "tables_ok (committed (sd_conn (sw_db (fresh_world faults))))"
  "kind_safe (AttestationDuty 2 3)"
  "waits_among 0 busy (sw_db (led_world faults))" "tables_ok (committed (sd_conn (sw_db (led_world faults))))"
proof -
  have "list_all (\<lambda>item. qr_tx item \<noteq> 0 \<and> spec_safe (qr_spec item)) (ot_in_flight busy @ concat (ot_arrivals busy))" by code_simp
  moreover have empty: "tables_ok empty_tables" by code_simp
  ultimately show "waits_among 0 nobody (sw_db (fresh_world faults))" "waits_among 0 busy (sw_db (led_world faults))"
    "tables_ok (committed (sd_conn (sw_db (fresh_world faults))))" "tables_ok (committed (sd_conn (sw_db (led_world faults))))"
    by (simp_all add: waits_among_def other_items_def nobody_def fresh_world_def led_world_def fresh_db_def from_connection_def)
qed code_simp

theorem signature_implies_record_witness:
  "let req = att_request (Fixed RetainStagedRow); sig = replicate 96 9;
       (r, w') = sign_slashable hex_ref nobody 0 req (Answered (Inr sig)) (fresh_world []);
       (r2, w2) = sign_slashable hex_ref busy 0 req (Answered (Inr sig)) (led_world [])
   in r = Inr sig \<and> r2 = Inr sig
      \<and> backs (committed (sd_conn (sw_db w'))) (duty_spec hex_ref (session_of req) (rq_kind req))
      \<and> backs (committed (sd_conn (sw_db w2))) (duty_spec hex_ref (session_of req) (rq_kind req))"
proof -
  let ?req = "att_request (Fixed RetainStagedRow)" and ?sig = "replicate 96 9 :: byte list"
  let ?run = "sign_slashable hex_ref nobody 0 ?req (Answered (Inr ?sig)) (fresh_world [])"
  let ?run2 = "sign_slashable hex_ref busy 0 ?req (Answered (Inr ?sig)) (led_world [])"
  have kind: "rq_kind ?req = AttestationDuty 2 3" by (simp add: att_request_def)
  have "fst ?run = Inr ?sig" by code_simp
  then obtain w' where run: "?run = (Inr ?sig, w')" by (cases ?run) simp
  have "fst ?run2 = Inr ?sig" by code_simp
  then obtain w2 where run2: "?run2 = (Inr ?sig, w2)" by (cases ?run2) simp
  from signature_implies_record [OF run fresh_world_ready(1,2)]
    signature_implies_record [OF run2 fresh_world_ready(4,5)] fresh_world_ready(3) kind show ?thesis
    unfolding Let_def run run2 by simp
qed

definition resolves_to_retain :: "timeout_policy_source \<Rightarrow> bool" where
  "resolves_to_retain p =
     (case p of Fixed q \<Rightarrow> q = RetainStagedRow | ResolveUnderLock f \<Rightarrow> f 0 = RetainStagedRow \<or> f 1 = RetainStagedRow)"

lemma recheck_retains:
  "ss_policy (recheck_policy (session_of req)) = RetainStagedRow \<longleftrightarrow> resolves_to_retain (rq_policy req)"
  by (auto simp: recheck_policy_def session_of_def resolves_to_retain_def fail_closed_max_def
      split: timeout_policy_source.splits option.splits)

text \<open>
  C18: fail-closed for remote backends. When either resolution of the policy says retain, then a
  timeout, an ambiguous backend error or a panic of the signing task leaves the row of the duty
  durable, for a caller that led the group commit and for one that waited for another leader, so that
  no later request can conflict with a signature the backend may have produced.
\<close>

theorem ambiguous_failure_retains_record:
  assumes "sign_slashable hx others tx req outcome w = (Inl (SigningFailed m), w')"
    and "resolves_to_retain (rq_policy req)" "\<forall>e. outcome = Answered (Inl e) \<longrightarrow> \<not> is_unambiguous_no_signature e"
    and "waits_among tx others (sw_db w)" "tables_ok (committed (sd_conn (sw_db w)))" "kind_safe (rq_kind req)"
  shows "backs (committed (sd_conn (sw_db w'))) (duty_spec hx (session_of req) (rq_kind req))"
proof -
  let ?s = "session_of req"
  have en: "rq_enabled_under_lock req"
    using assms(1) by (auto simp: sign_slashable_def sign_slashable_with_body_def split: if_splits)
  obtain a where body: "reserve_then_sign_duty hx others tx ?s (rq_kind req) outcome w = (a, w')"
    and a: "join_blocking (rq_op_name req) a = Inl (SigningFailed m)"
    using assms(1) en by (auto simp: sign_slashable_def sign_slashable_with_body_def split: prod.splits)
  obtain x w1 where reserve: "reserve_duty hx others tx ?s (rq_kind req) w = (x, w1)" by fastforce
  show ?thesis
  proof (cases x)
    case (Inl e)
    then have "a = Returned (Inl (map_reserve_error ?s e))"
      using body reserve by (simp add: reserve_then_sign_duty_def reserve_then_sign_def)
    with a show ?thesis by (simp add: join_blocking_def map_reserve_error_def split: if_splits)
  next
    case (Inr res)
    then have fin: "finish_reserved (recheck_policy ?s) res outcome w1 = (a, w')"
      using body reserve by (simp add: reserve_then_sign_duty_def reserve_then_sign_def)
    have "w' = w1"
      using fin assms(3) recheck_retains [of req] assms(2)
      by (auto simp: finish_reserved_def finish_reserve_timeout_def finish_reserve_ambiguous_def
          split: sign_result.splits sum.splits if_splits)
    with reserve_duty_run(1) [OF reserve assms(4-6) Inr] show ?thesis by simp
  qed
qed

theorem ambiguous_failure_retains_record_witness:
  "let req = att_request (ResolveUnderLock (\<lambda>n. if n = 0 then DiscardStagedRow else RetainStagedRow));
       (r, w') = sign_slashable hex_ref busy 0 req Elapsed (led_world [])
   in r = Inl (SigningFailed ''signer timed out'')
      \<and> backs (committed (sd_conn (sw_db w'))) (duty_spec hex_ref (session_of req) (rq_kind req))"
proof -
  define req where "req = att_request (ResolveUnderLock (\<lambda>n. if n = 0 then DiscardStagedRow else RetainStagedRow))"
  have kind: "rq_kind req = AttestationDuty 2 3" and pol: "resolves_to_retain (rq_policy req)"
    by (simp_all add: req_def att_request_def resolves_to_retain_def)
  have "fst (sign_slashable hex_ref busy 0 req Elapsed (led_world [])) = Inl (SigningFailed ''signer timed out'')"
    unfolding req_def by code_simp
  then obtain w' where run: "sign_slashable hex_ref busy 0 req Elapsed (led_world []) = (Inl (SigningFailed ''signer timed out''), w')"
    by (cases "sign_slashable hex_ref busy 0 req Elapsed (led_world [])") simp
  from ambiguous_failure_retains_record [OF run pol _ fresh_world_ready(4,5)] fresh_world_ready(3) kind show ?thesis
    unfolding Let_def req_def [symmetric] run by simp
qed

section \<open>Nothing written, same-root retry allowed\<close>

text \<open>
  C19: the retry contract. When an error of \<open>sign_slashable\<close> permits a retry with a root, that root is the
  one of the request, and nothing was written for the request: the durable tables differ from those
  before only by rows reserved for other callers that shared the group commit, and not at all when there
  were none. It holds for a caller that led the group commit and for one that waited for another leader.
\<close>

theorem commit_failure_wrote_nothing:
  assumes "sign_slashable hx others tx req outcome w = (Inl err, w')"
    and "waits_among tx others (sw_db w)"
    and "tables_ok (committed (sd_conn (sw_db w)))" "kind_safe (rq_kind req)"
    and "permits_retry_with_root err root"
  shows "root = rq_signing_root req
    \<and> (\<exists>acc. fst ` set acc \<subseteq> set (other_items others (sw_db w))
         \<and> committed (sd_conn (sw_db w')) = apply_all (committed (sd_conn (sw_db w))) acc)
    \<and> (other_items others (sw_db w) = [] \<longrightarrow> committed (sd_conn (sw_db w')) = committed (sd_conn (sw_db w)))"
proof -
  let ?s = "session_of req"
  obtain e where err: "err = CommitFailed root e"
    using assms(5) by (auto simp: permits_retry_with_root_def split: signing_gate_error.splits)
  have en: "rq_enabled_under_lock req"
    using assms(1) err by (auto simp: sign_slashable_def sign_slashable_with_body_def split: if_splits)
  obtain a where body: "reserve_then_sign_duty hx others tx ?s (rq_kind req) outcome w = (a, w')"
    and a: "join_blocking (rq_op_name req) a = Inl err"
    using assms(1) en by (auto simp: sign_slashable_def sign_slashable_with_body_def split: prod.splits)
  have ret: "a = Returned (Inl (CommitFailed root e))" using a err by (cases a) (auto simp: join_blocking_def)
  obtain x w1 where reserve: "reserve_duty hx others tx ?s (rq_kind req) w = (x, w1)" by fastforce
  show ?thesis
  proof (cases x)
    case (Inl e')
    then have eqs: "a = Returned (Inl (map_reserve_error ?s e'))" "w' = w1"
      using body reserve by (simp_all add: reserve_then_sign_duty_def reserve_then_sign_def)
    have "root = rq_signing_root req"
      using ret eqs(1) by (auto simp: map_reserve_error_def session_of_def split: if_splits)
    moreover obtain acc where "fst ` set acc \<subseteq> set (other_items others (sw_db w))"
      "committed (sd_conn (sw_db w1)) = apply_all (committed (sd_conn (sw_db w))) acc"
      using reserve_duty_run(2) [OF reserve assms(2-4)] Inl by auto
    ultimately show ?thesis using eqs(2) by auto
  next
    case (Inr res)
    then have "finish_reserved (recheck_policy ?s) res outcome w1 = (a, w')"
      using body reserve by (simp add: reserve_then_sign_duty_def reserve_then_sign_def)
    with ret show ?thesis
      by (auto simp: finish_reserved_def finish_reserve_timeout_def finish_reserve_ambiguous_def
          split: sign_result.splits sum.splits if_splits signing_error.splits)
  qed
qed

text \<open>
  A follower whose own batch fails to commit after the batch held by the leader was written, and a lone
  caller whose commit fails.
\<close>

theorem commit_failure_wrote_nothing_witness:
  "let req = att_request (Fixed RetainStagedRow); failed = Inl (CommitFailed (replicate 32 1) (ReserveCommitFailed ''disk I/O error''));
       w = led_world (replicate 20 (None, 0) @ [(Some ''disk I/O error'', 0)]);
       (r, w') = sign_slashable hex_ref busy 0 req (Answered (Inr [])) w;
       w2 = fresh_world (replicate 10 (None, 0) @ [(Some ''disk I/O error'', 0)]);
       (r2, w2') = sign_slashable hex_ref nobody 0 req (Answered (Inr [])) w2
   in r = failed \<and> r2 = failed
      \<and> (\<exists>acc. fst ` set acc \<subseteq> set (other_items busy (sw_db w))
           \<and> committed (sd_conn (sw_db w')) = apply_all (committed (sd_conn (sw_db w))) acc)
      \<and> committed (sd_conn (sw_db w2')) = committed (sd_conn (sw_db w2))"
proof -
  define req where "req = att_request (Fixed RetainStagedRow)"
  define w where "w = led_world (replicate 20 (None, 0) @ [(Some ''disk I/O error'', 0)])"
  define w2 where "w2 = fresh_world (replicate 10 (None, 0) @ [(Some ''disk I/O error'', 0)])"
  define e where "e = CommitFailed (replicate 32 1) (ReserveCommitFailed ''disk I/O error'')"
  have kind: "rq_kind req = AttestationDuty 2 3" by (simp add: req_def att_request_def)
  have "fst (sign_slashable hex_ref busy 0 req (Answered (Inr [])) w) = Inl e"
    unfolding req_def w_def e_def by code_simp
  then obtain w' where run: "sign_slashable hex_ref busy 0 req (Answered (Inr [])) w = (Inl e, w')"
    by (metis prod.collapse)
  have "fst (sign_slashable hex_ref nobody 0 req (Answered (Inr [])) w2) = Inl e"
    unfolding req_def w2_def e_def by code_simp
  then obtain w2' where run2: "sign_slashable hex_ref nobody 0 req (Answered (Inr [])) w2 = (Inl e, w2')"
    by (metis prod.collapse)
  have retry: "permits_retry_with_root e (replicate 32 1)" by (simp add: e_def permits_retry_with_root_def)
  have ks: "kind_safe (rq_kind req)" unfolding kind by (rule fresh_world_ready(3))
  have empty: "other_items nobody (sw_db w2) = []"
    by (simp add: other_items_def nobody_def w2_def fresh_world_def fresh_db_def from_connection_def)
  have ready: "waits_among 0 busy (sw_db w)" "tables_ok (committed (sd_conn (sw_db w)))"
    "waits_among 0 nobody (sw_db w2)" "tables_ok (committed (sd_conn (sw_db w2)))"
    unfolding w_def w2_def by (rule fresh_world_ready)+
  from commit_failure_wrote_nothing [OF run ready(1,2) ks retry]
    commit_failure_wrote_nothing [OF run2 ready(3,4) ks retry] empty show ?thesis
    unfolding Let_def req_def [symmetric] w_def [symmetric] w2_def [symmetric] run run2 e_def by simp
qed

end
