(* ===== verification/Signing_History.thy ===== *)
theory Signing_History
  imports Slashing_Import Signer_Core
begin

text \<open>
  The signing system over time. The state is the database with its audit trail, the slashable
  signing sessions that are between their reserve and their end (at most one per public key: each
  holds that key's lock, see \<open>Signer_Locks\<close>), and a ghost set of the messages a backend has
  signed. Steps are group commits of reserves, backends producing signatures, sessions ending as
  \<open>finish_reserved\<close> ends them, the maintenance operations on the database, and crashes.

  The theorem is the purpose of the whole component: no two messages that were ever signed are
  slashable.
\<close>

section \<open>Messages\<close>

fun slashable :: "reserve_spec \<Rightarrow> reserve_spec \<Rightarrow> bool" where
  "slashable (SpecBlock pk sl r g gh) (SpecBlock pk' sl' r' g' gh') \<longleftrightarrow> pk = pk' \<and> sl = sl' \<and> r \<noteq> r'"
| "slashable (SpecAttestation pk s t r g gh) (SpecAttestation pk' s' t' r' g' gh') \<longleftrightarrow>
     pk = pk' \<and> (t = t' \<and> r \<noteq> r' \<or> surrounds (s, t) (s', t') \<or> surrounds (s', t') (s, t))"
| "slashable _ _ \<longleftrightarrow> False"

lemma slashable_sym: "slashable a b \<longleftrightarrow> slashable b a"
  by (cases a; cases b) auto

lemma slashable_irrefl [simp]: "\<not> slashable a a"
  by (cases a) (auto simp: surrounds_def)

lemma slashable_pubkey: "slashable a b \<Longrightarrow> spec_pubkey a = spec_pubkey b"
  by (cases a; cases b) auto

text \<open>
  A signing root is a hash of the message, so it determines the source epoch of an attestation;
  \<open>src\<close> is that function. The core always records a root.
\<close>

fun honest_spec :: "(string \<Rightarrow> epoch) \<Rightarrow> reserve_spec \<Rightarrow> bool" where
  "honest_spec src (SpecBlock pk sl r g gh) \<longleftrightarrow> r \<noteq> None"
| "honest_spec src (SpecAttestation pk s t r g gh) \<longleftrightarrow> (case r of Some x \<Rightarrow> src x = s | None \<Rightarrow> False)"

definition canonical_spec :: "reserve_spec \<Rightarrow> bool" where
  "canonical_spec m \<longleftrightarrow> normalize_pubkey (spec_pubkey m) = spec_pubkey m"

section \<open>What protects a signed message\<close>

definition floored_att :: "tables \<Rightarrow> string \<Rightarrow> epoch \<Rightarrow> epoch \<Rightarrow> bool" where
  "floored_att t pk s tg \<longleftrightarrow> wm_le (Some s) (watermark_of pk AttestationSource t)
     \<and> wm_le (Some tg) (watermark_of pk AttestationTarget t)"

definition floored_block :: "tables \<Rightarrow> string \<Rightarrow> slot \<Rightarrow> bool" where
  "floored_block t pk sl \<longleftrightarrow> wm_le (Some sl) (watermark_of pk Block t)"

fun covered :: "tables \<Rightarrow> reserve_spec \<Rightarrow> bool" where
  "covered t (SpecBlock pk sl r g gh) \<longleftrightarrow> floored_block t pk sl
     \<or> (\<exists>x\<in>set (blocks t). br_pubkey x = pk \<and> br_slot x = as_i64 sl \<and> br_signing_root x = r)"
| "covered t (SpecAttestation pk s tg r g gh) \<longleftrightarrow> floored_att t pk s tg
     \<or> (\<exists>x\<in>set (attestations t). ar_pubkey x = pk \<and> ar_source x = as_i64 s \<and> ar_target x = as_i64 tg
           \<and> ar_signing_root x = r)"

text \<open>Tables that keep protecting what others protected.\<close>

definition absorbs :: "tables \<Rightarrow> tables \<Rightarrow> bool" where
  "absorbs t t' \<longleftrightarrow> floors_raised t t'
     \<and> (\<forall>r\<in>set (attestations t). r \<in> set (attestations t')
          \<or> floored_att t' (ar_pubkey r) (as_u64 (ar_source r)) (as_u64 (ar_target r)))
     \<and> (\<forall>r\<in>set (blocks t). r \<in> set (blocks t') \<or> floored_block t' (br_pubkey r) (as_u64 (br_slot r)))"

lemma floored_mono:
  "floors_raised t t' \<Longrightarrow> floored_att t pk s tg \<Longrightarrow> floored_att t' pk s tg"
  "floors_raised t t' \<Longrightarrow> floored_block t pk sl \<Longrightarrow> floored_block t' pk sl"
  by (meson floored_att_def floored_block_def floors_raised_def wm_le_trans)+

lemma covered_absorbs: "absorbs t t' \<Longrightarrow> covered t m \<Longrightarrow> covered t' m"
proof (cases m)
  case (SpecBlock pk sl r g gh)
  assume a: "absorbs t t'" "covered t m"
  then consider "floored_block t pk sl"
    | x where "x \<in> set (blocks t)" "br_pubkey x = pk" "br_slot x = as_i64 sl" "br_signing_root x = r"
    unfolding SpecBlock by auto
  then show ?thesis
  proof cases
    case 1
    with a floored_mono show ?thesis unfolding absorbs_def SpecBlock by auto
  next
    case 2
    with a(1) show ?thesis unfolding absorbs_def SpecBlock by fastforce
  qed
next
  case (SpecAttestation pk s tg r g gh)
  assume a: "absorbs t t'" "covered t m"
  then consider "floored_att t pk s tg"
    | x where "x \<in> set (attestations t)" "ar_pubkey x = pk" "ar_source x = as_i64 s" "ar_target x = as_i64 tg"
      "ar_signing_root x = r"
    unfolding SpecAttestation by auto
  then show ?thesis
  proof cases
    case 1
    with a floored_mono show ?thesis unfolding absorbs_def SpecAttestation by auto
  next
    case 2
    with a(1) show ?thesis unfolding absorbs_def SpecAttestation by fastforce
  qed
qed

lemma watermark_of_without [simp]: "watermark_of pk k (without_reserved res t) = watermark_of pk k t"
  by (simp add: without_reserved_def watermark_of_def)

lemma floored_without [simp]:
  "floored_att (without_reserved res t) pk s tg = floored_att t pk s tg"
  "floored_block (without_reserved res t) pk sl = floored_block t pk sl"
  by (simp_all add: floored_att_def floored_block_def)

lemma rows_without:
  "set (attestations (without_reserved res t)) = {r \<in> set (attestations t). \<not> reserved_att_row res r}"
  "set (blocks (without_reserved res t)) = {r \<in> set (blocks t). \<not> reserved_block_row res r}"
  by (simp_all add: without_reserved_def)

lemma absorbs_without: "absorbs t t' \<Longrightarrow> absorbs (without_reserved res t) (without_reserved res t')"
  unfolding absorbs_def rows_without floored_without floors_raised_def watermark_of_without by blast

lemma extends_absorbs: "extends t t' \<Longrightarrow> absorbs t t'"
  by (auto simp: extends_def absorbs_def floors_raised_def watermark_of_def)

lemma grown_absorbs: "grown t t' \<Longrightarrow> absorbs t t'"
  by (auto simp: grown_def absorbs_def)

lemma without_other_key:
  assumes "covered t m" "spec_pubkey m \<noteq> normalize_pubkey (cr_pubkey_hex res)"
  shows "covered (without_reserved res t) m"
proof (cases m)
  case (SpecBlock pk sl r g gh)
  then have "\<not> reserved_block_row res x" if "br_pubkey x = pk" for x using assms(2) that by auto
  with assms(1) show ?thesis unfolding SpecBlock covered.simps floored_without rows_without by blast
next
  case (SpecAttestation pk s tg r g gh)
  then have "\<not> reserved_att_row res x" if "ar_pubkey x = pk" for x using assms(2) that by auto
  with assms(1) show ?thesis unfolding SpecAttestation covered.simps floored_without rows_without by blast
qed

lemma without_commute: "without_reserved a (without_reserved b t) = without_reserved b (without_reserved a t)"
  by (simp add: without_reserved_def conj_commute)

section \<open>Admission\<close>

lemma row_in_history:
  "x \<in> set (attestations t) \<Longrightarrow> existing_of_row x \<in> att_history_of (ar_pubkey x) t"
  "y \<in> set (blocks t) \<Longrightarrow> (as_u64 (br_slot y), br_signing_root y) \<in> block_history_of (br_pubkey y) t"
  by (auto simp: att_history_of_def att_rows_of_def block_history_of_def block_rows_of_def)

lemma admits_excludes_slashable:
  assumes adm: "admits t m ins" and cov: "covered t m'" and ok: "tables_ok t"
  shows "\<not> slashable m' m"
proof (cases m)
  case m: (SpecBlock pk sl r g gh)
  show ?thesis
  proof (cases m')
    case m': (SpecBlock pk' sl' r' g' gh')
    have floor: "\<not> floored_block t pk sl"
      using adm unfolding m by (auto simp: above_block_floor_wm floored_block_def wm_le_def)
    have row: "r' = r" if "x \<in> set (blocks t)" "br_pubkey x = pk" "br_slot x = as_i64 sl" "br_signing_root x = r'" for x
    proof -
      have mem: "(sl, r') \<in> block_history_of pk t" using row_in_history(2) [OF that(1)] that by simp
      then have "\<not> ins" using adm unfolding m by force
      with adm have "(sl, r) \<in> block_history_of pk t" unfolding m by simp
      then obtain y where y: "y \<in> set (blocks t)" "br_pubkey y = pk" "as_u64 (br_slot y) = sl" "br_signing_root y = r"
        by (auto simp: block_history_of_def block_rows_of_def)
      have "safe_int (br_slot y)" using ok y(1) by (simp add: tables_ok_def safe_tables_def)
      with y(3) have "br_slot y = as_i64 sl" by auto
      with that y ok have "y = x"
        by (auto simp: tables_ok_def wf_tables_def distinct_map dest: inj_onD)
      with y that show ?thesis by simp
    qed
    show ?thesis using cov floor row unfolding m m' by auto
  qed (simp add: m)
next
  case m: (SpecAttestation pk s tg r g gh)
  show ?thesis
  proof (cases m')
    case m': (SpecAttestation pk' s' tg' r' g' gh')
    have above: "\<And>w. watermark_of pk AttestationSource t = Some w \<Longrightarrow> w \<le> s"
      "\<And>w. watermark_of pk AttestationTarget t = Some w \<Longrightarrow> w < tg"
      using adm unfolding m by (auto simp: above_att_floors_wm)
    have floor: "\<not> (tg' = tg \<and> r' \<noteq> r \<or> surrounds (s', tg') (s, tg) \<or> surrounds (s, tg) (s', tg'))"
      if "floored_att t pk s' tg'"
      using that above by (fastforce simp: floored_att_def wm_le_def surrounds_def)
    have row: "\<not> (tg' = tg \<and> r' \<noteq> r \<or> surrounds (s', tg') (s, tg) \<or> surrounds (s, tg) (s', tg'))"
      if x: "x \<in> set (attestations t)" "ar_pubkey x = pk" "ar_source x = as_i64 s'" "ar_target x = as_i64 tg'"
        "ar_signing_root x = r'" for x
    proof -
      have mem: "existing_of_row x \<in> att_history_of pk t" using row_in_history(1) [OF x(1)] x(2) by simp
      have ex: "ea_span (existing_of_row x) = (s', tg')" "ea_target_epoch (existing_of_row x) = tg'"
        using x by (auto simp: existing_of_row_def)
      have sur: "\<not> surrounds (s, tg) (s', tg')" "\<not> surrounds (s', tg') (s, tg)"
        using adm mem ex unfolding m by fastforce+
      have "r' = r" if "tg' = tg"
      proof -
        have "ins \<Longrightarrow> \<forall>e\<in>att_history_of pk t. ea_target_epoch e \<noteq> tg" using adm unfolding m by simp
        with mem ex(2) that have "\<not> ins" by blast
        with adm obtain e where e: "e \<in> att_history_of pk t" "ea_target_epoch e = tg" "ea_signing_root e = r"
          unfolding m by auto
        then obtain y where y: "y \<in> set (attestations t)" "ar_pubkey y = pk" "as_u64 (ar_target y) = tg" "ar_signing_root y = r"
          by (auto simp: att_history_of_def att_rows_of_def existing_of_row_def)
        have "safe_int (ar_target y)" using ok y(1) by (simp add: tables_ok_def safe_tables_def)
        with y(3) have "ar_target y = as_i64 tg" by auto
        with x y ok that have "y = x"
          by (auto simp: tables_ok_def wf_tables_def distinct_map dest: inj_onD)
        with y x show ?thesis by simp
      qed
      with sur show ?thesis by blast
    qed
    show ?thesis using cov floor row unfolding m m' by auto
  qed (simp add: m)
qed

text \<open>Rows that a floor does not yet cover carry a root that fixes their source.\<close>

definition honest_tables :: "(string \<Rightarrow> epoch) \<Rightarrow> tables \<Rightarrow> bool" where
  "honest_tables src t \<longleftrightarrow> (\<forall>r\<in>set (attestations t).
     wm_le (Some (as_u64 (ar_target r))) (watermark_of (ar_pubkey r) AttestationTarget t)
     \<or> (\<forall>x. ar_signing_root r = Some x \<longrightarrow> src x = as_u64 (ar_source r)))"

lemma admitted_covered:
  assumes adm: "admits t m ins" and ok: "tables_ok t" and h: "honest_tables src t" "honest_spec src m"
  shows "covered (apply_spec t m ins) m"
proof (cases m)
  case m: (SpecBlock pk sl r g gh)
  show ?thesis
  proof (cases ins)
    case False
    with adm obtain y where y: "y \<in> set (blocks t)" "br_pubkey y = pk" "as_u64 (br_slot y) = sl" "br_signing_root y = r"
      unfolding m by (auto simp: block_history_of_def block_rows_of_def)
    have "safe_int (br_slot y)" using ok y(1) by (simp add: tables_ok_def safe_tables_def)
    with y False show ?thesis unfolding m by auto
  qed (simp add: m block_row_of_def)
next
  case m: (SpecAttestation pk s tg r g gh)
  show ?thesis
  proof (cases ins)
    case False
    with adm obtain e where e: "e \<in> att_history_of pk t" "ea_target_epoch e = tg" "ea_signing_root e = r"
      unfolding m by auto
    then obtain y where y: "y \<in> set (attestations t)" "ar_pubkey y = pk" "as_u64 (ar_target y) = tg" "ar_signing_root y = r"
      by (auto simp: att_history_of_def att_rows_of_def existing_of_row_def)
    have safe: "safe_int (ar_target y)" "safe_int (ar_source y)" using ok y(1) by (simp_all add: tables_ok_def safe_tables_def)
    have "\<not> wm_le (Some tg) (watermark_of pk AttestationTarget t)"
      using adm unfolding m by (auto simp: above_att_floors_wm wm_le_def)
    moreover obtain x where "r = Some x" "src x = s" using h(2) unfolding m by (auto split: option.splits)
    ultimately have "as_u64 (ar_source y) = s" using h(1) y by (auto simp: honest_tables_def)
    with y safe False show ?thesis unfolding m by auto
  qed (simp add: m att_row_of_def)
qed

lemma honest_apply:
  assumes "honest_tables src t" "honest_spec src m"
  shows "honest_tables src (apply_spec t m ins)"
  using assms by (cases m) (auto simp: honest_tables_def att_row_of_def watermark_of_def split: option.splits)

lemma watermark_of_apply: "watermark_of pk k (apply_spec t m ins) = watermark_of pk k t"
  by (cases m) (simp_all add: watermark_of_def)

lemma floors_raised_fresh: "floors_raised t (without_reserved res (apply_spec t m ins))"
  by (simp add: floors_raised_def watermark_of_apply)

text \<open>Undoing a fresh reservation gives back at least the rows there were before.\<close>

lemma without_fresh_extends:
  assumes adm: "admits t m True" and ok: "tables_ok t" "spec_safe m" and can: "canonical_spec m"
  shows "absorbs t (without_reserved (reservation_of m True) (apply_spec t m True))"
proof (cases m)
  case m: (SpecBlock pk sl r g gh)
  have "\<not> reserved_block_row (reservation_of m True) x" if x: "x \<in> set (blocks t)" for x
  proof
    assume "reserved_block_row (reservation_of m True) x"
    then have "br_pubkey x = pk" "br_slot x = as_i64 sl" using can by (auto simp: m canonical_spec_def)
    with row_in_history(2) [OF x] have "sl \<in> fst ` block_history_of pk t" by force
    with adm show False by (simp add: m)
  qed
  moreover have "\<not> reserved_att_row (reservation_of m True) x" for x by (simp add: m)
  ultimately show ?thesis
    unfolding absorbs_def rows_without using floors_raised_fresh extends_apply_spec [of t m True]
    unfolding extends_def by blast
next
  case m: (SpecAttestation pk s tg r g gh)
  have "\<not> reserved_att_row (reservation_of m True) x" if x: "x \<in> set (attestations t)" for x
  proof
    assume "reserved_att_row (reservation_of m True) x"
    then have "ar_pubkey x = pk" "ar_target x = as_i64 tg" using can by (auto simp: m canonical_spec_def)
    with row_in_history(1) [OF x] have "\<exists>e\<in>att_history_of pk t. ea_target_epoch e = tg"
      by (intro bexI [of _ "existing_of_row x"]) (auto simp: existing_of_row_def)
    with adm show False by (simp add: m)
  qed
  moreover have "\<not> reserved_block_row (reservation_of m True) x" for x by (simp add: m)
  ultimately show ?thesis
    unfolding absorbs_def rows_without using floors_raised_fresh extends_apply_spec [of t m True]
    unfolding extends_def by blast
qed

section \<open>The system\<close>

record flight =
  fl_spec :: reserve_spec
  fl_res :: committed_reservation
  fl_signed :: bool

type_synonym flights = "string \<Rightarrow> flight option"

record sys =
  sy_world :: sign_world
  sy_flight :: flights
  sy_released :: "reserve_spec set"

abbreviation durable :: "sign_world \<Rightarrow> tables" where
  "durable w \<equiv> committed (sd_conn (sw_db w))"

text \<open>Each waiter of a batch that gets a reservation goes on to call its backend.\<close>

definition enter_flights :: "queued_reserve list \<Rightarrow> (nat \<times> reserve_result) list \<Rightarrow> flights \<Rightarrow> flights" where
  "enter_flights batch sent fl = foldl (\<lambda>fl item.
     case map_of sent (qr_tx item) of
       Some (Inr res) \<Rightarrow> fl(spec_pubkey (qr_spec item) \<mapsto>
         \<lparr>fl_spec = qr_spec item, fl_res = res, fl_signed = False\<rparr>)
     | _ \<Rightarrow> fl) fl batch"

definition item_ready :: "(string \<Rightarrow> epoch) \<Rightarrow> flights \<Rightarrow> queued_reserve \<Rightarrow> bool" where
  "item_ready src fl item \<longleftrightarrow> spec_safe (qr_spec item) \<and> honest_spec src (qr_spec item)
     \<and> canonical_spec (qr_spec item) \<and> fl (spec_pubkey (qr_spec item)) = None"

definition batch_ready :: "(string \<Rightarrow> epoch) \<Rightarrow> queued_reserve list \<Rightarrow> flights \<Rightarrow> bool" where
  "batch_ready src batch fl \<longleftrightarrow> distinct (map qr_tx batch) \<and> distinct (map (spec_pubkey \<circ> qr_spec) batch)
     \<and> list_all (item_ready src fl) batch"

text \<open>
  What a session may conclude at its end. A signature it returns was produced; and when the
  backend did produce one, the session does not take the compensating path: an unambiguous error
  means no signature, and the discard policy is only used with backends whose timeout or error
  means none.
\<close>

definition reconciles :: "sign_session \<Rightarrow> sign_result \<Rightarrow> bool" where
  "reconciles s outcome =
     (case outcome of
        Elapsed \<Rightarrow> ss_policy s = DiscardStagedRow
      | Answered (Inl e) \<Rightarrow> is_unambiguous_no_signature e \<or> ss_policy s = DiscardStagedRow
      | _ \<Rightarrow> False)"

definition outcome_sound :: "sign_session \<Rightarrow> sign_result \<Rightarrow> bool \<Rightarrow> bool" where
  "outcome_sound s outcome sent \<longleftrightarrow>
     (sent \<longrightarrow> \<not> reconciles s outcome) \<and> ((\<exists>sig. outcome = Answered (Inr sig)) \<longrightarrow> sent)"

inductive sys_step :: "hex_codec \<Rightarrow> (string \<Rightarrow> epoch) \<Rightarrow> sys \<Rightarrow> sys \<Rightarrow> bool" for hx src where
  reserve: "batch_ready src batch (sy_flight sy) \<Longrightarrow> commit_batch hx batch (sw_db (sy_world sy)) = (sent, d)
    \<Longrightarrow> sys_step hx src sy (sy\<lparr>sy_world := (sy_world sy)\<lparr>sw_db := d\<rparr>,
          sy_flight := enter_flights batch sent (sy_flight sy)\<rparr>)"
| sign: "sy_flight sy pk = Some f
    \<Longrightarrow> sys_step hx src sy (sy\<lparr>sy_flight := (sy_flight sy)(pk \<mapsto> f\<lparr>fl_signed := True\<rparr>),
          sy_released := insert (fl_spec f) (sy_released sy)\<rparr>)"
| finish: "sy_flight sy pk = Some f \<Longrightarrow> outcome_sound s outcome (fl_signed f)
    \<Longrightarrow> finish_reserved s (fl_res f) outcome (sy_world sy) = (a, w)
    \<Longrightarrow> sys_step hx src sy (sy\<lparr>sy_world := w, sy_flight := (sy_flight sy)(pk := None)\<rparr>)"
| prune: "prune_below_watermarks (sw_db (sy_world sy)) = (r, d)
    \<Longrightarrow> sys_step hx src sy (sy\<lparr>sy_world := (sy_world sy)\<lparr>sw_db := d\<rparr>\<rparr>)"
| import: "import hx f g (sw_db (sy_world sy)) = (r', d)
    \<Longrightarrow> (\<And>vs. parse_interchange f = Inr vs \<Longrightarrow> list_all validator_in_range vs)
    \<Longrightarrow> sys_step hx src sy (sy\<lparr>sy_world := (sy_world sy)\<lparr>sw_db := d\<rparr>\<rparr>)"
| raise_attestation: "set_attestation_watermark pubkey s' t' (sw_db (sy_world sy)) = (r'', d)
    \<Longrightarrow> i64_safe s' \<Longrightarrow> i64_safe t'
    \<Longrightarrow> sys_step hx src sy (sy\<lparr>sy_world := (sy_world sy)\<lparr>sw_db := d\<rparr>\<rparr>)"
| raise_block: "set_block_watermark pubkey sl (sw_db (sy_world sy)) = (r'', d) \<Longrightarrow> i64_safe sl
    \<Longrightarrow> sys_step hx src sy (sy\<lparr>sy_world := (sy_world sy)\<lparr>sw_db := d\<rparr>\<rparr>)"
| pin: "set_genesis_validators_root hx root (sw_db (sy_world sy)) = (r'', d)
    \<Longrightarrow> sys_step hx src sy (sy\<lparr>sy_world := (sy_world sy)\<lparr>sw_db := d\<rparr>\<rparr>)"
| crash: "committed c = durable (sy_world sy) \<Longrightarrow> txn c = None
    \<Longrightarrow> sys_step hx src sy (sy\<lparr>sy_world := \<lparr>sw_db = from_connection c, sw_audit = sw_audit (sy_world sy)\<rparr>,
          sy_flight := Map.empty\<rparr>)"

definition sys_start :: "(string \<Rightarrow> epoch) \<Rightarrow> sys \<Rightarrow> bool" where
  "sys_start src sy \<longleftrightarrow> tables_ok (durable (sy_world sy)) \<and> honest_tables src (durable (sy_world sy))
     \<and> sy_flight sy = Map.empty \<and> sy_released sy = {}"

inductive sys_reachable :: "hex_codec \<Rightarrow> (string \<Rightarrow> epoch) \<Rightarrow> sys \<Rightarrow> bool" for hx src where
  start: "sys_start src sy \<Longrightarrow> sys_reachable hx src sy"
| step: "sys_reachable hx src sy \<Longrightarrow> sys_step hx src sy sy' \<Longrightarrow> sys_reachable hx src sy'"

section \<open>The invariant\<close>

lemma cr_pubkey_of_reservation [simp]: "cr_pubkey_hex (reservation_of m ins) = spec_pubkey m"
  by (cases m) simp_all

definition flight_inv :: "tables \<Rightarrow> reserve_spec set \<Rightarrow> string \<Rightarrow> flight \<Rightarrow> bool" where
  "flight_inv t rel pk f \<longleftrightarrow> spec_pubkey (fl_spec f) = pk \<and> canonical_spec (fl_spec f) \<and> covered t (fl_spec f)
     \<and> reservation_of (fl_spec f) (cr_inserted (fl_res f)) = fl_res f
     \<and> (\<forall>m\<in>rel. \<not> slashable m (fl_spec f))
     \<and> (\<not> fl_signed f \<longrightarrow> cr_inserted (fl_res f) \<longrightarrow> (\<forall>m\<in>rel. covered (without_reserved (fl_res f) t) m))"

definition hist_inv :: "(string \<Rightarrow> epoch) \<Rightarrow> tables \<Rightarrow> flights \<Rightarrow> reserve_spec set \<Rightarrow> bool" where
  "hist_inv src t fl rel \<longleftrightarrow> tables_ok t \<and> honest_tables src t \<and> (\<forall>m\<in>rel. covered t m)
     \<and> (\<forall>m\<in>rel. \<forall>m'\<in>rel. \<not> slashable m m')
     \<and> (\<forall>pk f. fl pk = Some f \<longrightarrow> flight_inv t rel pk f)"

lemma flight_key: "flight_inv t rel pk f \<Longrightarrow> normalize_pubkey (cr_pubkey_hex (fl_res f)) = pk"
  unfolding flight_inv_def canonical_spec_def by (cases "fl_spec f") (metis cr_pubkey_of_reservation)+

lemma flight_inv_absorbs:
  "flight_inv t rel pk f \<Longrightarrow> absorbs t t' \<Longrightarrow> flight_inv t' rel pk f"
  unfolding flight_inv_def using covered_absorbs absorbs_without by blast

lemma hist_inv_absorbs:
  "hist_inv src t fl rel \<Longrightarrow> absorbs t t' \<Longrightarrow> tables_ok t' \<Longrightarrow> honest_tables src t' \<Longrightarrow> hist_inv src t' fl rel"
  unfolding hist_inv_def using covered_absorbs flight_inv_absorbs by blast

lemma hist_inv_fewer: "hist_inv src t fl rel \<Longrightarrow> fl' \<subseteq>\<^sub>m fl \<Longrightarrow> hist_inv src t fl' rel"
  unfolding hist_inv_def map_le_def by (metis domI)

lemma hist_inv_admit:
  assumes inv: "hist_inv src t fl rel" and adm: "admits t m ins" and none: "fl (spec_pubkey m) = None"
    and m: "spec_safe m" "honest_spec src m" "canonical_spec m"
  shows "hist_inv src (apply_spec t m ins)
    (fl(spec_pubkey m \<mapsto> \<lparr>fl_spec = m, fl_res = reservation_of m ins, fl_signed = False\<rparr>)) rel"
proof -
  let ?t = "apply_spec t m ins"
  have ok: "tables_ok t" and h: "honest_tables src t" and cov: "\<And>m'. m' \<in> rel \<Longrightarrow> covered t m'"
    using inv by (auto simp: hist_inv_def)
  have abs: "absorbs t ?t" using extends_absorbs extends_apply_spec by blast
  have inv': "hist_inv src ?t fl rel"
    using hist_inv_absorbs [OF inv abs apply_spec_ok [OF ok m(1) adm] honest_apply [OF h m(2)]] .
  have "\<forall>m'\<in>rel. covered (without_reserved (reservation_of m ins) ?t) m'" if ins
    using covered_absorbs [OF without_fresh_extends [OF _ ok m(1,3)]] adm cov that by auto
  then have "flight_inv ?t rel (spec_pubkey m) \<lparr>fl_spec = m, fl_res = reservation_of m ins, fl_signed = False\<rparr>"
    using admitted_covered [OF adm ok h m(2)] admits_excludes_slashable [OF adm _ ok] cov m(3)
    by (auto simp: flight_inv_def)
  with inv' show ?thesis by (auto simp: hist_inv_def)
qed

definition entered :: "(queued_reserve \<times> committed_reservation) list \<Rightarrow> flights" where
  "entered acc = map_of (map (\<lambda>x. (spec_pubkey (qr_spec (fst x)),
     \<lparr>fl_spec = qr_spec (fst x), fl_res = snd x, fl_signed = False\<rparr>)) acc)"

lemma entered_Nil [simp]: "entered [] = Map.empty"
  by (simp add: entered_def)

lemma entered_Cons: "entered ((item, res) # acc) = (entered acc)(spec_pubkey (qr_spec item) \<mapsto>
    \<lparr>fl_spec = qr_spec item, fl_res = res, fl_signed = False\<rparr>)"
  by (simp add: entered_def)

lemma entered_None: "spec_pubkey (qr_spec item) \<notin> set (map (spec_pubkey \<circ> qr_spec \<circ> fst) acc)
    \<Longrightarrow> entered acc (spec_pubkey (qr_spec item)) = None"
  by (simp add: entered_def map_of_eq_None_iff image_image comp_def)

lemma map_add_upd_fresh: "m k = None \<Longrightarrow> fl(k \<mapsto> f) ++ m = fl ++ m(k \<mapsto> f)"
  by (rule ext) (simp add: map_add_def split: option.splits)

lemma item_ready_upd: "item_ready src fl item \<Longrightarrow> spec_pubkey (qr_spec item) \<noteq> pk
    \<Longrightarrow> item_ready src (fl(pk \<mapsto> f)) item"
  by (simp add: item_ready_def)

lemma hist_inv_admit_all:
  assumes "hist_inv src t fl rel" "admits_all t acc" "distinct (map (spec_pubkey \<circ> qr_spec \<circ> fst) acc)"
    "\<forall>x\<in>set acc. item_ready src fl (fst x)"
  shows "hist_inv src (apply_all t acc) (fl ++ entered acc) rel"
  using assms
proof (induction t acc arbitrary: fl rule: apply_all.induct)
  case (2 t item res acc)
  let ?pk = "spec_pubkey (qr_spec item)"
  let ?f = "\<lparr>fl_spec = qr_spec item, fl_res = res, fl_signed = False\<rparr>"
  let ?t = "apply_spec t (qr_spec item) (cr_inserted res)"
  have ready: "item_ready src fl item" using 2(5) by simp
  have adm: "admits t (qr_spec item) (cr_inserted res)" "reservation_of (qr_spec item) (cr_inserted res) = res"
    "admits_all ?t acc" using 2(3) by simp_all
  have fresh: "?pk \<notin> set (map (spec_pubkey \<circ> qr_spec \<circ> fst) acc)"
    and dist: "distinct (map (spec_pubkey \<circ> qr_spec \<circ> fst) acc)" using 2(4) by (simp_all add: comp_def)
  have "hist_inv src ?t (fl(?pk \<mapsto> ?f)) rel"
    using hist_inv_admit [OF 2(2) adm(1)] ready adm(2) by (simp add: item_ready_def)
  moreover have "\<forall>x\<in>set acc. item_ready src (fl(?pk \<mapsto> ?f)) (fst x)"
  proof
    fix x assume x: "x \<in> set acc"
    with fresh have "spec_pubkey (qr_spec (fst x)) \<noteq> ?pk" by (auto simp: image_iff)
    with x 2(5) show "item_ready src (fl(?pk \<mapsto> ?f)) (fst x)" by (simp add: item_ready_upd)
  qed
  ultimately have "hist_inv src (apply_all ?t acc) (fl(?pk \<mapsto> ?f) ++ entered acc) rel"
    using 2(1) adm(3) dist by blast
  then show ?case
    unfolding apply_all.simps entered_Cons map_add_upd_fresh [of "entered acc" ?pk, OF entered_None [OF fresh], symmetric] .
qed simp

section \<open>Every step keeps the invariant\<close>

lemma entered_in:
  assumes "(item, res) \<in> set acc" "distinct (map (spec_pubkey \<circ> qr_spec \<circ> fst) acc)"
  shows "entered acc (spec_pubkey (qr_spec item)) = Some \<lparr>fl_spec = qr_spec item, fl_res = res, fl_signed = False\<rparr>"
  using assms by (force simp: entered_def map_of_eq_Some_iff comp_def)

lemma enter_flights_within:
  assumes "fl \<subseteq>\<^sub>m F"
    and "\<And>item res. item \<in> set batch \<Longrightarrow> map_of sent (qr_tx item) = Some (Inr res)
      \<Longrightarrow> F (spec_pubkey (qr_spec item)) = Some \<lparr>fl_spec = qr_spec item, fl_res = res, fl_signed = False\<rparr>"
  shows "enter_flights batch sent fl \<subseteq>\<^sub>m F"
  using assms
proof (induction batch arbitrary: fl)
  case (Cons item batch)
  let ?fl = "case map_of sent (qr_tx item) of Some (Inr res) \<Rightarrow> fl(spec_pubkey (qr_spec item) \<mapsto>
         \<lparr>fl_spec = qr_spec item, fl_res = res, fl_signed = False\<rparr>) | _ \<Rightarrow> fl"
  have "?fl \<subseteq>\<^sub>m F"
    using Cons.prems(1) Cons.prems(2) [of item] by (auto simp: map_le_def split: option.splits sum.splits)
  then have "enter_flights batch sent ?fl \<subseteq>\<^sub>m F" by (rule Cons.IH) (rule Cons.prems(2), simp_all)
  then show ?case by (simp add: enter_flights_def)
qed (simp add: enter_flights_def)

lemma reserve_keeps:
  assumes inv: "hist_inv src (committed (sd_conn d)) fl rel" and ready: "batch_ready src batch fl"
    and run: "commit_batch hx batch d = (sent, d')"
  shows "hist_inv src (committed (sd_conn d')) (enter_flights batch sent fl) rel"
proof -
  have ok: "tables_ok (committed (sd_conn d))" using inv by (simp add: hist_inv_def)
  have safe: "\<forall>item\<in>set batch. spec_safe (qr_spec item)" and r: "\<And>x. x \<in> set batch \<Longrightarrow> item_ready src fl x"
    and dist: "distinct (map qr_tx batch)" "distinct (map (spec_pubkey \<circ> qr_spec) batch)"
    using ready by (auto simp: batch_ready_def item_ready_def list_all_iff)
  obtain acc where acc:
    "\<And>tx res. (tx, Inr res) \<in> set sent \<longleftrightarrow> (\<exists>item. (item, res) \<in> set acc \<and> qr_tx item = tx)"
    "subseq (map fst acc) batch" "admits_all (committed (sd_conn d)) acc"
    "committed (sd_conn d') = apply_all (committed (sd_conn d)) acc"
    by (rule commit_batch_run [OF run ok safe]) (rule that)
  have in_batch: "fst x \<in> set batch" if "x \<in> set acc" for x using subseq_set [OF acc(2)] that by auto
  have keys: "distinct (map (spec_pubkey \<circ> qr_spec \<circ> fst) acc)"
    using subseq_distinct_map [OF acc(2) dist(2)] by (simp add: comp_assoc)
  have "\<forall>x\<in>set acc. item_ready src fl (fst x)" using r in_batch by blast
  with inv acc(3) keys have all: "hist_inv src (apply_all (committed (sd_conn d)) acc) (fl ++ entered acc) rel"
    by (rule hist_inv_admit_all)
  have none: "entered acc k = None" if "fl k = Some f" for k f
    using r in_batch that by (fastforce simp: entered_def map_of_eq_None_iff item_ready_def)
  have "enter_flights batch sent fl \<subseteq>\<^sub>m fl ++ entered acc"
  proof (rule enter_flights_within)
    show "fl \<subseteq>\<^sub>m fl ++ entered acc" using none by (auto simp: map_le_def map_add_def split: option.splits)
    fix item res assume item: "item \<in> set batch" "map_of sent (qr_tx item) = Some (Inr res)"
    then obtain item' where i: "(item', res) \<in> set acc" "qr_tx item' = qr_tx item"
      using acc(1) map_of_SomeD by metis
    have "item' = item" using inj_onD [OF conjunct2 [OF dist(1) [unfolded distinct_map]] i(2)] in_batch [OF i(1)] item(1) by simp
    with entered_in [OF i(1) keys] show "(fl ++ entered acc) (spec_pubkey (qr_spec item))
      = Some \<lparr>fl_spec = qr_spec item, fl_res = res, fl_signed = False\<rparr>" by simp
  qed
  with all show ?thesis unfolding acc(4) by (rule hist_inv_fewer)
qed

lemma sign_keeps:
  assumes inv: "hist_inv src t fl rel" and f: "fl pk = Some f"
  shows "hist_inv src t (fl(pk \<mapsto> f\<lparr>fl_signed := True\<rparr>)) (insert (fl_spec f) rel)"
proof -
  have fi: "flight_inv t rel pk f" using inv f by (simp add: hist_inv_def)
  have own: "flight_inv t (insert (fl_spec f) rel) pk (f\<lparr>fl_signed := True\<rparr>)"
    using fi by (simp add: flight_inv_def)
  have other: "flight_inv t (insert (fl_spec f) rel) pk' f'" if "fl pk' = Some f'" "pk' \<noteq> pk" for pk' f'
  proof -
    have fi': "flight_inv t rel pk' f'" using inv that by (simp add: hist_inv_def)
    have "\<not> slashable (fl_spec f) (fl_spec f')"
      using fi fi' that(2) slashable_pubkey by (auto simp: flight_inv_def)
    moreover have "covered (without_reserved (fl_res f') t) (fl_spec f)"
    proof (rule without_other_key)
      show "covered t (fl_spec f)" using fi by (simp add: flight_inv_def)
      have "normalize_pubkey (cr_pubkey_hex (fl_res f')) = pk'" using fi' by (rule flight_key)
      with fi that(2) show "spec_pubkey (fl_spec f) \<noteq> normalize_pubkey (cr_pubkey_hex (fl_res f'))"
        by (simp add: flight_inv_def)
    qed
    ultimately show ?thesis using fi' by (simp add: flight_inv_def)
  qed
  have "covered t (fl_spec f)" "\<forall>m\<in>rel. \<not> slashable m (fl_spec f)" using fi by (simp_all add: flight_inv_def)
  with inv own other show ?thesis unfolding hist_inv_def by (auto simp: slashable_sym)
qed

lemma honest_shrink:
  assumes "honest_tables src t" "floors_raised t t'" "set (attestations t') \<subseteq> set (attestations t)"
  shows "honest_tables src t'"
  using assms unfolding honest_tables_def floors_raised_def by (meson subsetD wm_le_trans)

lemma without_ok: "tables_ok t \<Longrightarrow> tables_ok (without_reserved res t)"
  unfolding without_reserved_def by (rule tables_ok_filter)

lemma without_honest: "honest_tables src t \<Longrightarrow> honest_tables src (without_reserved res t)"
  by (rule honest_shrink) (auto simp: floors_raised_def rows_without)

lemma without_both:
  assumes "covered (without_reserved a t) m" "covered (without_reserved b t) m"
    and "normalize_pubkey (cr_pubkey_hex a) \<noteq> normalize_pubkey (cr_pubkey_hex b)"
  shows "covered (without_reserved a (without_reserved b t)) m"
proof (cases "spec_pubkey m = normalize_pubkey (cr_pubkey_hex a)")
  case True
  then have "covered (without_reserved b (without_reserved a t)) m"
    using without_other_key [OF assms(1)] assms(3) by simp
  then show ?thesis by (simp add: without_commute)
next
  case False
  then show ?thesis by (rule without_other_key [OF assms(2)])
qed

lemma reconcile_keeps:
  assumes inv: "hist_inv src t fl rel" and f: "fl pk = Some f" "\<not> fl_signed f" "cr_inserted (fl_res f)"
  shows "hist_inv src (without_reserved (fl_res f) t) (fl(pk := None)) rel"
proof -
  let ?t = "without_reserved (fl_res f) t"
  have fi: "flight_inv t rel pk f" using inv f by (simp add: hist_inv_def)
  have cov: "\<forall>m\<in>rel. covered ?t m" using fi f by (simp add: flight_inv_def)
  have "flight_inv ?t rel pk' f'" if f': "fl pk' = Some f'" "pk' \<noteq> pk" for pk' f'
  proof -
    have fi': "flight_inv t rel pk' f'" using inv f' by (simp add: hist_inv_def)
    have ne: "normalize_pubkey (cr_pubkey_hex (fl_res f')) \<noteq> normalize_pubkey (cr_pubkey_hex (fl_res f))"
      using flight_key [OF fi] flight_key [OF fi'] f'(2) by simp
    have "covered ?t (fl_spec f')"
      using without_other_key [of t "fl_spec f'" "fl_res f"] fi' flight_key [OF fi] f'(2) by (simp add: flight_inv_def)
    moreover have "\<forall>m\<in>rel. covered (without_reserved (fl_res f') ?t) m"
      if "\<not> fl_signed f'" "cr_inserted (fl_res f')"
      using fi' that cov ne without_both by (auto simp: flight_inv_def)
    ultimately show ?thesis using fi' by (simp add: flight_inv_def)
  qed
  with inv cov without_ok without_honest show ?thesis by (simp add: hist_inv_def)
qed

lemma reconcile_reservation_run:
  obtains "durable (reconcile_reservation s res w) = durable w"
  | "cr_inserted res" "durable (reconcile_reservation s res w) = without_reserved res (durable w)"
proof -
  obtain out d where run: "reconcile_unsigned res (sw_db w) = (out, d)" by fastforce
  then have "durable (reconcile_reservation s res w) = committed (sd_conn d)"
    by (simp add: reconcile_reservation_def scoped_reconcile_unsigned_def audit_log_def)
  with reconcile_unsigned_run [OF run] that show thesis by (cases "out = Deleted") auto
qed

lemma finish_reserved_world:
  "snd (finish_reserved s res outcome w) = (if reconciles s outcome then reconcile_reservation s res w else w)"
  by (auto simp: finish_reserved_def finish_reserve_timeout_def finish_reserve_ambiguous_def reconciles_def
      split: sign_result.splits sum.splits timeout_policy.splits)

lemma finish_keeps:
  assumes inv: "hist_inv src (durable w) fl rel" and f: "fl pk = Some f"
    and sound: "outcome_sound s outcome (fl_signed f)" and run: "finish_reserved s (fl_res f) outcome w = (a, w')"
  shows "hist_inv src (durable w') (fl(pk := None)) rel"
proof -
  have fewer: "hist_inv src (durable w) (fl(pk := None)) rel"
    by (rule hist_inv_fewer [OF inv]) (simp add: map_le_def)
  have w': "w' = (if reconciles s outcome then reconcile_reservation s (fl_res f) w else w)"
    using finish_reserved_world [of s "fl_res f" outcome w] run by simp
  show ?thesis
  proof (cases "reconciles s outcome")
    case True
    with sound have ns: "\<not> fl_signed f" by (simp add: outcome_sound_def)
    show ?thesis
    proof (rule reconcile_reservation_run [of s "fl_res f" w])
      assume "durable (reconcile_reservation s (fl_res f) w) = durable w"
      with fewer w' True show ?thesis by simp
    next
      assume "cr_inserted (fl_res f)"
        and d: "durable (reconcile_reservation s (fl_res f) w) = without_reserved (fl_res f) (durable w)"
      with reconcile_keeps [OF inv f ns] w' True show ?thesis by simp
    qed
  qed (use fewer w' in simp)
qed

text \<open>Maintenance: the tables keep protecting what they protected.\<close>

definition maintains :: "(string \<Rightarrow> epoch) \<Rightarrow> tables \<Rightarrow> tables \<Rightarrow> bool" where
  "maintains src t t' \<longleftrightarrow> (tables_ok t \<longrightarrow> honest_tables src t \<longrightarrow> absorbs t t' \<and> tables_ok t' \<and> honest_tables src t')"

lemma maintains_keeps: "hist_inv src t fl rel \<Longrightarrow> maintains src t t' \<Longrightarrow> hist_inv src t' fl rel"
  by (rule hist_inv_absorbs, assumption) (simp_all add: maintains_def hist_inv_def)

lemma maintainsI:
  assumes "tables_ok t'" "floors_raised t t'" "honest_tables src t \<Longrightarrow> honest_tables src t'"
    and "\<And>r. tables_ok t \<Longrightarrow> r \<in> set (attestations t) \<Longrightarrow> r \<in> set (attestations t')
      \<or> floored_att t' (ar_pubkey r) (as_u64 (ar_source r)) (as_u64 (ar_target r))"
    and "\<And>r. tables_ok t \<Longrightarrow> r \<in> set (blocks t) \<Longrightarrow> r \<in> set (blocks t')
      \<or> floored_block t' (br_pubkey r) (as_u64 (br_slot r))"
  shows "maintains src t t'"
  using assms unfolding maintains_def absorbs_def by blast

lemma absorbs_same [simp]: "absorbs t t"
  by (simp add: absorbs_def floors_raised_def)

lemma maintains_same [simp]: "maintains src t t"
  by (simp add: maintains_def)

lemma same_history_maintains:
  assumes "same_history t t'" "floors_raised t t'" "tables_ok t'"
  shows "maintains src t t'"
proof (rule maintainsI [OF assms(3,2)])
  show "honest_tables src t \<Longrightarrow> honest_tables src t'"
    by (rule honest_shrink [OF _ assms(2)]) (use assms(1) in \<open>auto simp: same_history_def\<close>)
qed (use assms(1) in \<open>simp_all add: same_history_def\<close>)

lemma pruned_maintains:
  assumes p: "pruned t t'"
  shows "maintains src t t'"
proof (rule maintainsI)
  show "tables_ok t'" and fl: "floors_raised t t'" using p by (simp_all add: pruned_def)
  show "honest_tables src t \<Longrightarrow> honest_tables src t'"
    by (rule honest_shrink [OF _ fl]) (use p in \<open>auto simp: pruned_def\<close>)
next
  fix r assume ok: "tables_ok t" and r: "r \<in> set (attestations t)"
  show "r \<in> set (attestations t') \<or> floored_att t' (ar_pubkey r) (as_u64 (ar_source r)) (as_u64 (ar_target r))"
  proof (cases "att_below_watermark t r")
    case True
    then obtain wt where "watermark_of (ar_pubkey r) AttestationTarget t = Some wt" "as_u64 (ar_target r) < wt"
      using att_below_iff [OF ok r] by blast
    moreover have "watermark_of (ar_pubkey r) AttestationTarget t' = watermark_of (ar_pubkey r) AttestationTarget t"
      using p by (simp add: pruned_def)
    moreover have "wm_le (Some (as_u64 (ar_source r))) (watermark_of (ar_pubkey r) AttestationSource t')"
      using p r True by (simp add: pruned_def)
    ultimately show ?thesis by (simp add: floored_att_def wm_le_def less_imp_le)
  qed (use p r in \<open>simp add: pruned_def\<close>)
next
  fix r assume ok: "tables_ok t" and r: "r \<in> set (blocks t)"
  show "r \<in> set (blocks t') \<or> floored_block t' (br_pubkey r) (as_u64 (br_slot r))"
  proof (cases "block_below_watermark t r")
    case True
    then obtain w where "watermark_of (br_pubkey r) Block t = Some w" "as_u64 (br_slot r) < w"
      using block_below_iff [OF ok r] by blast
    moreover have "watermark_of (br_pubkey r) Block t' = watermark_of (br_pubkey r) Block t"
      using p by (simp add: pruned_def)
    ultimately show ?thesis by (simp add: floored_block_def wm_le_def less_imp_le)
  qed (use p r in \<open>simp add: pruned_def\<close>)
qed

lemma imported_honest:
  assumes h: "honest_tables src t" and g: "grown t t'" and rows: "rows_within (file_row vs) t t'"
    and imp: "\<forall>v\<in>set vs. imported v t'"
  shows "honest_tables src t'"
  unfolding honest_tables_def
proof
  fix r assume "r \<in> set (attestations t')"
  with rows consider "r \<in> set (attestations t)" | "file_row vs r" unfolding rows_within_def by blast
  then show "wm_le (Some (as_u64 (ar_target r))) (watermark_of (ar_pubkey r) AttestationTarget t')
     \<or> (\<forall>x. ar_signing_root r = Some x \<longrightarrow> src x = as_u64 (ar_source r))"
  proof cases
    case 1
    with h grown_wm_le [OF g] show ?thesis unfolding honest_tables_def by blast
  next
    case 2
    then obtain v a where v: "v \<in> set vs" "a \<in> set (pv_attestations v)" "ar_pubkey r = pv_pubkey v"
      "ar_target r = as_i64 (pa_target_epoch a)" unfolding file_row_def by blast
    have "imported v t'" using imp v(1) by blast
    then have "covers_attestation (pv_pubkey v) t' a" using v(2) unfolding imported_def by blast
    with v show ?thesis by (simp add: covers_attestation_def)
  qed
qed

lemma grown_maintains:
  assumes "grown t t'" "honest_tables src t \<Longrightarrow> honest_tables src t'"
  shows "maintains src t t'"
  using grown_absorbs [OF assms(1)] grown_ok [OF assms(1)] assms(2) by (simp add: maintains_def)

lemma import_maintains:
  assumes run: "import hx f g d = (x, d')" and range: "\<And>vs. parse_interchange f = Inr vs \<Longrightarrow> list_all validator_in_range vs"
    and ok: "tables_ok (committed (sd_conn d))"
  shows "maintains src (committed (sd_conn d)) (committed (sd_conn d'))"
proof (cases x)
  case (Inl e)
  with import_run [OF run ok range] show ?thesis by simp
next
  case (Inr u)
  from import_run [OF run ok range] Inr obtain vs where vs: "parse_interchange f = Inr vs"
    "grown (committed (sd_conn d)) (committed (sd_conn d'))" "\<forall>v\<in>set vs. imported v (committed (sd_conn d'))" by auto
  have "rows_within (file_row vs) (committed (sd_conn d)) (committed (sd_conn d'))"
    using import_rows [OF _ vs(1)] run Inr by blast
  then show ?thesis by (intro grown_maintains [OF vs(2)] imported_honest [OF _ vs(2) _ vs(3)])
qed

lemma prune_maintains:
  assumes "prune_below_watermarks d = (x, d')" "tables_ok (committed (sd_conn d))"
  shows "maintains src (committed (sd_conn d)) (committed (sd_conn d'))"
  using prune_run [OF assms] pruned_maintains by (cases x) auto

lemma raise_attestation_maintains:
  assumes "set_attestation_watermark pubkey s t d = (x, d')" "tables_ok (committed (sd_conn d))" "i64_safe s" "i64_safe t"
  shows "maintains src (committed (sd_conn d)) (committed (sd_conn d'))"
  using set_attestation_watermark_run [OF assms] same_history_maintains by (cases x) (auto simp: Let_def)

lemma raise_block_maintains:
  assumes "set_block_watermark pubkey sl d = (x, d')" "tables_ok (committed (sd_conn d))" "i64_safe sl"
  shows "maintains src (committed (sd_conn d)) (committed (sd_conn d'))"
  using set_block_watermark_run [OF assms] same_history_maintains by (cases x) (auto simp: Let_def)

lemma pinned_maintains:
  assumes "pinned_to hx root t t'"
  shows "maintains src t t'"
  using assms unfolding maintains_def pinned_to_def
  by (simp add: absorbs_def floors_raised_def watermark_of_def honest_tables_def tables_ok_def wf_tables_def safe_tables_def)

lemma pin_maintains:
  assumes "set_genesis_validators_root hx root d = (x, d')"
  shows "maintains src (committed (sd_conn d)) (committed (sd_conn d'))"
  using set_genesis_root_run [OF assms] by (cases x) (auto intro: pinned_maintains)

lemma step_keeps:
  assumes "sys_step hx src sy sy'" "hist_inv src (durable (sy_world sy)) (sy_flight sy) (sy_released sy)"
  shows "hist_inv src (durable (sy_world sy')) (sy_flight sy') (sy_released sy')"
  using assms
proof cases
  case (reserve batch sent d)
  with assms(2) reserve_keeps show ?thesis by simp
next
  case (sign pk f)
  with assms(2) sign_keeps show ?thesis by simp
next
  case (finish pk f s outcome a w)
  with assms(2) finish_keeps show ?thesis by simp
next
  case (prune r d)
  with assms(2) show ?thesis
    using maintains_keeps [OF assms(2) prune_maintains [OF prune(2)]] by (simp add: hist_inv_def)
next
  case (import f g r' d)
  then show ?thesis
    using maintains_keeps [OF assms(2) import_maintains [OF import(2) import(3)]] assms(2) by (simp add: hist_inv_def)
next
  case (raise_attestation pubkey s' t' r'' d)
  then show ?thesis
    using maintains_keeps [OF assms(2) raise_attestation_maintains [OF raise_attestation(2) _ raise_attestation(3,4)]] assms(2)
    by (simp add: hist_inv_def)
next
  case (raise_block pubkey sl r'' d)
  then show ?thesis
    using maintains_keeps [OF assms(2) raise_block_maintains [OF raise_block(2) _ raise_block(3)]] assms(2)
    by (simp add: hist_inv_def)
next
  case (pin root r'' d)
  then show ?thesis using maintains_keeps [OF assms(2) pin_maintains [OF pin(2)]] by simp
next
  case (crash c)
  have "hist_inv src (durable (sy_world sy)) Map.empty (sy_released sy)"
    by (rule hist_inv_fewer [OF assms(2)]) simp
  with crash show ?thesis by (simp add: from_connection_def)
qed

lemma reachable_hist_inv:
  "sys_reachable hx src sy \<Longrightarrow> hist_inv src (durable (sy_world sy)) (sy_flight sy) (sy_released sy)"
proof (induction rule: sys_reachable.induct)
  case (start sy)
  then show ?case by (simp add: sys_start_def hist_inv_def)
next
  case (step sy sy')
  then show ?case using step_keeps by blast
qed

text \<open>
  C1: the purpose of the client. In every state the system can reach, by any interleaving of group
  commits, backends signing, sessions ending, pruning, interchange imports, raised watermarks,
  pinning and crashes, with any faults of the database engine, no two signed messages are
  slashable: no two blocks of one key at one slot with different roots, no double vote and no
  surround vote.
\<close>

theorem no_two_signed_messages_slashable:
  assumes "sys_reachable hx src sy" "a \<in> sy_released sy" "b \<in> sy_released sy"
  shows "\<not> slashable a b"
  using reachable_hist_inv [OF assms(1)] assms(2,3) by (simp add: hist_inv_def)

definition votes :: "queued_reserve list" where
  "votes = [att_item 1 ''0xaa'' 2 3 ''0x01'', att_item 2 ''0xaa'' 3 4 ''0x02'']"

definition vote_source :: "string \<Rightarrow> epoch" where
  "vote_source r = (if r = ''0x01'' then 2 else 3)"

definition answered_ok :: "('e + 'a) option \<Rightarrow> bool" where
  "answered_ok r = (case r of Some (Inr _) \<Rightarrow> True | _ \<Rightarrow> False)"

lemma answered_okD: "answered_ok r \<Longrightarrow> \<exists>x. r = Some (Inr x)"
  by (auto simp: answered_ok_def split: option.splits sum.splits)

lemma signed_round:
  assumes reach: "sys_reachable hx src sy" and ready: "batch_ready src [item] (sy_flight sy)"
    and run: "commit_batch hx [item] (sw_db (sy_world sy)) = (sent, d)"
    and res: "map_of sent (qr_tx item) = Some (Inr res)"
  obtains sy' where "sys_reachable hx src sy'" "sw_db (sy_world sy') = d"
    "sy_released sy' = insert (qr_spec item) (sy_released sy)" "sy_flight sy' (spec_pubkey (qr_spec item)) = None"
proof -
  let ?pk = "spec_pubkey (qr_spec item)"
  let ?f = "\<lparr>fl_spec = qr_spec item, fl_res = res, fl_signed = False\<rparr>"
  let ?sy1 = "sy\<lparr>sy_world := (sy_world sy)\<lparr>sw_db := d\<rparr>, sy_flight := enter_flights [item] sent (sy_flight sy)\<rparr>"
  let ?sy2 = "?sy1\<lparr>sy_flight := (sy_flight ?sy1)(?pk \<mapsto> ?f\<lparr>fl_signed := True\<rparr>), sy_released := insert (fl_spec ?f) (sy_released ?sy1)\<rparr>"
  define s where "s = session_of (att_request (Fixed DiscardStagedRow))"
  have r1: "sys_reachable hx src ?sy1" using reach sys_step.reserve [OF ready run] by (rule sys_reachable.step)
  have "sy_flight ?sy1 ?pk = Some ?f" using res by (simp add: enter_flights_def)
  from sys_step.sign [OF this] r1 have r2: "sys_reachable hx src ?sy2" by (rule sys_reachable.step [rotated])
  have f: "sy_flight ?sy2 ?pk = Some (?f\<lparr>fl_signed := True\<rparr>)" by simp
  have o: "outcome_sound s (Answered (Inr [])) (fl_signed (?f\<lparr>fl_signed := True\<rparr>))"
    by (simp add: outcome_sound_def reconciles_def)
  have "finish_reserved s (fl_res (?f\<lparr>fl_signed := True\<rparr>)) (Answered (Inr [])) (sy_world ?sy2)
      = (Returned (Inr []), sy_world ?sy2)" by (simp add: finish_reserved_def)
  from sys_step.finish [OF f o this] r2 have "sys_reachable hx src
      (?sy2\<lparr>sy_world := sy_world ?sy2, sy_flight := (sy_flight ?sy2)(?pk := None)\<rparr>)"
    by (rule sys_reachable.step [rotated])
  then show thesis by (rule that) simp_all
qed

theorem no_two_signed_messages_slashable_witness:
  "\<exists>sy. sys_reachable hex_ref vote_source sy
     \<and> sy_released sy = {qr_spec (votes ! 0), qr_spec (votes ! 1)} \<and> qr_spec (votes ! 0) \<noteq> qr_spec (votes ! 1)
     \<and> \<not> slashable (qr_spec (votes ! 0)) (qr_spec (votes ! 1))"
proof -
  define sy where "sy = \<lparr>sy_world = fresh_world [], sy_flight = Map.empty, sy_released = {}\<rparr>"
  obtain sent d where run: "commit_batch hex_ref [votes ! 0] (sw_db (fresh_world [])) = (sent, d)" by fastforce
  obtain sent' d' where run': "commit_batch hex_ref [votes ! 1] d = (sent', d')" by fastforce
  have "answered_ok (map_of (fst (commit_batch hex_ref [votes ! 0] (sw_db (fresh_world [])))) (qr_tx (votes ! 0)))"
    by code_simp
  then obtain res where res: "map_of sent (qr_tx (votes ! 0)) = Some (Inr res)" using run by (auto dest: answered_okD)
  have "answered_ok (map_of (fst (commit_batch hex_ref [votes ! 1]
        (snd (commit_batch hex_ref [votes ! 0] (sw_db (fresh_world [])))))) (qr_tx (votes ! 1)))" by code_simp
  then obtain res' where res': "map_of sent' (qr_tx (votes ! 1)) = Some (Inr res')"
    using run run' by (auto dest: answered_okD)
  have ready: "item_ready vote_source fl (votes ! i) \<longleftrightarrow> fl ''0xaa'' = None" if "i = 0 \<or> i = 1" for i fl
  proof -
    have "spec_safe (qr_spec (votes ! i)) \<and> honest_spec vote_source (qr_spec (votes ! i)) \<and> canonical_spec (qr_spec (votes ! i))"
      using that by (elim disjE; simp only:) code_simp+
    moreover have "spec_pubkey (qr_spec (votes ! i)) = ''0xaa''" using that by (auto simp: votes_def att_item_def)
    ultimately show ?thesis by (simp add: item_ready_def)
  qed
  have pk: "spec_pubkey (qr_spec (votes ! 0)) = ''0xaa''" "spec_pubkey (qr_spec (votes ! 1)) = ''0xaa''"
    by (simp_all add: votes_def att_item_def)
  have br: "batch_ready vote_source [votes ! 0] fl" "batch_ready vote_source [votes ! 1] fl" if "fl ''0xaa'' = None" for fl
    using that ready [of 0 fl] ready [of 1 fl] by (simp_all add: batch_ready_def)
  have "sys_start vote_source sy" using fresh_world_ready(2)
    by (simp add: sy_def sys_start_def honest_tables_def fresh_world_def fresh_db_def from_connection_def empty_tables_def)
  then have r0: "sys_reachable hex_ref vote_source sy" by (rule sys_reachable.start)
  have sy: "commit_batch hex_ref [votes ! 0] (sw_db (sy_world sy)) = (sent, d)" "sy_flight sy ''0xaa'' = None"
    using run by (simp_all add: sy_def)
  obtain sy1 where sy1: "sys_reachable hex_ref vote_source sy1" "sw_db (sy_world sy1) = d"
    "sy_released sy1 = insert (qr_spec (votes ! 0)) (sy_released sy)" "sy_flight sy1 ''0xaa'' = None"
    using signed_round [OF r0 br(1) [of "sy_flight sy", OF sy(2)] sy(1) res] pk by metis
  have run1: "commit_batch hex_ref [votes ! 1] (sw_db (sy_world sy1)) = (sent', d')" using run' sy1(2) by simp
  obtain sy2 where "sys_reachable hex_ref vote_source sy2"
    "sy_released sy2 = insert (qr_spec (votes ! 1)) (sy_released sy1)"
    using signed_round [OF sy1(1) br(2) [of "sy_flight sy1", OF sy1(4)] run1 res'] by metis
  then have sy2: "sys_reachable hex_ref vote_source sy2"
    "sy_released sy2 = {qr_spec (votes ! 0), qr_spec (votes ! 1)}" using sy1(3) by (auto simp: sy_def)
  have "\<not> slashable (qr_spec (votes ! 0)) (qr_spec (votes ! 1))"
    by (rule no_two_signed_messages_slashable [OF sy2(1)]) (simp_all add: sy2(2))
  with sy2 show ?thesis by (auto simp: votes_def att_item_def)
qed

end
