(* ===== verification/Doppelganger.thy ===== *)
theory Doppelganger
  imports Slashing_Records Signer_Locks "HOL-Library.AList"
begin

text \<open>
  Doppelganger protection: the forward-window state machine that withholds signing until the
  network has been watched for a whole window (\<open>doppelganger/src/forward_window.rs\<close>), the
  restart predicate (\<open>restart_skip.rs\<close>), the read-only view of the slashing history it consults
  (\<open>slashing/src/reader.rs\<close>) and the monotonic epoch clock (\<open>epoch_clock.rs\<close>).

  The state map is an association list; its order is that of the hash map's iteration, which no
  result depends on. The clock's elapsed time is an argument. Log lines are left out.
\<close>

section \<open>The restart predicate and the reader\<close>

definition should_skip_restart_monitoring :: "epoch \<Rightarrow> epoch option \<Rightarrow> u64 \<Rightarrow> bool" where
  "should_skip_restart_monitoring current_epoch last_signed_epoch monitoring_epochs =
     (case last_signed_epoch of
        None \<Rightarrow> False
      | Some e \<Rightarrow>
          if e > current_epoch then False
          else current_epoch > monitoring_epochs \<and> current_epoch - e \<le> monitoring_epochs)"

text \<open>\<open>SlashingDbReader for SlashingDb\<close>: every failure and every other chain reads as no history.\<close>

definition last_signed_attestation ::
  "hex_codec \<Rightarrow> string \<Rightarrow> root \<Rightarrow> slashing_db \<Rightarrow> epoch option \<times> slashing_db" where
  "last_signed_attestation hx pubkey gvr d =
     (case pinned_gvr hx d of
        (Inr (Some pinned), d1) \<Rightarrow>
          if pinned = gvr
          then (case last_signed_attestation_epoch pubkey d1 of
                  (Inr v, d2) \<Rightarrow> (v, d2)
                | (Inl _, d2) \<Rightarrow> (None, d2))
          else (None, d1)
      | (Inr None, d1) \<Rightarrow> (None, d1)
      | (Inl _, d1) \<Rightarrow> (None, d1))"

section \<open>The state machine\<close>

datatype validator_state =
    Unmonitored
  | Pending epoch epoch "epoch set"
  | Safe
  | Detected

datatype forward_window_status = StatusUnmonitored | StatusPending | StatusSafe | StatusDetected

datatype doppelganger_error =
    LivenessCheckFailed string
  | SlashingDbError string
  | IncompleteLiveness epoch nat

record validator_liveness_data =
  ld_index :: string
  ld_is_live :: bool

record forward_window_machine =
  fw_states :: "(string \<times> validator_state) list"
  fw_monitoring_epochs :: u64

text \<open>\<open>new\<close> panics on a window of zero epochs.\<close>

definition new_machine :: "u64 \<Rightarrow> forward_window_machine option" where
  "new_machine monitoring_epochs =
     (if monitoring_epochs \<ge> 1 then Some \<lparr>fw_states = [], fw_monitoring_epochs = monitoring_epochs\<rparr> else None)"

definition put_state :: "string \<Rightarrow> validator_state \<Rightarrow> forward_window_machine \<Rightarrow> forward_window_machine" where
  "put_state key st m = m\<lparr>fw_states := AList.update key st (fw_states m)\<rparr>"

definition already_registered :: "string \<Rightarrow> forward_window_machine \<Rightarrow> bool" where
  "already_registered key m =
     (case map_of (fw_states m) key of None \<Rightarrow> False | Some st \<Rightarrow> st \<noteq> Unmonitored)"

definition fresh_window :: "epoch \<Rightarrow> forward_window_machine \<Rightarrow> validator_state" where
  "fresh_window current_epoch m =
     Pending current_epoch (saturating_add current_epoch (fw_monitoring_epochs m)) {}"

text \<open>\<open>prior\<close> is what the reader answers for the key.\<close>

definition register ::
  "hex_codec \<Rightarrow> epoch option \<Rightarrow> pubkey48 \<Rightarrow> epoch \<Rightarrow> forward_window_machine \<Rightarrow> forward_window_machine" where
  "register hx prior pubkey current_epoch m =
     (let key = hex_encode hx pubkey in
      if already_registered key m then m
      else if current_epoch = 0 then put_state key Safe m
      else if should_skip_restart_monitoring current_epoch prior (fw_monitoring_epochs m)
      then put_state key Safe m
      else put_state key (fresh_window current_epoch m) m)"

definition register_for_import ::
  "hex_codec \<Rightarrow> pubkey48 \<Rightarrow> epoch \<Rightarrow> forward_window_machine \<Rightarrow> forward_window_machine" where
  "register_for_import hx pubkey current_epoch m =
     (let key = hex_encode hx pubkey in
      if already_registered key m then m else put_state key (fresh_window current_epoch m) m)"

fun status_of :: "validator_state \<Rightarrow> forward_window_status" where
  "status_of Unmonitored = StatusUnmonitored"
| "status_of (Pending _ _ _) = StatusPending"
| "status_of Safe = StatusSafe"
| "status_of Detected = StatusDetected"

text \<open>The inclusive range \<open>start..=end\<close>.\<close>

definition epoch_range :: "epoch \<Rightarrow> epoch \<Rightarrow> epoch list" where
  "epoch_range a b = map of_nat [unat a ..< Suc (unat b)]"

definition tick_state :: "epoch \<Rightarrow> u64 \<Rightarrow> validator_state \<Rightarrow> validator_state" where
  "tick_state current_epoch slot_in_epoch st =
     (case st of
        Pending start_epoch end_epoch observed_epochs \<Rightarrow>
          if (current_epoch = end_epoch \<and> slot_in_epoch \<ge> SLOTS_PER_EPOCH - 1) \<or> current_epoch > end_epoch
          then if list_all (\<lambda>e. e \<in> observed_epochs) (epoch_range start_epoch end_epoch) then Safe else st
          else st
      | _ \<Rightarrow> st)"

definition tick ::
  "epoch \<Rightarrow> u64 \<Rightarrow> forward_window_machine \<Rightarrow> forward_window_status list \<times> forward_window_machine" where
  "tick current_epoch slot_in_epoch m =
     (let states = map (\<lambda>(k, st). (k, tick_state current_epoch slot_in_epoch st)) (fw_states m)
      in (map (status_of \<circ> snd) states, m\<lparr>fw_states := states\<rparr>))"

text \<open>Duplicate samples of a key are folded with \<open>or\<close>.\<close>

definition fold_sample :: "(string \<times> bool) list \<Rightarrow> validator_liveness_data \<Rightarrow> (string \<times> bool) list" where
  "fold_sample response s =
     AList.update (ld_index s)
       (case map_of response (ld_index s) of Some v \<Rightarrow> v \<or> ld_is_live s | None \<Rightarrow> ld_is_live s) response"

definition response_of :: "validator_liveness_data list \<Rightarrow> (string \<times> bool) list" where
  "response_of samples = foldl fold_sample [] samples"

fun in_window :: "epoch \<Rightarrow> validator_state \<Rightarrow> bool" where
  "in_window e (Pending start_epoch end_epoch _) \<longleftrightarrow> e \<ge> start_epoch \<and> e \<le> end_epoch"
| "in_window e _ \<longleftrightarrow> False"

definition pending_in_window_keys :: "epoch \<Rightarrow> (string \<times> validator_state) list \<Rightarrow> string list" where
  "pending_in_window_keys e states = map fst (filter (\<lambda>(_, st). in_window e st) states)"

fun record_epoch :: "epoch \<Rightarrow> validator_state \<Rightarrow> validator_state" where
  "record_epoch e (Pending start_epoch end_epoch observed_epochs) =
     Pending start_epoch end_epoch (insert e observed_epochs)"
| "record_epoch e st = st"

definition observe_key ::
  "epoch \<Rightarrow> (string \<times> bool) list \<Rightarrow> (string \<times> validator_state) list \<times> nat \<Rightarrow> string
     \<Rightarrow> (string \<times> validator_state) list \<times> nat" where
  "observe_key e response acc key =
     (case acc of (states, missing_count) \<Rightarrow>
        case map_of states key of
          None \<Rightarrow> acc
        | Some st \<Rightarrow>
            (case map_of response key of
               Some is_live \<Rightarrow>
                 (AList.update key (if is_live then Detected else record_epoch e st) states, missing_count)
             | None \<Rightarrow> (states, missing_count + 1)))"

definition observe_liveness ::
  "epoch \<Rightarrow> validator_liveness_data list
     \<Rightarrow> forward_window_machine \<Rightarrow> (doppelganger_error + unit) \<times> forward_window_machine" where
  "observe_liveness e samples m =
     (case foldl (observe_key e (response_of samples)) (fw_states m, 0)
             (pending_in_window_keys e (fw_states m)) of
        (states, missing_count) \<Rightarrow>
          (if missing_count > 0 then Inl (IncompleteLiveness e missing_count) else Inr (),
           m\<lparr>fw_states := states\<rparr>))"

definition cancel :: "hex_codec \<Rightarrow> pubkey48 \<Rightarrow> forward_window_machine \<Rightarrow> forward_window_machine" where
  "cancel hx pubkey m = m\<lparr>fw_states := AList.delete (hex_encode hx pubkey) (fw_states m)\<rparr>"

definition status :: "hex_codec \<Rightarrow> forward_window_machine \<Rightarrow> pubkey48 \<Rightarrow> forward_window_status" where
  "status hx m pubkey =
     (case map_of (fw_states m) (hex_encode hx pubkey) of
        None \<Rightarrow> StatusUnmonitored
      | Some st \<Rightarrow> status_of st)"

definition is_signing_enabled :: "hex_codec \<Rightarrow> forward_window_machine \<Rightarrow> pubkey48 \<Rightarrow> bool" where
  "is_signing_enabled hx m pubkey \<longleftrightarrow> status hx m pubkey = StatusSafe"

definition disabled_by_operator :: "pubkey48 \<Rightarrow> bool" where
  "disabled_by_operator pubkey = True"

section \<open>The epoch clock\<close>

definition SLOT_DURATION_MS :: u64 where
  "SLOT_DURATION_MS = 12000"

record monotonic_epoch_clock =
  ec_genesis_time :: u64
  ec_start_unix_time :: u64

definition clock_current_slot :: "monotonic_epoch_clock \<Rightarrow> u64 \<Rightarrow> slot" where
  "clock_current_slot c elapsed_secs =
     saturating_mul (saturating_sub (saturating_add (ec_start_unix_time c) elapsed_secs) (ec_genesis_time c)) 1000
       div SLOT_DURATION_MS"

definition clock_current_epoch :: "monotonic_epoch_clock \<Rightarrow> u64 \<Rightarrow> epoch" where
  "clock_current_epoch c elapsed_secs = clock_current_slot c elapsed_secs div SLOTS_PER_EPOCH"

definition clock_slot_in_epoch :: "monotonic_epoch_clock \<Rightarrow> u64 \<Rightarrow> u64" where
  "clock_slot_in_epoch c elapsed_secs = clock_current_slot c elapsed_secs mod SLOTS_PER_EPOCH"

section \<open>What the operations do to one key\<close>

definition wf_machine :: "forward_window_machine \<Rightarrow> bool" where
  "wf_machine m \<longleftrightarrow> distinct (map fst (fw_states m))"

abbreviation state_of :: "forward_window_machine \<Rightarrow> string \<Rightarrow> validator_state option" where
  "state_of m k \<equiv> map_of (fw_states m) k"

lemma epoch_range_iff: "e \<in> set (epoch_range a b) \<longleftrightarrow> a \<le> e \<and> e \<le> b"
proof
  assume "a \<le> e \<and> e \<le> b"
  then have "e = of_nat (unat e)" "unat e \<in> {unat a ..< Suc (unat b)}" by (simp_all add: word_le_nat_alt)
  then show "e \<in> set (epoch_range a b)" unfolding epoch_range_def by (metis imageI set_map set_upt)
next
  assume "e \<in> set (epoch_range a b)"
  then obtain n where n: "e = of_nat n" "unat a \<le> n" "n \<le> unat b" by (auto simp: epoch_range_def)
  with unat_u64_bound [of b] have "unat e = n" by (simp add: unat_of_nat take_bit_nat_eq_self)
  with n show "a \<le> e \<and> e \<le> b" by (simp add: word_le_nat_alt)
qed

lemma response_of_snoc: "response_of (samples @ [x]) = fold_sample (response_of samples) x"
  by (simp add: response_of_def)

lemma response_of_lookup:
  "map_of (response_of samples) k =
     (if k \<in> ld_index ` set samples then Some (\<exists>x\<in>set samples. ld_index x = k \<and> ld_is_live x) else None)"
proof (induction samples rule: rev_induct)
  case (snoc x samples)
  show ?case
  proof (cases "k = ld_index x")
    case True
    with snoc show ?thesis
      by (cases "k \<in> ld_index ` set samples") (auto simp: response_of_snoc fold_sample_def update_conv image_iff)
  qed (use snoc in \<open>auto simp: response_of_snoc fold_sample_def update_conv\<close>)
qed (simp add: response_of_def)

fun observe_state :: "epoch \<Rightarrow> bool option \<Rightarrow> validator_state \<Rightarrow> validator_state" where
  "observe_state e None st = st"
| "observe_state e (Some is_live) st = (if is_live then Detected else record_epoch e st)"

lemma observe_keys_lookup:
  assumes "foldl (observe_key e response) (states, n) ks = (states', n')" "distinct ks" "set ks \<subseteq> fst ` set states"
  shows "map_of states' k =
      (if k \<in> set ks then map_option (observe_state e (map_of response k)) (map_of states k) else map_of states k)"
    and "n' = n + length (filter (\<lambda>k. map_of response k = None) ks)"
    and "distinct (map fst states) \<Longrightarrow> distinct (map fst states')"
proof -
  have "(map_of states' k =
      (if k \<in> set ks then map_option (observe_state e (map_of response k)) (map_of states k) else map_of states k))
    \<and> n' = n + length (filter (\<lambda>k. map_of response k = None) ks)
    \<and> (distinct (map fst states) \<longrightarrow> distinct (map fst states'))"
    using assms
  proof (induction ks arbitrary: states n)
    case (Cons key ks)
    then obtain st where st: "map_of states key = Some st"
      using map_of_eq_None_iff [of states key] by fastforce
    define states1 where "states1 = (case map_of response key of
        Some is_live \<Rightarrow> AList.update key (if is_live then Detected else record_epoch e st) states | None \<Rightarrow> states)"
    have step: "observe_key e response (states, n) key = (states1, if map_of response key = None then n + 1 else n)"
      using st by (auto simp: observe_key_def states1_def split: option.splits)
    have look: "map_of states1 k' = (if k' = key then Some (observe_state e (map_of response key) st) else map_of states k')" for k'
      using st by (auto simp: states1_def update_conv split: option.splits)
    have "set ks \<subseteq> fst ` set states1" using Cons.prems(3)
      by (auto simp: states1_def dom_map_of_conv_image_fst [symmetric] update_conv' split: option.splits)
    from Cons.IH [OF _ _ this] Cons.prems step
    have ih: "map_of states' k = (if k \<in> set ks then map_option (observe_state e (map_of response k)) (map_of states1 k) else map_of states1 k)"
      "n' = (if map_of response key = None then n + 1 else n) + length (filter (\<lambda>k. map_of response k = None) ks)"
      "distinct (map fst states1) \<longrightarrow> distinct (map fst states')" by auto
    have "distinct (map fst states) \<longrightarrow> distinct (map fst states1)"
      by (auto simp: states1_def distinct_update split: option.splits)
    with ih Cons.prems(2) st look show ?case by auto
  qed simp
  then show "map_of states' k =
      (if k \<in> set ks then map_option (observe_state e (map_of response k)) (map_of states k) else map_of states k)"
    "n' = n + length (filter (\<lambda>k. map_of response k = None) ks)"
    "distinct (map fst states) \<Longrightarrow> distinct (map fst states')" by blast+
qed

lemma pending_keys_iff:
  "wf_machine m \<Longrightarrow> k \<in> set (pending_in_window_keys e (fw_states m)) \<longleftrightarrow>
     (\<exists>st. state_of m k = Some st \<and> in_window e st)"
  by (force simp: pending_in_window_keys_def wf_machine_def)

lemma pending_keys_distinct:
  "wf_machine m \<Longrightarrow> distinct (pending_in_window_keys e (fw_states m))"
  by (simp add: pending_in_window_keys_def wf_machine_def distinct_map_filter)

lemma observe_liveness_run:
  assumes wf: "wf_machine m" and run: "observe_liveness e samples m = (r, m')"
  shows "wf_machine m'" "fw_monitoring_epochs m' = fw_monitoring_epochs m"
    and "state_of m' k = (case state_of m k of None \<Rightarrow> None | Some st \<Rightarrow>
      Some (if in_window e st then observe_state e (map_of (response_of samples) k) st else st))"
    and "r = Inr () \<longleftrightarrow> (\<forall>k st. state_of m k = Some st \<longrightarrow> in_window e st \<longrightarrow> k \<in> ld_index ` set samples)"
proof -
  let ?ks = "pending_in_window_keys e (fw_states m)"
  obtain states' n where f: "foldl (observe_key e (response_of samples)) (fw_states m, 0) ?ks = (states', n)"
    by fastforce
  have sub: "set ?ks \<subseteq> fst ` set (fw_states m)" by (auto simp: pending_in_window_keys_def)
  note look = observe_keys_lookup [OF f pending_keys_distinct [OF wf] sub]
  have m': "m' = m\<lparr>fw_states := states'\<rparr>" and r: "r = (if n > 0 then Inl (IncompleteLiveness e n) else Inr ())"
    using run f by (simp_all add: observe_liveness_def)
  show "wf_machine m'" "fw_monitoring_epochs m' = fw_monitoring_epochs m"
    using look(3) wf m' by (simp_all add: wf_machine_def)
  show "state_of m' k = (case state_of m k of None \<Rightarrow> None | Some st \<Rightarrow>
      Some (if in_window e st then observe_state e (map_of (response_of samples) k) st else st))"
    using look(1) pending_keys_iff [OF wf] m' by (auto split: option.splits)
  have "n = 0 \<longleftrightarrow> (\<forall>k\<in>set ?ks. k \<in> ld_index ` set samples)"
    unfolding look(2) by (auto simp: filter_empty_conv response_of_lookup)
  then show "r = Inr () \<longleftrightarrow> (\<forall>k st. state_of m k = Some st \<longrightarrow> in_window e st \<longrightarrow> k \<in> ld_index ` set samples)"
    using r pending_keys_iff [OF wf] by auto
qed

lemma tick_run:
  assumes "tick e sl m = (sts, m')"
  shows "state_of m' k = map_option (tick_state e sl) (state_of m k)" "map fst (fw_states m') = map fst (fw_states m)"
    "fw_monitoring_epochs m' = fw_monitoring_epochs m"
proof -
  have m': "m' = m\<lparr>fw_states := map (\<lambda>(k, st). (k, tick_state e sl st)) (fw_states m)\<rparr>"
    using assms by (simp add: tick_def Let_def)
  show "state_of m' k = map_option (tick_state e sl) (state_of m k)" by (simp add: m' map_of_map)
  show "map fst (fw_states m') = map fst (fw_states m)" "fw_monitoring_epochs m' = fw_monitoring_epochs m"
    by (auto simp: m' comp_def)
qed

lemma register_run:
  "state_of (register hx prior pk e m) k =
     (if hex_encode hx pk = k \<and> \<not> already_registered k m
      then Some (if e = 0 \<or> should_skip_restart_monitoring e prior (fw_monitoring_epochs m) then Safe else fresh_window e m)
      else state_of m k)"
  "state_of (register_for_import hx pk e m) k =
     (if hex_encode hx pk = k \<and> \<not> already_registered k m then Some (fresh_window e m) else state_of m k)"
  "state_of (cancel hx pk m) k = (if hex_encode hx pk = k then None else state_of m k)"
  by (auto simp: register_def register_for_import_def cancel_def put_state_def Let_def update_conv delete_conv)

lemma register_wf [simp]:
  "wf_machine m \<Longrightarrow> wf_machine (register hx prior pk e m)"
  "wf_machine m \<Longrightarrow> wf_machine (register_for_import hx pk e m)"
  "wf_machine m \<Longrightarrow> wf_machine (cancel hx pk m)"
  "fw_monitoring_epochs (register hx prior pk e m) = fw_monitoring_epochs m"
  "fw_monitoring_epochs (register_for_import hx pk e m) = fw_monitoring_epochs m"
  "fw_monitoring_epochs (cancel hx pk m) = fw_monitoring_epochs m"
  by (auto simp: wf_machine_def register_def register_for_import_def cancel_def put_state_def Let_def
      distinct_update distinct_delete)

section \<open>Histories\<close>

datatype dg_event =
    EvRegister "epoch option" pubkey48 epoch
  | EvImport pubkey48 epoch
  | EvObserve epoch "validator_liveness_data list"
  | EvTick epoch u64
  | EvCancel pubkey48

fun apply_event :: "hex_codec \<Rightarrow> forward_window_machine \<Rightarrow> dg_event \<Rightarrow> forward_window_machine" where
  "apply_event hx m (EvRegister prior pk e) = register hx prior pk e m"
| "apply_event hx m (EvImport pk e) = register_for_import hx pk e m"
| "apply_event hx m (EvObserve e samples) = snd (observe_liveness e samples m)"
| "apply_event hx m (EvTick e sl) = snd (tick e sl m)"
| "apply_event hx m (EvCancel pk) = cancel hx pk m"

definition run_events :: "hex_codec \<Rightarrow> u64 \<Rightarrow> dg_event list \<Rightarrow> forward_window_machine" where
  "run_events hx n evs = foldl (apply_event hx) \<lparr>fw_states = [], fw_monitoring_epochs = n\<rparr> evs"

fun cancels :: "hex_codec \<Rightarrow> string \<Rightarrow> dg_event \<Rightarrow> bool" where
  "cancels hx k (EvCancel pk) \<longleftrightarrow> hex_encode hx pk = k"
| "cancels hx k _ \<longleftrightarrow> False"

text \<open>The two ways past the window, and the ways into it.\<close>

fun bypasses :: "hex_codec \<Rightarrow> u64 \<Rightarrow> string \<Rightarrow> dg_event \<Rightarrow> bool" where
  "bypasses hx n k (EvRegister prior pk e) \<longleftrightarrow>
     hex_encode hx pk = k \<and> (e = 0 \<or> should_skip_restart_monitoring e prior n)"
| "bypasses hx n k _ \<longleftrightarrow> False"

fun enters :: "hex_codec \<Rightarrow> string \<Rightarrow> epoch \<Rightarrow> dg_event \<Rightarrow> bool" where
  "enters hx k e (EvRegister prior pk e') \<longleftrightarrow> hex_encode hx pk = k \<and> e' = e"
| "enters hx k e (EvImport pk e') \<longleftrightarrow> hex_encode hx pk = k \<and> e' = e"
| "enters hx k e _ \<longleftrightarrow> False"

definition reported_live :: "string \<Rightarrow> validator_liveness_data list \<Rightarrow> bool" where
  "reported_live k samples \<longleftrightarrow> (\<exists>x\<in>set samples. ld_index x = k \<and> ld_is_live x)"

definition reported_idle :: "string \<Rightarrow> validator_liveness_data list \<Rightarrow> bool" where
  "reported_idle k samples \<longleftrightarrow> k \<in> ld_index ` set samples \<and> \<not> reported_live k samples"

text \<open>Every epoch of the window was reported, and never as live.\<close>

definition seen_idle :: "string \<Rightarrow> epoch \<Rightarrow> dg_event list \<Rightarrow> bool" where
  "seen_idle k e evs \<longleftrightarrow> (\<exists>samples. EvObserve e samples \<in> set evs \<and> reported_idle k samples)"

definition never_live :: "string \<Rightarrow> epoch \<Rightarrow> epoch \<Rightarrow> dg_event list \<Rightarrow> bool" where
  "never_live k a b evs \<longleftrightarrow>
     (\<forall>e samples. EvObserve e samples \<in> set evs \<longrightarrow> a \<le> e \<longrightarrow> e \<le> b \<longrightarrow> \<not> reported_live k samples)"

definition watched :: "hex_codec \<Rightarrow> u64 \<Rightarrow> string \<Rightarrow> dg_event \<Rightarrow> dg_event list \<Rightarrow> bool" where
  "watched hx n k reg evs \<longleftrightarrow> (\<exists>a. enters hx k a reg \<and> never_live k a (saturating_add a n) evs
     \<and> (\<forall>e. a \<le> e \<longrightarrow> e \<le> saturating_add a n \<longrightarrow> seen_idle k e evs))"

definition pending_since :: "hex_codec \<Rightarrow> u64 \<Rightarrow> string \<Rightarrow> dg_event list \<Rightarrow> epoch \<Rightarrow> epoch \<Rightarrow> epoch set \<Rightarrow> bool" where
  "pending_since hx n k evs a b obs \<longleftrightarrow> b = saturating_add a n \<and>
     (\<exists>before reg after. evs = before @ reg # after \<and> enters hx k a reg \<and> (\<forall>ev\<in>set after. \<not> cancels hx k ev)
        \<and> never_live k a b after \<and> (\<forall>e\<in>obs. seen_idle k e after))"

definition cleared :: "hex_codec \<Rightarrow> u64 \<Rightarrow> string \<Rightarrow> dg_event list \<Rightarrow> bool" where
  "cleared hx n k evs \<longleftrightarrow>
     (\<exists>before reg window rest. evs = before @ reg # window @ rest \<and> (\<forall>ev\<in>set (window @ rest). \<not> cancels hx k ev)
        \<and> (bypasses hx n k reg \<or> watched hx n k reg window))"

fun explained :: "hex_codec \<Rightarrow> u64 \<Rightarrow> string \<Rightarrow> dg_event list \<Rightarrow> validator_state option \<Rightarrow> bool" where
  "explained hx n k evs (Some (Pending a b obs)) \<longleftrightarrow> pending_since hx n k evs a b obs"
| "explained hx n k evs (Some Safe) \<longleftrightarrow> cleared hx n k evs"
| "explained hx n k evs _ \<longleftrightarrow> True"

lemma seen_idle_snoc: "seen_idle k e evs \<Longrightarrow> seen_idle k e (evs @ [ev])"
  by (auto simp: seen_idle_def)

lemma cleared_snoc: "cleared hx n k evs \<Longrightarrow> \<not> cancels hx k ev \<Longrightarrow> cleared hx n k (evs @ [ev])"
  unfolding cleared_def
proof (elim exE conjE)
  fix before reg window rest
  assume "evs = before @ reg # window @ rest" "\<forall>ev\<in>set (window @ rest). \<not> cancels hx k ev" "\<not> cancels hx k ev"
    "bypasses hx n k reg \<or> watched hx n k reg window"
  then show "\<exists>before reg window rest. evs @ [ev] = before @ reg # window @ rest
      \<and> (\<forall>ev\<in>set (window @ rest). \<not> cancels hx k ev) \<and> (bypasses hx n k reg \<or> watched hx n k reg window)"
    by (intro exI [of _ before] exI [of _ reg] exI [of _ window] exI [of _ "rest @ [ev]"]) auto
qed

lemma pending_snoc:
  assumes "pending_since hx n k evs a b obs" "\<not> cancels hx k ev"
    and "\<And>e samples. ev = EvObserve e samples \<Longrightarrow> a \<le> e \<Longrightarrow> e \<le> b \<Longrightarrow> \<not> reported_live k samples"
    and "\<And>e. e \<in> obs' \<Longrightarrow> e \<in> obs \<or> (\<exists>samples. ev = EvObserve e samples \<and> reported_idle k samples)"
  shows "pending_since hx n k (evs @ [ev]) a b obs'"
proof -
  obtain before reg after where p: "evs = before @ reg # after" "enters hx k a reg"
    "\<forall>ev\<in>set after. \<not> cancels hx k ev" "never_live k a b after" "\<forall>e\<in>obs. seen_idle k e after" "b = saturating_add a n"
    using assms(1) by (auto simp: pending_since_def)
  have "never_live k a b (after @ [ev])" using p(4) assms(3) by (auto simp: never_live_def)
  moreover have "\<forall>e\<in>obs'. seen_idle k e (after @ [ev])"
    using p(5) assms(4) seen_idle_snoc by (fastforce simp: seen_idle_def)
  ultimately show ?thesis
    using p assms(2) unfolding pending_since_def
    by (intro conjI exI [of _ before] exI [of _ reg] exI [of _ "after @ [ev]"]) auto
qed

lemma pending_cleared:
  assumes "pending_since hx n k evs a b obs" "\<And>e. a \<le> e \<Longrightarrow> e \<le> b \<Longrightarrow> e \<in> obs" "\<not> cancels hx k ev"
  shows "cleared hx n k (evs @ [ev])"
proof -
  obtain before reg after where p: "evs = before @ reg # after" "enters hx k a reg"
    "\<forall>ev\<in>set after. \<not> cancels hx k ev" "never_live k a b after" "\<forall>e\<in>obs. seen_idle k e after" "b = saturating_add a n"
    using assms(1) by (auto simp: pending_since_def)
  have "watched hx n k reg after" unfolding watched_def using p assms(2) by blast
  with p assms(3) show ?thesis unfolding cleared_def
    by (intro exI [of _ before] exI [of _ reg] exI [of _ after] exI [of _ "[ev]"]) auto
qed

lemma fresh_explained:
  "enters hx k e ev \<Longrightarrow> fw_monitoring_epochs m = n \<Longrightarrow> explained hx n k (evs @ [ev]) (Some (fresh_window e m))"
  unfolding fresh_window_def explained.simps pending_since_def
  by (intro conjI exI [of _ evs] exI [of _ ev] exI [of _ "[]"]) (auto simp: never_live_def)

lemma bypass_explained: "bypasses hx n k ev \<Longrightarrow> cleared hx n k (evs @ [ev])"
  unfolding cleared_def by (intro exI [of _ evs] exI [of _ ev] exI [of _ "[]"]) auto

lemma explained_same:
  assumes "explained hx n k evs s" "\<not> cancels hx k ev" "\<And>e samples. ev \<noteq> EvObserve e samples"
  shows "explained hx n k (evs @ [ev]) s"
proof (cases s)
  case (Some st)
  with assms show ?thesis
    by (cases st) (auto intro: cleared_snoc pending_snoc)
qed simp

lemma observe_explained:
  assumes "explained hx n k evs (Some st)"
  shows "explained hx n k (evs @ [EvObserve e samples])
    (Some (if in_window e st then observe_state e (map_of (response_of samples) k) st else st))"
proof (cases st)
  case (Pending a b obs)
  let ?ev = "EvObserve e samples"
  have p: "pending_since hx n k evs a b obs" using assms Pending by simp
  have same: "pending_since hx n k (evs @ [?ev]) a b obs'"
    if "a \<le> e \<Longrightarrow> e \<le> b \<Longrightarrow> \<not> reported_live k samples" "obs' = obs \<or> obs' = insert e obs \<and> reported_idle k samples" for obs'
    by (rule pending_snoc [OF p]) (use that in auto)
  show ?thesis
  proof (cases "a \<le> e \<and> e \<le> b")
    case True
    show ?thesis
      by (cases "k \<in> ld_index ` set samples")
        (use Pending True same in \<open>auto simp: response_of_lookup reported_live_def reported_idle_def\<close>)
  qed (use Pending same in auto)
qed (use assms cleared_snoc in auto)

lemma tick_explained:
  assumes "explained hx n k evs (Some st)"
  shows "explained hx n k (evs @ [EvTick e sl]) (Some (tick_state e sl st))"
proof (cases st)
  case (Pending a b obs)
  then have p: "pending_since hx n k evs a b obs" using assms by simp
  have "explained hx n k (evs @ [EvTick e sl]) (Some st)" by (rule explained_same [OF assms]) simp_all
  moreover have "cleared hx n k (evs @ [EvTick e sl])" if "list_all (\<lambda>e. e \<in> obs) (epoch_range a b)"
    by (rule pending_cleared [OF p]) (use that in \<open>auto simp: list_all_iff epoch_range_iff\<close>)
  ultimately show ?thesis using Pending by (auto simp: tick_state_def)
qed (use assms cleared_snoc in \<open>auto simp: tick_state_def\<close>)

lemma run_events_snoc: "run_events hx n (evs @ [ev]) = apply_event hx (run_events hx n evs) ev"
  by (simp add: run_events_def)

lemma apply_event_wf:
  "wf_machine m \<Longrightarrow> wf_machine (apply_event hx m ev) \<and> fw_monitoring_epochs (apply_event hx m ev) = fw_monitoring_epochs m"
proof (cases ev)
  case (EvObserve e samples)
  assume "wf_machine m"
  with EvObserve observe_liveness_run(1,2) [OF this prod.collapse [symmetric]] show ?thesis by simp
next
  case (EvTick e sl)
  assume "wf_machine m"
  with EvTick tick_run(2,3) [OF prod.collapse [symmetric], of e sl m] show ?thesis by (simp add: wf_machine_def)
qed simp_all

lemma run_events_wf: "wf_machine (run_events hx n evs) \<and> fw_monitoring_epochs (run_events hx n evs) = n"
  by (induction evs rule: rev_induct) (simp_all add: run_events_snoc apply_event_wf run_events_def [of _ _ "[]"] wf_machine_def [of "\<lparr>fw_states = [], fw_monitoring_epochs = _\<rparr>"])

lemma run_explained: "explained hx n k evs (state_of (run_events hx n evs) k)"
proof (induction evs rule: rev_induct)
  case (snoc ev evs)
  let ?m = "run_events hx n evs"
  have wf: "wf_machine ?m" "fw_monitoring_epochs ?m = n" using run_events_wf by blast+
  show ?case
  proof (cases ev)
    case (EvRegister prior pk e)
    have "explained hx n k (evs @ [ev]) (state_of ?m k)"
      by (rule explained_same [OF snoc]) (simp_all add: EvRegister)
    then show ?thesis using EvRegister wf(2) fresh_explained [of hx k e ev ?m n evs] bypass_explained [of hx n k ev evs]
      by (auto simp: run_events_snoc register_run)
  next
    case (EvImport pk e)
    have "explained hx n k (evs @ [ev]) (state_of ?m k)"
      by (rule explained_same [OF snoc]) (simp_all add: EvImport)
    then show ?thesis using EvImport wf(2) fresh_explained [of hx k e ev ?m n evs]
      by (auto simp: run_events_snoc register_run)
  next
    case (EvObserve e samples)
    note o = observe_liveness_run(3) [OF wf(1) prod.collapse [symmetric], of e samples k]
    show ?thesis using EvObserve o snoc observe_explained [of hx n k evs _ e samples]
      by (cases "state_of ?m k") (simp_all add: run_events_snoc)
  next
    case (EvTick e sl)
    note t = tick_run(1) [OF prod.collapse [symmetric], of e sl ?m k]
    show ?thesis using EvTick t snoc tick_explained [of hx n k evs _ e sl]
      by (cases "state_of ?m k") (simp_all add: run_events_snoc)
  next
    case (EvCancel pk)
    show ?thesis
    proof (cases "hex_encode hx pk = k")
      case False
      have "explained hx n k (evs @ [ev]) (state_of ?m k)"
        by (rule explained_same [OF snoc]) (simp_all add: EvCancel False)
      with EvCancel False show ?thesis by (simp add: run_events_snoc register_run)
    qed (simp add: EvCancel run_events_snoc register_run)
  qed
qed (simp add: run_events_def)

section \<open>Guarantees\<close>

text \<open>
  C20: the gate opens only after a watched window. In every history of registrations, imports,
  liveness reports, ticks and cancellations, a key for which signing is enabled was registered,
  was not cancelled since, and either its registration was at epoch 0 or recognised as a restart,
  or between its registration and the opening every epoch of the inclusive window was reported
  for it, and no report inside the window ever said it was live.
\<close>

theorem enabled_only_after_watched_window:
  assumes "is_signing_enabled hx (run_events hx n evs) pk"
  shows "\<exists>before reg window rest. evs = before @ reg # window @ rest
    \<and> (\<forall>ev\<in>set (window @ rest). \<not> cancels hx (hex_encode hx pk) ev)
    \<and> (bypasses hx n (hex_encode hx pk) reg \<or> watched hx n (hex_encode hx pk) reg window)"
proof -
  have "state_of (run_events hx n evs) (hex_encode hx pk) = Some Safe"
    using assms by (auto simp: is_signing_enabled_def status_def split: option.splits elim: status_of.elims)
  with run_explained [of hx n "hex_encode hx pk" evs] show ?thesis by (simp add: cleared_def)
qed

definition idle_window :: "dg_event list" where
  "idle_window = EvImport [1] 10 # map (\<lambda>e. EvObserve e [\<lparr>ld_index = ''01'', ld_is_live = False\<rparr>]) [10, 11, 12] @ [EvTick 13 0]"

theorem enabled_only_after_watched_window_witness:
  "is_signing_enabled hex_ref (run_events hex_ref 2 idle_window) [1]
   \<and> (\<exists>before reg window rest. idle_window = before @ reg # window @ rest
    \<and> (\<forall>ev\<in>set (window @ rest). \<not> cancels hex_ref (hex_encode hex_ref [1]) ev)
    \<and> (bypasses hex_ref 2 (hex_encode hex_ref [1]) reg \<or> watched hex_ref 2 (hex_encode hex_ref [1]) reg window))"
proof -
  have "is_signing_enabled hex_ref (run_events hex_ref 2 idle_window) [1]" by code_simp
  with enabled_only_after_watched_window [OF this] show ?thesis by blast
qed

lemma detected_event:
  assumes "wf_machine m" "state_of m k = Some Detected" "\<not> cancels hx k ev"
  shows "state_of (apply_event hx m ev) k = Some Detected"
proof (cases ev)
  case (EvObserve e samples)
  with observe_liveness_run(3) [OF assms(1) prod.collapse [symmetric], of e samples k] assms(2) show ?thesis by simp
next
  case (EvTick e sl)
  with tick_run(1) [OF prod.collapse [symmetric], of e sl m k] assms(2) show ?thesis by (simp add: tick_state_def)
qed (use assms in \<open>auto simp: register_run already_registered_def\<close>)

lemma detected_events:
  assumes "state_of (run_events hx n evs) k = Some Detected" "\<forall>ev\<in>set later. \<not> cancels hx k ev"
  shows "state_of (run_events hx n (evs @ later)) k = Some Detected"
  using assms(2)
proof (induction later rule: rev_induct)
  case (snoc ev later)
  then have "state_of (run_events hx n (evs @ later)) k = Some Detected" "\<not> cancels hx k ev" by simp_all
  with detected_event [OF conjunct1 [OF run_events_wf]] show ?case
    by (simp add: run_events_snoc flip: append_assoc)
qed (use assms(1) in simp)

text \<open>
  C21: detection is immediate and final. One report, for an epoch inside the window of a pending
  key, that says it is live closes the gate for that key through every later event, until the key
  is cancelled, also when other samples of the same report say it is idle.
\<close>

theorem detection_is_final:
  assumes "state_of (run_events hx n evs) (hex_encode hx pk) = Some (Pending a b obs)" "a \<le> e" "e \<le> b"
    and "reported_live (hex_encode hx pk) samples" "\<forall>ev\<in>set later. \<not> cancels hx (hex_encode hx pk) ev"
  shows "status hx (run_events hx n (evs @ EvObserve e samples # later)) pk = StatusDetected"
proof -
  let ?k = "hex_encode hx pk"
  have "map_of (response_of samples) ?k = Some True"
    using assms(4) by (force simp: response_of_lookup reported_live_def)
  with observe_liveness_run(3) [OF conjunct1 [OF run_events_wf] prod.collapse [symmetric], of e samples hx n evs ?k] assms(1-3)
  have "state_of (run_events hx n (evs @ [EvObserve e samples])) ?k = Some Detected"
    by (simp add: run_events_snoc)
  from detected_events [OF this assms(5)] show ?thesis by (simp add: status_def)
qed

theorem detection_is_final_witness:
  "status hex_ref (run_events hex_ref 2 ([EvImport [1] 10] @ EvObserve 11
     [\<lparr>ld_index = ''01'', ld_is_live = True\<rparr>, \<lparr>ld_index = ''01'', ld_is_live = False\<rparr>] # [EvTick 90 0, EvImport [1] 91])) [1]
   = StatusDetected"
proof (rule detection_is_final)
  show "state_of (run_events hex_ref 2 [EvImport [1] 10]) (hex_encode hex_ref [1]) = Some (Pending 10 12 {})" by code_simp
  show "(10 :: epoch) \<le> 11" "(11 :: epoch) \<le> 12" by simp_all
  show "reported_live (hex_encode hex_ref [1]) [\<lparr>ld_index = ''01'', ld_is_live = True\<rparr>, \<lparr>ld_index = ''01'', ld_is_live = False\<rparr>]"
    by code_simp
qed simp

text \<open>
  C23: the epoch clock never runs backwards, and never skips: while it runs, the slot it shows
  grows by at most one per second, so by fewer than one epoch between two polls of a slot, and the
  epoch and the slot in it are the quotient and the remainder of the slot by 32.
\<close>

theorem epoch_clock_steady:
  assumes "unat t + 1 < 2 ^ 64"
  shows "clock_current_slot c t \<le> clock_current_slot c (t + 1)
    \<and> unat (clock_current_slot c (t + 1)) \<le> unat (clock_current_slot c t) + 1
    \<and> clock_current_slot c t = clock_current_epoch c t * SLOTS_PER_EPOCH + clock_slot_in_epoch c t
    \<and> clock_slot_in_epoch c t < SLOTS_PER_EPOCH"
proof (intro conjI)
  have t1: "unat (t + 1) = unat t + 1" using assms by (simp add: unat_word_ariths)
  define g where "g x = (min (unat (ec_start_unix_time c) + x) (2 ^ 64 - 1) - unat (ec_genesis_time c)) * 1000" for x
  have slot: "unat (clock_current_slot c x) = min (g (unat x)) (2 ^ 64 - 1) div 12000" for x
    by (simp add: clock_current_slot_def SLOT_DURATION_MS_def unat_div unat_saturating_mul unat_saturating_sub
        unat_saturating_add g_def)
  have g: "g x \<le> g (x + 1)" "g (x + 1) \<le> g x + 1000" for x unfolding g_def by auto
  show "clock_current_slot c t \<le> clock_current_slot c (t + 1)"
    using g(1) [of "unat t"] slot t1 by (simp add: word_le_nat_alt div_le_mono)
  have "min (g (unat t + 1)) (2 ^ 64 - 1) div 12000 \<le> (min (g (unat t)) (2 ^ 64 - 1) + 12000) div 12000"
    using g(2) [of "unat t"] by (intro div_le_mono) simp
  then show "unat (clock_current_slot c (t + 1)) \<le> unat (clock_current_slot c t) + 1"
    using slot t1 by simp
  show "clock_current_slot c t = clock_current_epoch c t * SLOTS_PER_EPOCH + clock_slot_in_epoch c t"
    by (simp add: clock_current_epoch_def clock_slot_in_epoch_def word_mod_div_equality)
  show "clock_slot_in_epoch c t < SLOTS_PER_EPOCH"
    by (simp add: clock_slot_in_epoch_def SLOTS_PER_EPOCH_def word_mod_less_divisor)
qed

theorem epoch_clock_steady_witness:
  "let c = \<lparr>ec_genesis_time = 1606824023, ec_start_unix_time = 1606824030\<rparr> in
     clock_current_slot c 4 \<le> clock_current_slot c (4 + 1)
     \<and> clock_current_slot c (4 + 1) = 1 \<and> clock_current_slot c 4 = 0 \<and> clock_slot_in_epoch c 4 < SLOTS_PER_EPOCH"
proof -
  let ?c = "\<lparr>ec_genesis_time = 1606824023, ec_start_unix_time = 1606824030\<rparr>"
  have "clock_current_slot ?c (4 + 1) = 1" "clock_current_slot ?c 4 = 0" by code_simp+
  with epoch_clock_steady [of 4 ?c] show ?thesis by (simp add: Let_def)
qed

lemma pinned_gvr_run:
  assumes "pinned_gvr hx d = (Inr (Some g), d')"
  shows "(gvr_cache d = Some g \<or> (\<exists>txt. map_of (metadata (current (sd_conn d))) gvr_key = Some txt \<and> parse_gvr_hex_policy hx txt = Inr g))
    \<and> current (sd_conn d') = current (sd_conn d)"
proof (cases "gvr_cache d")
  case None
  with assms show ?thesis
    by (auto simp: pinned_gvr_def read_metadata_gvr_def select_metadata_gvr_def bindE_Inr_iff on_conn_iff lift_sum_def retE_def
        split: option.splits elim!: sql_query_InrE dest!: same_tables_current)
qed (use assms in \<open>simp add: pinned_gvr_def\<close>)

text \<open>
  C22: a restart is recognised only by this database's own history of this chain. When the machine
  skips the window of a key after an epoch above zero, the database is pinned to the chain asked
  for and holds an attestation of that key whose target is the greatest on record, not in the
  future, and at most a window old.
\<close>

theorem restart_skip_needs_recent_history:
  assumes "last_signed_attestation hx key gvr d = (prior, d')" "tables_ok (current (sd_conn d))"
    and "should_skip_restart_monitoring e prior n"
  shows "(gvr_cache d = Some gvr \<or> (\<exists>txt. map_of (metadata (current (sd_conn d))) gvr_key = Some txt
            \<and> parse_gvr_hex_policy hx txt = Inr gvr))
    \<and> (\<exists>x\<in>att_history_of (normalize_pubkey key) (current (sd_conn d)).
         (\<forall>y\<in>att_history_of (normalize_pubkey key) (current (sd_conn d)). ea_target_epoch y \<le> ea_target_epoch x)
         \<and> ea_target_epoch x \<le> e \<and> e - ea_target_epoch x \<le> n)"
proof -
  obtain last where last: "prior = Some last" "last \<le> e" "e - last \<le> n"
    using assms(3) by (auto simp: should_skip_restart_monitoring_def split: option.splits if_splits)
  then obtain d1 where d1: "pinned_gvr hx d = (Inr (Some gvr), d1)" "last_signed_attestation_epoch key d1 = (Inr (Some last), d')"
    using assms(1) by (auto simp: last_signed_attestation_def split: prod.splits sum.splits option.splits if_splits)
  note p = pinned_gvr_run [OF d1(1)]
  have "tables_ok (current (sd_conn d1))" using p assms(2) by simp
  from last_signed_attestation_epoch_run [OF d1(2) this] p last show ?thesis by auto
qed

definition restart_db :: slashing_db where
  "restart_db = from_connection \<lparr>committed = \<lparr>attestations = [att_row_of ''0xaa'' 8 9 (Some ''0x01'') ''0x00''], blocks = [],
     watermarks = [], metadata = [(gvr_key, ''0x'' @ concat (replicate 32 ''ab''))]\<rparr>, txn = None, tape = []\<rparr>"

theorem restart_skip_needs_recent_history_witness:
  "(\<exists>x\<in>att_history_of ''0xaa'' (current (sd_conn restart_db)). ea_target_epoch x \<le> 10 \<and> 10 - ea_target_epoch x \<le> 2)
   \<and> should_skip_restart_monitoring 10 (fst (last_signed_attestation hex_ref ''aa'' (replicate 32 0xAB) restart_db)) 2"
proof -
  have 1: "tables_ok (current (sd_conn restart_db))" by code_simp
  have 2: "should_skip_restart_monitoring 10 (fst (last_signed_attestation hex_ref ''aa'' (replicate 32 0xAB) restart_db)) 2"
    by code_simp
  have 3: "normalize_pubkey ''aa'' = ''0xaa''" by code_simp
  from restart_skip_needs_recent_history [OF prod.collapse [symmetric] 1 2] 2 3 show ?thesis by auto
qed

end
