(* ===== verification/Bn_Health.thy ===== *)
theory Bn_Health
  imports Canonical_Text "HOL-Library.AList" Complex_Main
begin

text \<open>
  What the beacon node manager knows about its nodes: roles, tiers and thresholds
  (\<open>bn-manager/src/types.rs\<close>), the sync status a poll gives (\<open>sync_status.rs\<close>), and the health
  tracker with its latency average, error window and capability flags (\<open>health.rs\<close>).

  Durations are natural numbers of nanoseconds. The score's \<open>f64\<close> arithmetic is idealised to
  rationals: the theorems use only its order and its range. The additions of the thresholds are
  those of a release build, which wraps.
\<close>

section \<open>Tiers\<close>

datatype health_tier = TierSynced | TierSmallLag | TierLargeLag | TierUnsynced

definition as_metric_value :: "health_tier \<Rightarrow> int" where
  "as_metric_value t = (case t of TierSynced \<Rightarrow> 1 | TierSmallLag \<Rightarrow> 2 | TierLargeLag \<Rightarrow> 3 | TierUnsynced \<Rightarrow> 4)"

instantiation health_tier :: linorder
begin

definition less_eq_health_tier :: "health_tier \<Rightarrow> health_tier \<Rightarrow> bool" where
  "a \<le> b \<longleftrightarrow> as_metric_value a \<le> as_metric_value b"

definition less_health_tier :: "health_tier \<Rightarrow> health_tier \<Rightarrow> bool" where
  "a < b \<longleftrightarrow> as_metric_value a < as_metric_value b"

instance
proof
  fix x y :: health_tier
  assume "x \<le> y" "y \<le> x"
  then show "x = y" by (cases x; cases y) (simp_all add: less_eq_health_tier_def as_metric_value_def)
qed (auto simp: less_eq_health_tier_def less_health_tier_def)

end

fun show_tier :: "health_tier \<Rightarrow> string" where
  "show_tier TierSynced = ''synced''"
| "show_tier TierSmallLag = ''small-lag''"
| "show_tier TierLargeLag = ''large-lag''"
| "show_tier TierUnsynced = ''unsynced''"

record tier_thresholds =
  tt_synced :: u64
  tt_small :: u64
  tt_large :: u64

definition default_thresholds :: tier_thresholds where
  "default_thresholds = \<lparr>tt_synced = 8, tt_small = 8, tt_large = 48\<rparr>"

definition tier_for_distance :: "tier_thresholds \<Rightarrow> u64 \<Rightarrow> health_tier" where
  "tier_for_distance th distance =
     (if distance \<le> tt_synced th then TierSynced
      else if distance \<le> tt_synced th + tt_small th then TierSmallLag
      else if distance \<le> tt_synced th + tt_small th + tt_large th then TierLargeLag
      else TierUnsynced)"

section \<open>Roles\<close>

datatype bn_role = RoleAttestation | RoleProposal | RoleSyncCommittee | RoleAggregation | RoleSubmission | RoleAll

definition all_concrete :: "bn_role set" where
  "all_concrete = {RoleAttestation, RoleProposal, RoleSyncCommittee, RoleAggregation, RoleSubmission}"

definition expand_roles :: "bn_role set \<Rightarrow> bn_role set" where
  "expand_roles roles = (if RoleAll \<in> roles then all_concrete else roles)"

definition role_matches :: "bn_role set \<Rightarrow> bn_role \<Rightarrow> bool" where
  "role_matches roles required \<longleftrightarrow> RoleAll \<in> roles \<or> required \<in> roles"

fun show_role :: "bn_role \<Rightarrow> string" where
  "show_role RoleAttestation = ''attestation''"
| "show_role RoleProposal = ''proposal''"
| "show_role RoleSyncCommittee = ''sync-committee''"
| "show_role RoleAggregation = ''aggregation''"
| "show_role RoleSubmission = ''submission''"
| "show_role RoleAll = ''all''"

definition role_from_str :: "string \<Rightarrow> string + bn_role" where
  "role_from_str s =
     (let l = to_lowercase s in
      if l = ''attestation'' then Inr RoleAttestation
      else if l = ''proposal'' then Inr RoleProposal
      else if l = ''sync-committee'' \<or> l = ''sync_committee'' \<or> l = ''synccommittee'' then Inr RoleSyncCommittee
      else if l = ''aggregation'' then Inr RoleAggregation
      else if l = ''submission'' then Inr RoleSubmission
      else if l = ''all'' then Inr RoleAll
      else Inl (''invalid BN role: '' @ [CHR 0x27] @ s @ [CHR 0x27]
        @ ''. Valid roles: attestation, proposal, sync-committee, aggregation, submission, all''))"

section \<open>Sync status\<close>

datatype bn_sync_status = StatusUnknown | StatusSynced | StatusSyncing | StatusElOffline | StatusUnreachable

definition is_usable :: "bn_sync_status \<Rightarrow> bool" where
  "is_usable s \<longleftrightarrow> s = StatusSynced"

definition is_usable_for_non_el :: "bn_sync_status \<Rightarrow> bool" where
  "is_usable_for_non_el s \<longleftrightarrow> s = StatusSynced \<or> s = StatusElOffline"

record bn_sync_detail =
  sd_status :: bn_sync_status
  sd_sync_distance :: "u64 option"
  sd_head_slot :: "u64 option"
  sd_is_optimistic :: bool
  sd_el_offline :: bool

definition unknown_detail :: bn_sync_detail where
  "unknown_detail = \<lparr>sd_status = StatusUnknown, sd_sync_distance = None, sd_head_slot = None,
     sd_is_optimistic = False, sd_el_offline = False\<rparr>"

definition tier :: "tier_thresholds \<Rightarrow> bn_sync_detail \<Rightarrow> health_tier" where
  "tier th d =
     (case sd_status d of
        StatusUnreachable \<Rightarrow> TierUnsynced
      | StatusUnknown \<Rightarrow> TierUnsynced
      | StatusElOffline \<Rightarrow> TierUnsynced
      | _ \<Rightarrow>
          (case sd_sync_distance d of
             Some n \<Rightarrow> tier_for_distance th n
           | None \<Rightarrow> if sd_status d = StatusSynced then TierSynced else TierUnsynced))"

text \<open>The answer of \<open>/eth/v1/node/syncing\<close>: numbers as text, flags as they are.\<close>

record syncing_data =
  sy_head_slot :: string
  sy_sync_distance :: string
  sy_is_syncing :: bool
  sy_is_optimistic :: bool
  sy_el_offline :: bool

definition check_single_sync_status :: "'e + syncing_data \<Rightarrow> bn_sync_detail" where
  "check_single_sync_status r =
     (case r of
        Inr data \<Rightarrow>
          \<lparr>sd_status = (if sy_is_syncing data \<or> sy_is_optimistic data then StatusSyncing
              else if sy_el_offline data then StatusElOffline else StatusSynced),
           sd_sync_distance = parse_u64 (sy_sync_distance data), sd_head_slot = parse_u64 (sy_head_slot data),
           sd_is_optimistic = sy_is_optimistic data, sd_el_offline = sy_el_offline data\<rparr>
      | Inl _ \<Rightarrow> unknown_detail\<lparr>sd_status := StatusUnreachable\<rparr>)"

definition check_all_sync_statuses :: "('e + syncing_data) list \<Rightarrow> bn_sync_detail list" where
  "check_all_sync_statuses answers = map check_single_sync_status answers"

section \<open>Health\<close>

definition DEFAULT_EMA_ALPHA :: rat where
  "DEFAULT_EMA_ALPHA = 3 / 10"

definition DEFAULT_WINDOW_SIZE :: nat where
  "DEFAULT_WINDOW_SIZE = 100"

definition DEFAULT_UNHEALTHY_THRESHOLD :: rat where
  "DEFAULT_UNHEALTHY_THRESHOLD = 2 / 10"

definition W_LATENCY :: rat where
  "W_LATENCY = 4 / 10"

definition W_ERROR_RATE :: rat where
  "W_ERROR_RATE = 6 / 10"

definition MAX_LATENCY_MS :: rat where
  "MAX_LATENCY_MS = 5000"

definition CAPABILITY_REPROBE_SKIP :: nat where
  "CAPABILITY_REPROBE_SKIP = 1"

record bn_health_tracker =
  ht_endpoint :: string
  ht_latency_ema_ms :: "rat option"
  ht_outcomes :: "bool list"
  ht_window_size :: nat
  ht_incapable :: "string list"
  ht_reprobe_skips :: "(string \<times> nat) list"

definition new_tracker :: "string \<Rightarrow> bn_health_tracker" where
  "new_tracker endpoint = \<lparr>ht_endpoint = endpoint, ht_latency_ema_ms = None, ht_outcomes = [],
     ht_window_size = DEFAULT_WINDOW_SIZE, ht_incapable = [], ht_reprobe_skips = []\<rparr>"

definition update_latency_ema :: "rat \<Rightarrow> bn_health_tracker \<Rightarrow> bn_health_tracker" where
  "update_latency_ema ms t = t\<lparr>ht_latency_ema_ms := Some (case ht_latency_ema_ms t of
     Some prev \<Rightarrow> DEFAULT_EMA_ALPHA * ms + (1 - DEFAULT_EMA_ALPHA) * prev | None \<Rightarrow> ms)\<rparr>"

definition push_outcome :: "bool \<Rightarrow> bn_health_tracker \<Rightarrow> bn_health_tracker" where
  "push_outcome success t = t\<lparr>ht_outcomes :=
     (if length (ht_outcomes t) \<ge> ht_window_size t then tl (ht_outcomes t) else ht_outcomes t) @ [success]\<rparr>"

definition record_success :: "nat \<Rightarrow> bn_health_tracker \<Rightarrow> bn_health_tracker" where
  "record_success latency t = push_outcome True (update_latency_ema (of_nat latency / 1000000) t)"

definition record_error :: "bn_health_tracker \<Rightarrow> bn_health_tracker" where
  "record_error t = push_outcome False t"

definition error_rate :: "bn_health_tracker \<Rightarrow> rat" where
  "error_rate t =
     (if ht_outcomes t = [] then 0
      else of_nat (length (filter (\<lambda>ok. \<not> ok) (ht_outcomes t))) / of_nat (length (ht_outcomes t)))"

definition score :: "bn_health_tracker \<Rightarrow> rat" where
  "score t =
     (let latency_score = (case ht_latency_ema_ms t of Some ms \<Rightarrow> max (1 - ms / MAX_LATENCY_MS) 0 | None \<Rightarrow> 1 / 2);
          error_score = 1 - error_rate t
      in W_LATENCY * latency_score + W_ERROR_RATE * error_score)"

definition is_healthy :: "bn_health_tracker \<Rightarrow> bool" where
  "is_healthy t \<longleftrightarrow> score t > DEFAULT_UNHEALTHY_THRESHOLD"

definition is_capable :: "string \<Rightarrow> bn_health_tracker \<Rightarrow> bool" where
  "is_capable operation t \<longleftrightarrow> operation \<notin> set (ht_incapable t)"

definition mark_incapable :: "string \<Rightarrow> bn_health_tracker \<Rightarrow> bn_health_tracker" where
  "mark_incapable operation t = t\<lparr>ht_incapable := List.insert operation (ht_incapable t),
     ht_reprobe_skips := AList.update operation CAPABILITY_REPROBE_SKIP (ht_reprobe_skips t)\<rparr>"

definition mark_capable :: "string \<Rightarrow> bn_health_tracker \<Rightarrow> bn_health_tracker" where
  "mark_capable operation t = t\<lparr>ht_incapable := removeAll operation (ht_incapable t),
     ht_reprobe_skips := AList.delete operation (ht_reprobe_skips t)\<rparr>"

text \<open>The compare-and-swap loop takes one skip if there is one.\<close>

definition consume_reprobe_skip :: "string \<Rightarrow> bn_health_tracker \<Rightarrow> bool \<times> bn_health_tracker" where
  "consume_reprobe_skip operation t =
     (if operation \<notin> set (ht_incapable t) then (False, t)
      else case map_of (ht_reprobe_skips t) operation of
        None \<Rightarrow> (False, t)
      | Some n \<Rightarrow>
          if n = 0 then (False, t)
          else (True, t\<lparr>ht_reprobe_skips := AList.update operation (n - 1) (ht_reprobe_skips t)\<rparr>))"

section \<open>Facts\<close>

lemma role_from_show: "role_from_str (show_role r) = Inr r"
  by (cases r; hypsubst; code_simp)

lemma tier_for_distance_le:
  assumes "unat (tt_synced th) + unat (tt_small th) + unat (tt_large th) < 2 ^ 64"
  shows "tier_for_distance th d \<le> TierSynced \<longleftrightarrow> unat d \<le> unat (tt_synced th)"
    and "tier_for_distance th d \<le> TierSmallLag \<longleftrightarrow> unat d \<le> unat (tt_synced th) + unat (tt_small th)"
    and "tier_for_distance th d \<le> TierLargeLag \<longleftrightarrow> unat d \<le> unat (tt_synced th) + unat (tt_small th) + unat (tt_large th)"
proof -
  have "unat (tt_synced th + tt_small th) = unat (tt_synced th) + unat (tt_small th)"
    "unat (tt_synced th + tt_small th + tt_large th) = unat (tt_synced th) + unat (tt_small th) + unat (tt_large th)"
    using assms by (simp_all add: unat_word_ariths)
  then show "tier_for_distance th d \<le> TierSynced \<longleftrightarrow> unat d \<le> unat (tt_synced th)"
    "tier_for_distance th d \<le> TierSmallLag \<longleftrightarrow> unat d \<le> unat (tt_synced th) + unat (tt_small th)"
    "tier_for_distance th d \<le> TierLargeLag \<longleftrightarrow> unat d \<le> unat (tt_synced th) + unat (tt_small th) + unat (tt_large th)"
    by (auto simp: tier_for_distance_def less_eq_health_tier_def as_metric_value_def word_le_nat_alt)
qed

lemma error_rate_range: "0 \<le> error_rate t \<and> error_rate t \<le> 1"
  by (auto simp: error_rate_def divide_le_eq_1 length_filter_le)

end
