(* ===== verification/Bn_Manager.thy ===== *)
theory Bn_Manager
  imports Bn_Health "HOL-Library.Product_Lexorder"
begin

text \<open>
  The beacon node manager (\<open>bn-manager/src/manager.rs\<close>, \<open>broadcast.rs\<close>, \<open>beacon/src/error.rs\<close>):
  which nodes an operation may use and in what order, the query strategies (first, first with
  data, sequential failover, best of all), the broadcast, and the merges of broadcast answers.

  What a node answers is an argument. For a sequential strategy it is a function from the
  position of the attempt to an \<open>attempt\<close>: the instant of the deadline check, how long the node
  takes, what it answers, and the instant after it. For a parallel strategy it is a function
  from the index of the node to its answer and latency. Instants and durations are natural
  numbers of nanoseconds. A query returns its result, the number of nodes it contacted (the
  \<open>tried\<close> field of its span) and the manager with updated health trackers.
\<close>

section \<open>Errors and attempts\<close>

datatype beacon_error =
    HttpError string
  | ParseError string
  | ApiError nat string
  | BeaconTimeout
  | OperationTimeout string nat
  | InvalidUrl string
  | BodyTooLarge nat nat
  | NoEligibleBn string string

definition FORK_RECOGNISED :: string where
  "FORK_RECOGNISED = ''fork_recognised''"

definition PRODUCE_BLOCK_V4 :: string where
  "PRODUCE_BLOCK_V4 = ''produce_block_v4''"

datatype tracker_outcome = OutcomeSuccess nat | OutcomeError | OutcomeIncapable bool

text \<open>\<open>str::contains\<close>.\<close>

definition str_contains :: "string \<Rightarrow> string \<Rightarrow> bool" where
  "str_contains s sub \<longleftrightarrow> list_ex (\<lambda>i. take (length sub) (drop i s) = sub) [0 ..< Suc (length s)]"

definition is_production_failover_error :: "beacon_error \<Rightarrow> bool" where
  "is_production_failover_error e =
     (case e of
        BeaconTimeout \<Rightarrow> True
      | OperationTimeout _ _ \<Rightarrow> True
      | HttpError _ \<Rightarrow> True
      | ApiError status _ \<Rightarrow> status = 404 \<or> status = 405 \<or> (500 \<le> status \<and> status < 600)
      | _ \<Rightarrow> False)"

definition is_unrecognised_fork :: "beacon_error \<Rightarrow> bool" where
  "is_unrecognised_fork e =
     (case e of
        ParseError msg \<Rightarrow> str_contains msg ''invalid Eth-Consensus-Version''
          \<or> str_contains msg ''unparseable Eth-Consensus-Version''
      | _ \<Rightarrow> False)"

definition is_v4_capability_gap :: "string \<Rightarrow> beacon_error \<Rightarrow> bool" where
  "is_v4_capability_gap op_name e \<longleftrightarrow> op_name = PRODUCE_BLOCK_V4 \<and>
     (case e of ApiError status _ \<Rightarrow> status = 404 \<or> status = 405 \<or> status = 501 | _ \<Rightarrow> False)"

definition error_outcome :: "string \<Rightarrow> beacon_error \<Rightarrow> tracker_outcome" where
  "error_outcome op_name e =
     (if is_unrecognised_fork e then OutcomeIncapable True
      else if is_v4_capability_gap op_name e then OutcomeIncapable False
      else OutcomeError)"

definition no_eligible_bn :: "string \<Rightarrow> bn_role \<Rightarrow> beacon_error" where
  "no_eligible_bn op_name role = NoEligibleBn op_name (show_role role)"

definition capable_of :: "bn_health_tracker \<Rightarrow> string \<Rightarrow> bool" where
  "capable_of t op_name \<longleftrightarrow> is_capable op_name t \<and> (op_name \<noteq> PRODUCE_BLOCK_V4 \<or> is_capable FORK_RECOGNISED t)"

definition skip_capability :: "bn_health_tracker \<Rightarrow> string \<Rightarrow> bool \<times> bn_health_tracker" where
  "skip_capability t op_name =
     (case consume_reprobe_skip op_name t of (skip_op, t1) \<Rightarrow>
        if op_name = PRODUCE_BLOCK_V4
        then (case consume_reprobe_skip FORK_RECOGNISED t1 of (skip_fork, t2) \<Rightarrow> (skip_fork \<or> skip_op, t2))
        else (skip_op, t1))"

section \<open>Time budgets\<close>

definition ATTEMPT_TIMEOUT_FLOOR :: nat where
  "ATTEMPT_TIMEOUT_FLOOR = 250000000"

definition split_attempt_timeout :: "nat \<Rightarrow> nat \<Rightarrow> nat" where
  "split_attempt_timeout remaining remaining_bns =
     (if remaining_bns \<le> 1 then remaining
      else let split = remaining div remaining_bns in if split = 0 then remaining else split)"

definition attempt_timeout :: "nat \<Rightarrow> nat \<Rightarrow> nat option" where
  "attempt_timeout remaining bns_left =
     (if remaining = 0 then None
      else Some (min remaining (max (split_attempt_timeout remaining bns_left) ATTEMPT_TIMEOUT_FLOOR)))"

text \<open>\<open>now\<close> is the instant of the call; \<open>saturating_duration_since\<close> is subtraction on naturals.\<close>

definition attempt_limit :: "string \<Rightarrow> nat option \<Rightarrow> nat \<Rightarrow> nat \<Rightarrow> beacon_error + nat option" where
  "attempt_limit op_name deadline now bns_left =
     (case deadline of
        None \<Rightarrow> Inr None
      | Some end \<Rightarrow>
          (case attempt_timeout (end - now) bns_left of
             Some bound \<Rightarrow> Inr (Some bound)
           | None \<Rightarrow> Inl (OperationTimeout op_name 0)))"

record 'a attempt =
  at_check :: nat
  at_delay :: nat
  at_answer :: "beacon_error + 'a"
  at_recheck :: nat

text \<open>\<open>tokio::time::timeout\<close> gives the answer when it comes within the bound.\<close>

definition timed :: "nat option \<Rightarrow> (nat \<Rightarrow> beacon_error) \<Rightarrow> 'a attempt \<Rightarrow> beacon_error + 'a" where
  "timed bound expiry a =
     (case bound of
        None \<Rightarrow> at_answer a
      | Some d \<Rightarrow> if at_delay a \<le> d then at_answer a else Inl (expiry d))"

definition await_attempt :: "string \<Rightarrow> nat option \<Rightarrow> 'a attempt \<Rightarrow> beacon_error + 'a" where
  "await_attempt op_name bound a = timed bound (OperationTimeout op_name) a"

section \<open>The manager\<close>

record broadcast_topics =
  bt_attestations :: bool
  bt_blocks :: bool
  bt_sync_committee :: bool
  bt_subscriptions :: bool

record bn_manager =
  bm_endpoints :: "string list"
  bm_sync_statuses :: "bn_sync_detail list"
  bm_health_trackers :: "bn_health_tracker list"
  bm_broadcast_topics :: broadcast_topics
  bm_roles :: "bn_role set list"
  bm_tier_thresholds :: tier_thresholds

text \<open>
  \<open>new\<close>. The URL library and the construction of a client are arguments: \<open>parse_url\<close> gives the parts
  of a URL or the text of a parse error, \<open>new_client\<close> the error of a client that cannot be built.
\<close>

datatype bn_manager_error = NoEndpoints | InvalidEndpoint string | ManagerBeacon beacon_error

record parsed_url =
  url_scheme :: string
  url_username :: string
  url_password :: "string option"
  url_host :: "string option"

definition check_endpoint ::
  "(string \<Rightarrow> string + parsed_url) \<Rightarrow> (string \<Rightarrow> beacon_error option) \<Rightarrow> string \<Rightarrow> bn_manager_error option" where
  "check_endpoint parse_url new_client endpoint =
     (case parse_url endpoint of
        Inl e \<Rightarrow> Some (InvalidEndpoint (''failed to parse URL: '' @ e))
      | Inr parsed \<Rightarrow>
          if url_scheme parsed \<noteq> ''http'' \<and> url_scheme parsed \<noteq> ''https''
          then Some (InvalidEndpoint (''endpoint must use http or https scheme: '' @ endpoint))
          else if url_username parsed \<noteq> [] \<or> url_password parsed \<noteq> None
          then Some (InvalidEndpoint ''endpoint must not contain credentials'')
          else if url_host parsed = None \<or> url_host parsed = Some []
          then Some (InvalidEndpoint ''endpoint must contain a host'')
          else map_option ManagerBeacon (new_client endpoint))"

fun first_invalid :: "(string \<Rightarrow> bn_manager_error option) \<Rightarrow> string list \<Rightarrow> bn_manager_error option" where
  "first_invalid check [] = None"
| "first_invalid check (e # es) = (case check e of Some err \<Rightarrow> Some err | None \<Rightarrow> first_invalid check es)"

definition new_manager ::
  "(string \<Rightarrow> string + parsed_url) \<Rightarrow> (string \<Rightarrow> beacon_error option) \<Rightarrow> string list \<Rightarrow> broadcast_topics
     \<Rightarrow> bn_role set list \<Rightarrow> tier_thresholds \<Rightarrow> bn_manager_error + bn_manager" where
  "new_manager parse_url new_client endpoints topics roles thresholds =
     (if endpoints = [] then Inl NoEndpoints
      else case first_invalid (check_endpoint parse_url new_client) endpoints of
        Some e \<Rightarrow> Inl e
      | None \<Rightarrow> Inr
          \<lparr>bm_endpoints = endpoints,
           bm_sync_statuses = replicate (length endpoints) unknown_detail,
           bm_health_trackers = map new_tracker endpoints,
           bm_broadcast_topics = topics,
           bm_roles = (if length roles = length endpoints then roles
             else replicate (length endpoints) {RoleAll}),
           bm_tier_thresholds = thresholds\<rparr>)"

abbreviation client_count :: "bn_manager \<Rightarrow> nat" where
  "client_count m \<equiv> length (bm_endpoints m)"

abbreviation tracker_at :: "bn_manager \<Rightarrow> nat \<Rightarrow> bn_health_tracker" where
  "tracker_at m i \<equiv> bm_health_trackers m ! i"

definition set_tracker :: "nat \<Rightarrow> bn_health_tracker \<Rightarrow> bn_manager \<Rightarrow> bn_manager" where
  "set_tracker i t m = m\<lparr>bm_health_trackers := (bm_health_trackers m)[i := t]\<rparr>"

definition check_sync_status :: "('e + syncing_data) list \<Rightarrow> bn_manager \<Rightarrow> bn_manager" where
  "check_sync_status answers m = m\<lparr>bm_sync_statuses := check_all_sync_statuses answers\<rparr>"

definition apply_outcome :: "string \<Rightarrow> tracker_outcome \<Rightarrow> bn_health_tracker \<Rightarrow> bn_health_tracker" where
  "apply_outcome op_name outcome t =
     (case outcome of
        OutcomeSuccess latency \<Rightarrow>
          (let t1 = mark_capable op_name (record_success latency t)
           in if op_name = PRODUCE_BLOCK_V4 then mark_capable FORK_RECOGNISED t1 else t1)
      | OutcomeError \<Rightarrow> record_error t
      | OutcomeIncapable unrecognised_fork \<Rightarrow>
          (let t1 = mark_incapable op_name (record_error t)
           in if unrecognised_fork then mark_incapable FORK_RECOGNISED t1 else t1))"

fun record_outcomes :: "string \<Rightarrow> (nat \<times> tracker_outcome) list \<Rightarrow> bn_manager \<Rightarrow> bn_manager" where
  "record_outcomes op_name [] m = m"
| "record_outcomes op_name ((idx, outcome) # rest) m =
     record_outcomes op_name rest (set_tracker idx (apply_outcome op_name outcome (tracker_at m idx)) m)"

section \<open>Selection\<close>

definition sort_indices_by_health :: "bn_health_tracker list \<Rightarrow> nat list \<Rightarrow> nat list" where
  "sort_indices_by_health trackers indices = sort_key (\<lambda>i. (- score (trackers ! i), i)) indices"

definition role_matching_indices :: "bn_manager \<Rightarrow> bn_role \<Rightarrow> nat list" where
  "role_matching_indices m role =
     (let matched = filter (\<lambda>i. role_matches (bm_roles m ! i) role) [0 ..< client_count m]
      in if matched \<noteq> [] then matched
         else filter (\<lambda>i. RoleAll \<in> bm_roles m ! i) [0 ..< client_count m])"

definition tier_of :: "bn_manager \<Rightarrow> nat \<Rightarrow> health_tier" where
  "tier_of m i = tier (bm_tier_thresholds m) (bm_sync_statuses m ! i)"

definition fallback_tiers :: "health_tier \<Rightarrow> health_tier list" where
  "fallback_tiers min_tier =
     (case min_tier of
        TierSynced \<Rightarrow> [TierSmallLag, TierLargeLag, TierUnsynced]
      | TierSmallLag \<Rightarrow> [TierLargeLag, TierUnsynced]
      | TierLargeLag \<Rightarrow> [TierUnsynced]
      | TierUnsynced \<Rightarrow> [])"

text \<open>The first tier of the list at which some candidate is left.\<close>

fun relax_tier :: "(nat \<Rightarrow> health_tier) \<Rightarrow> nat list \<Rightarrow> health_tier list \<Rightarrow> nat list" where
  "relax_tier f indices [] = []"
| "relax_tier f indices (t # ts) =
     (let kept = filter (\<lambda>i. f i \<le> t) indices in if kept \<noteq> [] then kept else relax_tier f indices ts)"

definition role_pool :: "bn_manager \<Rightarrow> bn_role \<Rightarrow> nat list" where
  "role_pool m role =
     (let role_indices = role_matching_indices m role
      in if role_indices = [] then [0 ..< client_count m] else role_indices)"

definition tier_filtered :: "bn_manager \<Rightarrow> bn_role \<Rightarrow> health_tier \<Rightarrow> nat list" where
  "tier_filtered m role min_tier =
     (let role_indices = role_pool m role;
          kept = relax_tier (tier_of m) role_indices (min_tier # fallback_tiers min_tier)
      in if kept = [] then role_indices else kept)"

text \<open>Flagged nodes are skipped once each, then probed again.\<close>

fun reprobe_scan :: "string \<Rightarrow> nat list \<Rightarrow> bn_manager \<Rightarrow> nat list \<times> bn_manager" where
  "reprobe_scan op_name [] m = ([], m)"
| "reprobe_scan op_name (i # is) m =
     (if capable_of (tracker_at m i) op_name then reprobe_scan op_name is m
      else case skip_capability (tracker_at m i) op_name of (skip, t) \<Rightarrow>
        case reprobe_scan op_name is (set_tracker i t m) of (rest, m1) \<Rightarrow>
          (if skip then rest else i # rest, m1))"

definition healthy_or_all :: "bn_manager \<Rightarrow> nat list \<Rightarrow> nat list" where
  "healthy_or_all m indices =
     (let healthy = filter (\<lambda>i. is_healthy (tracker_at m i)) indices in if healthy = [] then indices else healthy)"

definition synced_indices :: "bn_role \<Rightarrow> health_tier \<Rightarrow> string \<Rightarrow> bn_manager \<Rightarrow> nat list \<times> bn_manager" where
  "synced_indices role min_tier op_name m =
     (let pool = tier_filtered m role min_tier;
          capable = filter (\<lambda>i. capable_of (tracker_at m i) op_name) pool
      in if capable = []
         then (sort_indices_by_health (bm_health_trackers m) (healthy_or_all m pool), m)
         else case reprobe_scan op_name pool m of (reprobe, m1) \<Rightarrow>
           (sort_indices_by_health (bm_health_trackers m) reprobe
             @ sort_indices_by_health (bm_health_trackers m) (healthy_or_all m capable), m1))"

section \<open>Sequential strategies\<close>

type_synonym 'a query_result = "(beacon_error + 'a) \<times> nat \<times> bn_manager"

fun query_first_loop ::
  "string \<Rightarrow> bn_role \<Rightarrow> nat option \<Rightarrow> (nat \<Rightarrow> 'a attempt) \<Rightarrow> nat list \<Rightarrow> nat
     \<Rightarrow> beacon_error option \<Rightarrow> bn_manager \<Rightarrow> (string \<times> 'a) query_result" where
  "query_first_loop op_name role deadline env [] tried last_err m =
     (Inl (case last_err of Some e \<Rightarrow> e | None \<Rightarrow> no_eligible_bn op_name role), tried, m)"
| "query_first_loop op_name role deadline env (i # is) tried last_err m =
     (case attempt_limit op_name deadline (at_check (env tried)) (length (i # is)) of
        Inl e \<Rightarrow> (Inl e, tried, m)
      | Inr bound \<Rightarrow>
          (case await_attempt op_name bound (env tried) of
             Inr result \<Rightarrow>
               (Inr (bm_endpoints m ! i, result), tried + 1,
                record_outcomes op_name [(i, OutcomeSuccess (at_delay (env tried)))] m)
           | Inl e \<Rightarrow>
               query_first_loop op_name role deadline env is (tried + 1) (Some e)
                 (record_outcomes op_name [(i, error_outcome op_name e)] m)))"

definition query_first_inner ::
  "string \<Rightarrow> bn_role \<Rightarrow> health_tier \<Rightarrow> nat option \<Rightarrow> (nat \<Rightarrow> 'a attempt)
     \<Rightarrow> bn_manager \<Rightarrow> (string \<times> 'a) query_result" where
  "query_first_inner op_name role min_tier deadline env m =
     (case synced_indices role min_tier op_name m of (indices, m1) \<Rightarrow>
        if indices = [] then (Inl (no_eligible_bn op_name role), 0, m1)
        else query_first_loop op_name role deadline env indices 0 None m1)"

definition query_first ::
  "string \<Rightarrow> bn_role \<Rightarrow> health_tier \<Rightarrow> nat option \<Rightarrow> (nat \<Rightarrow> 'a attempt) \<Rightarrow> bn_manager \<Rightarrow> 'a query_result" where
  "query_first op_name role min_tier deadline env m =
     (case query_first_inner op_name role min_tier deadline env m of
        (r, rest) \<Rightarrow> (map_sum id snd r, rest))"

text \<open>An answer without data (HTTP 204) is no answer of the cluster and no health outcome.\<close>

fun is_operation_timeout :: "beacon_error \<Rightarrow> bool" where
  "is_operation_timeout (OperationTimeout _ _) \<longleftrightarrow> True"
| "is_operation_timeout _ \<longleftrightarrow> False"

definition prefer_some_end :: "string \<Rightarrow> bn_role \<Rightarrow> bool \<Rightarrow> beacon_error option \<Rightarrow> beacon_error + 'a option" where
  "prefer_some_end op_name role saw_none last_err =
     (case last_err of
        Some e \<Rightarrow> if is_operation_timeout e then Inl e else if saw_none then Inr None else Inl e
      | None \<Rightarrow> if saw_none then Inr None else Inl (no_eligible_bn op_name role))"

fun prefer_some_loop ::
  "string \<Rightarrow> bn_role \<Rightarrow> nat option \<Rightarrow> (nat \<Rightarrow> 'a option attempt) \<Rightarrow> nat list \<Rightarrow> nat \<Rightarrow> bool
     \<Rightarrow> beacon_error option \<Rightarrow> bn_manager \<Rightarrow> 'a option query_result" where
  "prefer_some_loop op_name role deadline env [] tried saw_none last_err m =
     (prefer_some_end op_name role saw_none last_err, tried, m)"
| "prefer_some_loop op_name role deadline env (i # is) tried saw_none last_err m =
     (case attempt_limit op_name deadline (at_check (env tried)) (length (i # is)) of
        Inl e \<Rightarrow> (Inl e, tried, m)
      | Inr bound \<Rightarrow>
          (case await_attempt op_name bound (env tried) of
             Inr (Some result) \<Rightarrow>
               (Inr (Some result), tried + 1,
                record_outcomes op_name [(i, OutcomeSuccess (at_delay (env tried)))] m)
           | Inr None \<Rightarrow> prefer_some_loop op_name role deadline env is (tried + 1) True last_err m
           | Inl e \<Rightarrow>
               (let m1 = record_outcomes op_name [(i, error_outcome op_name e)] m in
                if is_operation_timeout e \<and> is = [] then (Inl e, tried + 1, m1)
                else case (if is_operation_timeout e
                           then attempt_limit op_name deadline (at_recheck (env tried)) (length is)
                           else Inr None) of
                  Inl exhausted \<Rightarrow> (Inl exhausted, tried + 1, m1)
                | Inr _ \<Rightarrow> prefer_some_loop op_name role deadline env is (tried + 1) saw_none (Some e) m1)))"

definition query_first_prefer_some ::
  "string \<Rightarrow> bn_role \<Rightarrow> health_tier \<Rightarrow> nat option \<Rightarrow> (nat \<Rightarrow> 'a option attempt)
     \<Rightarrow> bn_manager \<Rightarrow> 'a option query_result" where
  "query_first_prefer_some op_name role min_tier deadline env m =
     (case synced_indices role min_tier op_name m of (indices, m1) \<Rightarrow>
        if indices = [] then (Inl (no_eligible_bn op_name role), 0, m1)
        else prefer_some_loop op_name role deadline env indices 0 False None m1)"

text \<open>Production failover: \<open>failures\<close> and \<open>incapables\<close> are its two counters.\<close>

definition failover_end ::
  "string \<Rightarrow> bn_role \<Rightarrow> nat \<Rightarrow> nat \<Rightarrow> beacon_error option \<Rightarrow> beacon_error" where
  "failover_end op_name role failures incapables last_err =
     (if failures > 0 \<and> incapables = failures
         \<and> (case last_err of None \<Rightarrow> True
            | Some e \<Rightarrow> is_v4_capability_gap op_name e \<or> is_unrecognised_fork e)
      then no_eligible_bn op_name role
      else case last_err of Some e \<Rightarrow> e | None \<Rightarrow> no_eligible_bn op_name role)"

definition failover_bound :: "(nat \<times> nat) option \<Rightarrow> nat \<Rightarrow> nat \<Rightarrow> nat option option" where
  "failover_bound deadline now remaining_bns =
     (case deadline of
        None \<Rightarrow> Some None
      | Some (end, _) \<Rightarrow> map_option Some (attempt_timeout (end - now) remaining_bns))"

fun query_failover_loop ::
  "string \<Rightarrow> bn_role \<Rightarrow> (nat \<times> nat) option \<Rightarrow> (nat \<Rightarrow> 'a attempt) \<Rightarrow> nat list \<Rightarrow> nat \<Rightarrow> nat \<Rightarrow> nat
     \<Rightarrow> beacon_error option \<Rightarrow> bn_manager \<Rightarrow> 'a query_result" where
  "query_failover_loop op_name role deadline env [] tried failures incapables last_err m =
     (Inl (failover_end op_name role failures incapables last_err), tried, m)"
| "query_failover_loop op_name role deadline env (i # is) tried failures incapables last_err m =
     (case failover_bound deadline (at_check (env tried)) (length (i # is)) of
        None \<Rightarrow>
          (Inl (failover_end op_name role failures incapables
             (Some (OperationTimeout op_name (snd (the deadline))))), tried, m)
      | Some bound \<Rightarrow>
          (case timed bound (\<lambda>_. BeaconTimeout) (env tried) of
             Inr value \<Rightarrow>
               (Inr value, tried + 1,
                record_outcomes op_name [(i, OutcomeSuccess (at_delay (env tried)))] m)
           | Inl e \<Rightarrow>
               (let outcome = error_outcome op_name e;
                    incapables1 = (case outcome of OutcomeIncapable _ \<Rightarrow> incapables + 1 | _ \<Rightarrow> incapables);
                    m1 = record_outcomes op_name [(i, outcome)] m
                in if is_production_failover_error e
                   then query_failover_loop op_name role deadline env is (tried + 1) (failures + 1) incapables1 (Some e) m1
                   else (Inl (failover_end op_name role (failures + 1) incapables1 (Some e)), tried + 1, m1))))"

definition query_failover ::
  "string \<Rightarrow> bn_role \<Rightarrow> health_tier \<Rightarrow> nat option \<Rightarrow> nat \<Rightarrow> (nat \<Rightarrow> 'a attempt) \<Rightarrow> bn_manager \<Rightarrow> 'a query_result" where
  "query_failover op_name role min_tier budget now env m =
     (case synced_indices role min_tier op_name m of (indices, m1) \<Rightarrow>
        if indices = [] then (Inl (no_eligible_bn op_name role), 0, m1)
        else query_failover_loop op_name role (map_option (\<lambda>d. (now + d, d)) budget) env indices 0 0 0 None m1)"

section \<open>Parallel strategies\<close>

text \<open>\<open>answer i\<close> is what node \<open>i\<close> answers, and after how long.\<close>

type_synonym 'a fleet = "nat \<Rightarrow> (beacon_error + 'a) \<times> nat"

definition outcome_of :: "string \<Rightarrow> (beacon_error + 'a) \<times> nat \<Rightarrow> tracker_outcome" where
  "outcome_of op_name r =
     (case fst r of Inr _ \<Rightarrow> OutcomeSuccess (snd r) | Inl e \<Rightarrow> error_outcome op_name e)"

definition outcomes_of :: "string \<Rightarrow> 'a fleet \<Rightarrow> nat list \<Rightarrow> (nat \<times> tracker_outcome) list" where
  "outcomes_of op_name answer indices = map (\<lambda>i. (i, outcome_of op_name (answer i))) indices"

fun best_of :: "('a \<Rightarrow> 'a \<Rightarrow> bool) \<Rightarrow> 'a option \<Rightarrow> (beacon_error + 'a) list \<Rightarrow> 'a option" where
  "best_of pick_best best [] = best"
| "best_of pick_best best (Inl e # rs) = best_of pick_best best rs"
| "best_of pick_best best (Inr v # rs) =
     best_of pick_best
       (Some (case best of None \<Rightarrow> v | Some prev \<Rightarrow> if pick_best v prev then v else prev)) rs"

fun fallback_loop :: "'a fleet \<Rightarrow> nat list \<Rightarrow> 'a option \<times> nat list" where
  "fallback_loop answer [] = (None, [])"
| "fallback_loop answer (i # is) =
     (case fst (answer i) of
        Inr v \<Rightarrow> (Some v, [i])
      | Inl _ \<Rightarrow> (case fallback_loop answer is of (r, contacted) \<Rightarrow> (r, i # contacted)))"

definition fallback_unsynced :: "string \<Rightarrow> 'a fleet \<Rightarrow> nat list \<Rightarrow> bn_manager \<Rightarrow> 'a option \<times> bn_manager" where
  "fallback_unsynced op_name answer tried_indices m =
     (let unsynced = filter (\<lambda>i. i \<notin> set tried_indices) [0 ..< client_count m] in
      case fallback_loop answer unsynced of (r, contacted) \<Rightarrow>
        (r, record_outcomes op_name (outcomes_of op_name answer contacted) m))"

definition query_best ::
  "string \<Rightarrow> bn_role \<Rightarrow> health_tier \<Rightarrow> 'a fleet \<Rightarrow> ('a \<Rightarrow> 'a \<Rightarrow> bool) \<Rightarrow> bn_manager
     \<Rightarrow> (beacon_error + 'a) \<times> bn_manager" where
  "query_best op_name role min_tier answer pick_best m =
     (case synced_indices role min_tier op_name m of (indices, m1) \<Rightarrow>
        if indices = [] then (Inl (no_eligible_bn op_name role), m1)
        else let m2 = record_outcomes op_name (outcomes_of op_name answer indices) m1 in
        if length indices = 1
        then (case fst (answer (hd indices)) of
                Inr result \<Rightarrow> (Inr result, m2)
              | Inl e \<Rightarrow>
                  (case fallback_unsynced op_name answer indices m2 of
                     (Some v, m3) \<Rightarrow> (Inr v, m3)
                   | (None, m3) \<Rightarrow> (Inl e, m3)))
        else (case best_of pick_best None (map (fst \<circ> answer) indices) of
                Some value \<Rightarrow> (Inr value, m2)
              | None \<Rightarrow>
                  (case fallback_unsynced op_name answer indices m2 of
                     (Some v, m3) \<Rightarrow> (Inr v, m3)
                   | (None, m3) \<Rightarrow> (Inl (HttpError (op_name @ '': all BNs failed in best-selection'')), m3))))"

record 'a bn_outcome =
  bo_endpoint :: string
  bo_result :: "beacon_error + 'a"
  bo_latency :: nat

definition any_success :: "'a bn_outcome list \<Rightarrow> bool" where
  "any_success outcomes \<longleftrightarrow> list_ex (\<lambda>oc. \<not> isl (bo_result oc)) outcomes"

definition all_success :: "'a bn_outcome list \<Rightarrow> bool" where
  "all_success outcomes \<longleftrightarrow> outcomes \<noteq> [] \<and> list_all (\<lambda>oc. \<not> isl (bo_result oc)) outcomes"

fun first_ok :: "'a bn_outcome list \<Rightarrow> beacon_error option \<Rightarrow> beacon_error + string \<times> 'a" where
  "first_ok [] last_err = Inl (case last_err of Some e \<Rightarrow> e | None \<Rightarrow> NoEligibleBn ''broadcast'' ''none'')"
| "first_ok (oc # rest) last_err =
     (case bo_result oc of
        Inr val \<Rightarrow> Inr (bo_endpoint oc, val)
      | Inl e \<Rightarrow> first_ok rest (Some e))"

definition into_result_attributed :: "'a bn_outcome list \<Rightarrow> beacon_error + string \<times> 'a" where
  "into_result_attributed outcomes = first_ok outcomes None"

definition into_result :: "'a bn_outcome list \<Rightarrow> beacon_error + 'a" where
  "into_result outcomes = map_sum id snd (into_result_attributed outcomes)"

definition counts :: "'a bn_outcome list \<Rightarrow> nat \<times> nat" where
  "counts outcomes =
     (let ok = length (filter (\<lambda>oc. \<not> isl (bo_result oc)) outcomes) in (ok, length outcomes - ok))"

definition broadcast_inner ::
  "string \<Rightarrow> bn_role \<Rightarrow> 'a fleet \<Rightarrow> bn_manager \<Rightarrow> 'a bn_outcome list \<times> bn_manager" where
  "broadcast_inner op_name role answer m =
     (let indices = role_matching_indices m role in
      (map (\<lambda>i. \<lparr>bo_endpoint = bm_endpoints m ! i, bo_result = fst (answer i), bo_latency = snd (answer i)\<rparr>) indices,
       record_outcomes op_name (outcomes_of op_name answer indices) m))"

definition broadcast_with_result_attributed ::
  "string \<Rightarrow> bn_role \<Rightarrow> 'a fleet \<Rightarrow> bn_manager \<Rightarrow> (beacon_error + string \<times> 'a) \<times> bn_manager" where
  "broadcast_with_result_attributed op_name role answer m =
     (case broadcast_inner op_name role answer m of (outcomes, m1) \<Rightarrow>
        (if outcomes = [] then Inl (no_eligible_bn op_name role) else into_result_attributed outcomes, m1))"

definition broadcast_with_result ::
  "string \<Rightarrow> bn_role \<Rightarrow> 'a fleet \<Rightarrow> bn_manager \<Rightarrow> (beacon_error + 'a) \<times> bn_manager" where
  "broadcast_with_result op_name role answer m =
     (case broadcast_with_result_attributed op_name role answer m of (r, m1) \<Rightarrow> (map_sum id snd r, m1))"

definition broadcast ::
  "string \<Rightarrow> bn_role \<Rightarrow> unit fleet \<Rightarrow> bn_manager \<Rightarrow> (beacon_error + unit) \<times> bn_manager" where
  "broadcast op_name role answer m =
     (case broadcast_inner op_name role answer m of (outcomes, m1) \<Rightarrow>
        (if outcomes = [] then Inl (no_eligible_bn op_name role) else into_result outcomes, m1))"

section \<open>Choosing and merging answers\<close>

definition parse_u128 :: "string \<Rightarrow> int option" where
  "parse_u128 s =
     (let body = (case s of c # r \<Rightarrow> if c = CHR ''+'' then r else s | [] \<Rightarrow> s)
      in if body = [] \<or> \<not> list_all is_digit body then None
         else if dec_value_int body < 2 ^ 128 then Some (dec_value_int body) else None)"

text \<open>The model of a block response is its \<open>execution_payload_value\<close> header.\<close>

definition payload_value :: "string option \<Rightarrow> int" where
  "payload_value v =
     (case v of None \<Rightarrow> 0 | Some s \<Rightarrow> (case parse_u128 s of Some n \<Rightarrow> n | None \<Rightarrow> 0))"

definition is_better_block :: "string option \<Rightarrow> string option \<Rightarrow> bool" where
  "is_better_block a b \<longleftrightarrow> payload_value a > payload_value b"

record validator_liveness =
  vl_index :: string
  vl_is_live :: bool

text \<open>The map of the merge with the order of first appearance, as one association list.\<close>

definition merge_entry :: "(string \<times> bool) list \<Rightarrow> validator_liveness \<Rightarrow> (string \<times> bool) list" where
  "merge_entry acc entry =
     (case map_of acc (vl_index entry) of
        Some live \<Rightarrow> AList.update (vl_index entry) (live \<or> vl_is_live entry) acc
      | None \<Rightarrow> acc @ [(vl_index entry, vl_is_live entry)])"

definition ok_entries :: "'a list bn_outcome list \<Rightarrow> 'a list" where
  "ok_entries outcomes =
     concat (map (\<lambda>oc. case bo_result oc of Inr data \<Rightarrow> data | Inl _ \<Rightarrow> []) outcomes)"

definition merge_liveness_broadcast ::
  "validator_liveness list bn_outcome list \<Rightarrow> beacon_error + validator_liveness list" where
  "merge_liveness_broadcast outcomes =
     (if \<not> any_success outcomes then into_result outcomes
      else Inr (map (\<lambda>(index, is_live). \<lparr>vl_index = index, vl_is_live = is_live\<rparr>)
        (foldl merge_entry [] (ok_entries outcomes))))"

definition post_validator_liveness_merged ::
  "validator_liveness list fleet \<Rightarrow> bn_manager \<Rightarrow> (beacon_error + validator_liveness list) \<times> bn_manager" where
  "post_validator_liveness_merged answer m =
     (let op_name = ''post_validator_liveness_merged'' in
      case broadcast_inner op_name RoleAll answer m of (outcomes, m1) \<Rightarrow>
        (if outcomes = [] then Inl (no_eligible_bn op_name RoleAll) else merge_liveness_broadcast outcomes, m1))"

datatype submit_builder_preferences_result =
    SubmitSuccess
  | PartialFailure "(nat \<times> string) list"

definition merge_failure :: "(nat \<times> string) list \<Rightarrow> nat \<times> string \<Rightarrow> (nat \<times> string) list" where
  "merge_failure by_index f = (if map_of by_index (fst f) = None then by_index @ [f] else by_index)"

fun partial_failures :: "submit_builder_preferences_result \<Rightarrow> (nat \<times> string) list" where
  "partial_failures SubmitSuccess = []"
| "partial_failures (PartialFailure failures) = failures"

definition merge_builder_preferences_broadcast ::
  "submit_builder_preferences_result bn_outcome list \<Rightarrow> beacon_error + submit_builder_preferences_result" where
  "merge_builder_preferences_broadcast outcomes =
     (if \<not> any_success outcomes then into_result outcomes
      else let by_index = foldl merge_failure []
             (concat (map (\<lambda>oc. case bo_result oc of Inr r \<Rightarrow> partial_failures r | Inl _ \<Rightarrow> []) outcomes))
      in if by_index = [] then Inr SubmitSuccess else Inr (PartialFailure (sort_key fst by_index)))"

section \<open>Submissions\<close>

text \<open>
  \<open>with_op_timeout\<close> around a broadcast, which records outcomes only after its last answer: when it
  takes longer than the timeout the whole future is dropped and nothing is recorded.
\<close>

definition with_op_timeout ::
  "string \<Rightarrow> nat option \<Rightarrow> nat \<Rightarrow> (bn_manager \<Rightarrow> (beacon_error + 'a) \<times> bn_manager)
     \<Rightarrow> bn_manager \<Rightarrow> (beacon_error + 'a) \<times> bn_manager" where
  "with_op_timeout op_name timeout took f m =
     (case timeout of
        Some d \<Rightarrow> if took \<le> d then f m else (Inl (OperationTimeout op_name d), m)
      | None \<Rightarrow> f m)"

definition submit ::
  "string \<Rightarrow> bool \<Rightarrow> bn_role \<Rightarrow> health_tier \<Rightarrow> nat option \<Rightarrow> nat \<Rightarrow> nat \<Rightarrow> 'a fleet \<Rightarrow> (nat \<Rightarrow> 'a attempt)
     \<Rightarrow> bn_manager \<Rightarrow> (beacon_error + 'a) \<times> bn_manager" where
  "submit op_name topic_enabled role min_tier timeout now took answer env m =
     (if topic_enabled
      then with_op_timeout op_name timeout took (broadcast_with_result op_name role answer) m
      else case query_first op_name role min_tier (map_option (\<lambda>budget. now + budget) timeout) env m of
        (r, _, m1) \<Rightarrow> (r, m1))"

section \<open>Selection is sound\<close>

definition wf_manager :: "bn_manager \<Rightarrow> bool" where
  "wf_manager m \<longleftrightarrow> length (bm_sync_statuses m) = client_count m
     \<and> length (bm_health_trackers m) = client_count m \<and> length (bm_roles m) = client_count m"

lemma new_manager_wf: "new_manager parse_url new_client endpoints topics roles th = Inr m \<Longrightarrow> wf_manager m \<and> bm_endpoints m \<noteq> []"
  by (auto simp: new_manager_def wf_manager_def split: if_splits option.splits)

text \<open>A node with the role \<open>All\<close> matches every role, so the second list is empty with the first.\<close>

lemma role_matching_indices_eq:
  "role_matching_indices m role = filter (\<lambda>i. role_matches (bm_roles m ! i) role) [0 ..< client_count m]"
  by (auto simp: role_matching_indices_def role_matches_def Let_def filter_empty_conv)

lemma set_sort_indices [simp]: "set (sort_indices_by_health ts xs) = set xs"
  by (simp add: sort_indices_by_health_def)

lemma distinct_sort_indices [simp]: "distinct (sort_indices_by_health ts xs) = distinct xs"
  by (simp add: sort_indices_by_health_def)

lemma sort_indices_order:
  "distinct xs \<Longrightarrow> sorted_wrt (\<lambda>i j. score (ts ! j) < score (ts ! i) \<or> score (ts ! j) = score (ts ! i) \<and> i < j)
     (sort_indices_by_health ts xs)"
proof -
  let ?f = "\<lambda>i. (- score (ts ! i), i)"
  let ?ys = "sort_indices_by_health ts xs"
  assume "distinct xs"
  have "sorted (map ?f ?ys)" by (simp add: sort_indices_by_health_def)
  then have "sorted_wrt (\<lambda>i j. ?f i \<le> ?f j) ?ys" by (simp add: sorted_map)
  moreover have "distinct ?ys" using \<open>distinct xs\<close> by simp
  ultimately have "sorted_wrt (\<lambda>i j. ?f i \<le> ?f j \<and> i \<noteq> j) ?ys"
    by (auto simp: sorted_wrt_iff_nth_less distinct_conv_nth)
  then show ?thesis by (rule sorted_wrt_mono_rel [rotated]) (auto simp: less_eq_prod_def)
qed

lemma role_pool_props:
  assumes "bm_endpoints m \<noteq> []"
  shows "role_pool m role \<noteq> []" "distinct (role_pool m role)"
    and "i \<in> set (role_pool m role) \<Longrightarrow> i < client_count m"
    and "\<lbrakk>i \<in> set (role_pool m role); j < client_count m; role_matches (bm_roles m ! j) role\<rbrakk>
      \<Longrightarrow> role_matches (bm_roles m ! i) role"
  using assms by (auto simp: role_pool_def role_matching_indices_eq Let_def filter_empty_conv split: if_splits)

lemma relax_tier_props:
  assumes "sorted ts"
  shows "distinct xs \<Longrightarrow> distinct (relax_tier f xs ts)"
    and "i \<in> set (relax_tier f xs ts) \<Longrightarrow> i \<in> set xs"
    and "\<lbrakk>i \<in> set (relax_tier f xs (t # ts)); j \<in> set xs; sorted (t # ts); set (t # ts) = {u. t \<le> u}\<rbrakk>
      \<Longrightarrow> f i \<le> max t (f j)"
    and "\<lbrakk>j \<in> set xs; f j \<le> u; u \<in> set ts\<rbrakk> \<Longrightarrow> relax_tier f xs ts \<noteq> []"
proof -
  show "distinct xs \<Longrightarrow> distinct (relax_tier f xs ts)" "i \<in> set (relax_tier f xs ts) \<Longrightarrow> i \<in> set xs"
    by (induction ts) (auto simp: Let_def split: if_splits)
  show "\<lbrakk>j \<in> set xs; f j \<le> u; u \<in> set ts\<rbrakk> \<Longrightarrow> relax_tier f xs ts \<noteq> []"
    by (induction ts) (auto simp: Let_def filter_empty_conv)
next
  have reached: "\<lbrakk>i \<in> set (relax_tier f xs us); j \<in> set xs; sorted us; u \<in> set us; f j \<le> u\<rbrakk> \<Longrightarrow> f i \<le> u" for us u
    by (induction us) (auto simp: Let_def filter_empty_conv split: if_splits)
  assume "i \<in> set (relax_tier f xs (t # ts))" "j \<in> set xs" "sorted (t # ts)" "set (t # ts) = {u. t \<le> u}"
  then show "f i \<le> max t (f j)" using reached [of "t # ts" "max t (f j)"] by simp
qed

lemma fallback_tiers_props: "sorted (t # fallback_tiers t) \<and> set (t # fallback_tiers t) = {u. t \<le> u}"
proof -
  have "u \<in> set (t # fallback_tiers t) \<longleftrightarrow> t \<le> u" for u
    by (cases t; cases u) (simp_all add: fallback_tiers_def less_eq_health_tier_def as_metric_value_def)
  moreover have "sorted (t # fallback_tiers t)"
    by (cases t) (simp_all add: fallback_tiers_def less_eq_health_tier_def as_metric_value_def)
  ultimately show ?thesis by blast
qed

lemma tier_filtered_props:
  assumes "bm_endpoints m \<noteq> []"
  shows "tier_filtered m role t \<noteq> []" "distinct (tier_filtered m role t)"
    and "i \<in> set (tier_filtered m role t) \<Longrightarrow> i \<in> set (role_pool m role)"
    and "\<lbrakk>i \<in> set (tier_filtered m role t); j \<in> set (role_pool m role)\<rbrakk> \<Longrightarrow> tier_of m i \<le> max t (tier_of m j)"
proof -
  let ?kept = "relax_tier (tier_of m) (role_pool m role) (t # fallback_tiers t)"
  have top: "u \<le> TierUnsynced" for u
    by (cases u) (simp_all add: less_eq_health_tier_def as_metric_value_def)
  obtain k where k: "k \<in> set (role_pool m role)" using role_pool_props(1) [OF assms] by (cases "role_pool m role") auto
  have ne: "?kept \<noteq> []"
    using relax_tier_props(4) [OF _ k, of "t # fallback_tiers t" "tier_of m" TierUnsynced] fallback_tiers_props [of t] top by auto
  then have eq: "tier_filtered m role t = ?kept" by (simp add: tier_filtered_def Let_def)
  show "tier_filtered m role t \<noteq> []" using eq ne by simp
  show "distinct (tier_filtered m role t)"
    unfolding eq using relax_tier_props(1) fallback_tiers_props role_pool_props(2) [OF assms] by blast
  show "i \<in> set (tier_filtered m role t) \<Longrightarrow> i \<in> set (role_pool m role)"
    unfolding eq using relax_tier_props(2) fallback_tiers_props by blast
  show "\<lbrakk>i \<in> set (tier_filtered m role t); j \<in> set (role_pool m role)\<rbrakk> \<Longrightarrow> tier_of m i \<le> max t (tier_of m j)"
    unfolding eq using relax_tier_props(3) fallback_tiers_props [of t] by (metis sorted_simps(2))
qed

text \<open>Consuming a skip touches the skip counters only.\<close>

lemma consume_reprobe_skip_frame:
  "consume_reprobe_skip op t = (skip, t') \<Longrightarrow> \<exists>sk. t' = t\<lparr>ht_reprobe_skips := sk\<rparr>"
  by (auto simp: consume_reprobe_skip_def split: if_splits option.splits intro: exI [of _ "ht_reprobe_skips t"])

lemma skip_capability_frame:
  "skip_capability t op = (skip, t') \<Longrightarrow> \<exists>sk. t' = t\<lparr>ht_reprobe_skips := sk\<rparr>"
  by (auto simp: skip_capability_def split: prod.splits if_splits dest!: consume_reprobe_skip_frame)

lemma tracker_skips_simps [simp]:
  "score (t\<lparr>ht_reprobe_skips := sk\<rparr>) = score t"
  "is_healthy (t\<lparr>ht_reprobe_skips := sk\<rparr>) = is_healthy t"
  "capable_of (t\<lparr>ht_reprobe_skips := sk\<rparr>) op = capable_of t op"
  by (simp_all add: score_def error_rate_def is_healthy_def capable_of_def is_capable_def)

definition after_scan :: "string \<Rightarrow> nat list \<Rightarrow> bn_manager \<Rightarrow> nat \<Rightarrow> bn_health_tracker" where
  "after_scan op indices m j =
     (if j \<in> set indices \<and> \<not> capable_of (tracker_at m j) op then snd (skip_capability (tracker_at m j) op)
      else tracker_at m j)"

lemma reprobe_scan_run:
  "\<lbrakk>reprobe_scan op indices m = (rs, m1); distinct indices; \<forall>i\<in>set indices. i < length (bm_health_trackers m)\<rbrakk>
   \<Longrightarrow> rs = filter (\<lambda>i. \<not> capable_of (tracker_at m i) op \<and> \<not> fst (skip_capability (tracker_at m i) op)) indices
     \<and> m1 = m\<lparr>bm_health_trackers := map (after_scan op indices m) [0 ..< length (bm_health_trackers m)]\<rparr>"
proof (induction op indices m arbitrary: rs m1 rule: reprobe_scan.induct)
  case (1 op m)
  then show ?case by (simp add: after_scan_def map_nth)
next
  case (2 op i "is" m)
  show ?case
  proof (cases "capable_of (tracker_at m i) op")
    case True
    moreover have "after_scan op (i # is) m = after_scan op is m" using True by (auto simp: after_scan_def)
    ultimately show ?thesis using 2 by simp
  next
    case False
    obtain skip t where st: "skip_capability (tracker_at m i) op = (skip, t)" by (cases "skip_capability (tracker_at m i) op")
    obtain rest m2 where rest: "reprobe_scan op is (set_tracker i t m) = (rest, m2)" by (cases "reprobe_scan op is (set_tracker i t m)")
    have len: "length (bm_health_trackers (set_tracker i t m)) = length (bm_health_trackers m)" by (simp add: set_tracker_def)
    have other: "tracker_at (set_tracker i t m) j = tracker_at m j" if "j \<in> set is" for j
      using that "2.prems"(2) by (cases "j = i") (auto simp: set_tracker_def)
    have ih: "rest = filter (\<lambda>j. \<not> capable_of (tracker_at (set_tracker i t m) j) op
          \<and> \<not> fst (skip_capability (tracker_at (set_tracker i t m) j) op)) is"
      "m2 = (set_tracker i t m)\<lparr>bm_health_trackers :=
         map (after_scan op is (set_tracker i t m)) [0 ..< length (bm_health_trackers m)]\<rparr>"
      using "2.IH"(2) [OF False st [symmetric] rest] "2.prems" len by auto
    have "after_scan op is (set_tracker i t m) j = after_scan op (i # is) m j" if "j < length (bm_health_trackers m)" for j
      using that "2.prems" False st other by (cases "j = i") (auto simp: after_scan_def set_tracker_def)
    then have "m2 = m\<lparr>bm_health_trackers := map (after_scan op (i # is) m) [0 ..< length (bm_health_trackers m)]\<rparr>"
      using ih(2) by (simp add: set_tracker_def)
    moreover have "rest = filter (\<lambda>j. \<not> capable_of (tracker_at m j) op \<and> \<not> fst (skip_capability (tracker_at m j) op)) is"
      unfolding ih(1) by (rule filter_cong) (auto simp: other)
    ultimately show ?thesis using "2.prems"(1) False st rest by auto
  qed
qed

lemma after_scan_frame [simp]:
  "score (after_scan op indices m j) = score (tracker_at m j)"
  "is_healthy (after_scan op indices m j) = is_healthy (tracker_at m j)"
  "capable_of (after_scan op indices m j) op' = capable_of (tracker_at m j) op'"
  using skip_capability_frame [of "tracker_at m j" op] by (auto simp: after_scan_def prod_eq_iff split_beta)

definition selects_before :: "bn_manager \<Rightarrow> string \<Rightarrow> nat \<Rightarrow> nat \<Rightarrow> bool" where
  "selects_before m op i j \<longleftrightarrow>
     (if capable_of (tracker_at m i) op = capable_of (tracker_at m j) op
      then score (tracker_at m j) < score (tracker_at m i) \<or> score (tracker_at m j) = score (tracker_at m i) \<and> i < j
      else capable_of (tracker_at m j) op)"

lemma sort_indices_before:
  assumes "distinct xs" and "\<And>i j. \<lbrakk>i \<in> set xs; j \<in> set xs\<rbrakk> \<Longrightarrow> capable_of (tracker_at m i) op = capable_of (tracker_at m j) op"
  shows "sorted_wrt (selects_before m op) (sort_indices_by_health (bm_health_trackers m) xs)"
  using sort_indices_order [OF assms(1), of "bm_health_trackers m"]
  by (rule sorted_wrt_mono_rel [rotated]) (auto simp: selects_before_def dest: assms(2))

lemma healthy_or_all_props:
  "set (healthy_or_all m xs) \<subseteq> set xs" "distinct xs \<Longrightarrow> distinct (healthy_or_all m xs)" "healthy_or_all m xs = [] \<longleftrightarrow> xs = []"
  by (auto simp: healthy_or_all_def Let_def)

lemma synced_indices_cases:
  assumes "wf_manager m" "bm_endpoints m \<noteq> []" "synced_indices role t op m = (indices, m1)"
  defines "pool \<equiv> tier_filtered m role t"
  defines "flagged \<equiv> filter (\<lambda>i. \<not> capable_of (tracker_at m i) op \<and> \<not> fst (skip_capability (tracker_at m i) op)) pool"
  obtains (all) "\<forall>i\<in>set pool. \<not> capable_of (tracker_at m i) op" "m1 = m"
      "indices = sort_indices_by_health (bm_health_trackers m) (healthy_or_all m pool)"
    | (mixed) "\<exists>i\<in>set pool. capable_of (tracker_at m i) op"
      "m1 = m\<lparr>bm_health_trackers := map (after_scan op pool m) [0 ..< client_count m]\<rparr>"
      "indices = sort_indices_by_health (bm_health_trackers m) flagged
         @ sort_indices_by_health (bm_health_trackers m) (healthy_or_all m (filter (\<lambda>i. capable_of (tracker_at m i) op) pool))"
proof (cases "filter (\<lambda>i. capable_of (tracker_at m i) op) pool = []")
  case True
  then show ?thesis using assms(3) by (intro all) (auto simp: synced_indices_def pool_def filter_empty_conv Let_def)
next
  case False
  obtain rs m2 where rs: "reprobe_scan op pool m = (rs, m2)" by (cases "reprobe_scan op pool m")
  have "\<forall>i\<in>set pool. i < length (bm_health_trackers m)"
    using assms(1) role_pool_props(3) [OF assms(2) tier_filtered_props(3) [OF assms(2)]]
    by (simp add: pool_def wf_manager_def)
  from reprobe_scan_run [OF rs _ this]
  have "rs = flagged" "m2 = m\<lparr>bm_health_trackers := map (after_scan op pool m) [0 ..< client_count m]\<rparr>"
    using assms(1) tier_filtered_props(2) [OF assms(2)] by (auto simp: pool_def flagged_def wf_manager_def)
  moreover have "indices = sort_indices_by_health (bm_health_trackers m) rs
       @ sort_indices_by_health (bm_health_trackers m) (healthy_or_all m (filter (\<lambda>i. capable_of (tracker_at m i) op) pool))"
    "m1 = m2"
    using assms(3) False rs by (simp_all add: synced_indices_def Let_def flip: pool_def)
  moreover have "\<exists>i\<in>set pool. capable_of (tracker_at m i) op" using False by (auto simp: filter_empty_conv)
  ultimately show ?thesis by (intro mixed) simp_all
qed

lemma synced_indices_sound:
  assumes "wf_manager m" "bm_endpoints m \<noteq> []" "synced_indices role min_tier op_name m = (indices, m1)"
  shows "indices \<noteq> [] \<and> distinct indices \<and> set indices \<subseteq> {..< client_count m}
    \<and> ((\<exists>j < client_count m. role_matches (bm_roles m ! j) role) \<longrightarrow> (\<forall>i \<in> set indices. role_matches (bm_roles m ! i) role))
    \<and> (\<forall>i \<in> set indices. \<forall>j \<in> set (role_pool m role). tier_of m i \<le> max min_tier (tier_of m j))
    \<and> sorted_wrt (selects_before m op_name) indices
    \<and> wf_manager m1 \<and> (\<exists>ts. m1 = m\<lparr>bm_health_trackers := ts\<rparr> \<and> map score ts = map score (bm_health_trackers m)
        \<and> map (\<lambda>t. capable_of t op_name) ts = map (\<lambda>t. capable_of t op_name) (bm_health_trackers m))"
proof -
  note pool = tier_filtered_props [OF assms(2), where role = role and t = min_tier]
  have len: "length (bm_health_trackers m) = client_count m" using assms(1) by (simp add: wf_manager_def)
  from synced_indices_cases [OF assms]
  have main: "indices \<noteq> [] \<and> distinct indices \<and> set indices \<subseteq> set (tier_filtered m role min_tier)
    \<and> sorted_wrt (selects_before m op_name) indices"
  proof cases
    case 1
    with healthy_or_all_props [where m = m and xs = "tier_filtered m role min_tier"] pool(1,2)
    show ?thesis by (auto intro!: sort_indices_before simp: set_empty [symmetric] simp del: set_empty)
  next
    case 2
    let ?pool = "tier_filtered m role min_tier"
    let ?capable = "filter (\<lambda>i. capable_of (tracker_at m i) op_name) ?pool"
    have "?capable \<noteq> []" using 2(1) by (auto simp: filter_empty_conv)
    moreover have "distinct ?capable" using pool(2) by simp
    ultimately show ?thesis
      using healthy_or_all_props [where m = m and xs = ?capable] pool(2) 2(3)
      by (auto simp: sorted_wrt_append selects_before_def set_empty [symmetric] simp del: set_empty intro!: sort_indices_before)
  qed
  have m1: "m1 = m \<or> m1 = m\<lparr>bm_health_trackers := map (after_scan op_name (tier_filtered m role min_tier) m) [0 ..< client_count m]\<rparr>"
    using synced_indices_cases [OF assms] by metis
  then have "wf_manager m1 \<and> (\<exists>ts. m1 = m\<lparr>bm_health_trackers := ts\<rparr> \<and> map score ts = map score (bm_health_trackers m)
        \<and> map (\<lambda>t. capable_of t op_name) ts = map (\<lambda>t. capable_of t op_name) (bm_health_trackers m))"
  proof
    assume "m1 = m" then show ?thesis using assms(1) by (auto intro!: exI [of _ "bm_health_trackers m"])
  next
    assume "m1 = m\<lparr>bm_health_trackers := map (after_scan op_name (tier_filtered m role min_tier) m) [0 ..< client_count m]\<rparr>"
    then show ?thesis
      using assms(1) len by (auto simp: wf_manager_def intro!: nth_equalityI exI)
  qed
  then show ?thesis using main pool role_pool_props [OF assms(2), where role = role] by blast
qed

text \<open>
  What a selection may do to a tracker: take one from the skip counters of the operation it selects for
  (the fork's counter too when it is block production), and nothing else; no outcome, latency,
  capability flag or counter of another operation changes.
\<close>

definition skip_ops :: "string \<Rightarrow> string set" where
  "skip_ops op = (if op = PRODUCE_BLOCK_V4 then {op, FORK_RECOGNISED} else {op})"

definition skips_only :: "string set \<Rightarrow> bn_health_tracker \<Rightarrow> bn_health_tracker \<Rightarrow> bool" where
  "skips_only ops t t' \<longleftrightarrow> t' = t\<lparr>ht_reprobe_skips := ht_reprobe_skips t'\<rparr>
     \<and> (\<forall>op. map_of (ht_reprobe_skips t') op = map_of (ht_reprobe_skips t) op
          \<or> op \<in> ops \<and> (\<exists>n. map_of (ht_reprobe_skips t) op = Some (Suc n) \<and> map_of (ht_reprobe_skips t') op = Some n))"

lemma skips_only_refl: "skips_only ops t t"
  by (simp add: skips_only_def)

lemma consume_skips_only: "skips_only {op} t (snd (consume_reprobe_skip op t))"
  by (auto simp: skips_only_def consume_reprobe_skip_def update_conv' gr0_conv_Suc split: option.splits)

lemma skips_only_trans:
  assumes "skips_only A t u" "skips_only B u v" "A \<inter> B = {}"
  shows "skips_only (A \<union> B) t v"
proof -
  have "u = t\<lparr>ht_reprobe_skips := ht_reprobe_skips u\<rparr>" "v = u\<lparr>ht_reprobe_skips := ht_reprobe_skips v\<rparr>"
    using assms(1,2) by (simp_all add: skips_only_def)
  then have "v = t\<lparr>ht_reprobe_skips := ht_reprobe_skips v\<rparr>" by (cases t; cases u; cases v) simp
  moreover have "map_of (ht_reprobe_skips v) op = map_of (ht_reprobe_skips t) op \<or> op \<in> A \<union> B
      \<and> (\<exists>n. map_of (ht_reprobe_skips t) op = Some (Suc n) \<and> map_of (ht_reprobe_skips v) op = Some n)" for op
    using assms unfolding skips_only_def by (metis UnI1 UnI2 disjoint_iff)
  ultimately show ?thesis unfolding skips_only_def by blast
qed

lemma skip_capability_skips_only: "skips_only (skip_ops op) t (snd (skip_capability t op))"
proof (cases "op = PRODUCE_BLOCK_V4")
  case True
  have "{op} \<inter> {FORK_RECOGNISED} = {}" using True by (simp add: PRODUCE_BLOCK_V4_def FORK_RECOGNISED_def)
  from skips_only_trans [OF consume_skips_only consume_skips_only this] show ?thesis
    using True by (simp add: skip_capability_def skip_ops_def split_beta insert_commute)
next
  case False
  then show ?thesis using consume_skips_only [of op t] by (simp add: skip_capability_def skip_ops_def split_beta)
qed

lemma synced_indices_frame:
  assumes "wf_manager m" "bm_endpoints m \<noteq> []" "synced_indices role min_tier op_name m = (indices, m1)"
  shows "\<exists>ts. m1 = m\<lparr>bm_health_trackers := ts\<rparr> \<and> list_all2 (skips_only (skip_ops op_name)) (bm_health_trackers m) ts"
  using synced_indices_cases [OF assms]
proof cases
  case 1
  then show ?thesis by (auto intro!: exI [of _ "bm_health_trackers m"] list_all2_refl skips_only_refl)
next
  case 2
  have "skips_only (skip_ops op_name) (tracker_at m j) (after_scan op_name (tier_filtered m role min_tier) m j)" for j
    by (simp add: after_scan_def skips_only_refl skip_capability_skips_only)
  then show ?thesis using 2(2) assms(1) by (auto simp: list_all2_conv_all_nth wf_manager_def)
qed

text \<open>
  C24: a query asks the right nodes in the right order. For every operation with at least one
  configured node, the selection is never empty and names each node at most once; if any node has
  the role, all selected nodes have it; no selected node is in a worse tier than both the tier asked
  for and the best tier available among the nodes of the role; flagged nodes whose turn it is to be
  probed come first, and inside each group the higher score comes first, the lower index on a tie.
  The only thing a selection changes is that it may take one from a node's skip counters of the
  operation it selects for (for block production also from that of the fork).
\<close>

theorem selection_is_sound:
  assumes "wf_manager m" "bm_endpoints m \<noteq> []" "synced_indices role min_tier op_name m = (indices, m1)"
  shows "indices \<noteq> [] \<and> distinct indices \<and> set indices \<subseteq> {..< client_count m}
    \<and> ((\<exists>j < client_count m. role_matches (bm_roles m ! j) role) \<longrightarrow> (\<forall>i \<in> set indices. role_matches (bm_roles m ! i) role))
    \<and> (\<forall>i \<in> set indices. \<forall>j \<in> set (role_pool m role). tier_of m i \<le> max min_tier (tier_of m j))
    \<and> sorted_wrt (selects_before m op_name) indices
    \<and> wf_manager m1
    \<and> (\<exists>ts. m1 = m\<lparr>bm_health_trackers := ts\<rparr> \<and> list_all2 (skips_only (skip_ops op_name)) (bm_health_trackers m) ts)"
  using synced_indices_sound [OF assms] synced_indices_frame [OF assms] by blast

definition synced_detail :: "u64 \<Rightarrow> bn_sync_detail" where
  "synced_detail distance = unknown_detail\<lparr>sd_status := StatusSynced, sd_sync_distance := Some distance\<rparr>"

definition three_nodes :: bn_manager where
  "three_nodes =
     \<lparr>bm_endpoints = [''http://a'', ''http://b'', ''http://c''],
      bm_sync_statuses = [synced_detail 1, synced_detail 3, synced_detail 20],
      bm_health_trackers =
        [mark_incapable PRODUCE_BLOCK_V4 (new_tracker ''http://a''), record_success 5 (new_tracker ''http://b''), new_tracker ''http://c''],
      bm_broadcast_topics = \<lparr>bt_attestations = True, bt_blocks = True, bt_sync_committee = True, bt_subscriptions = True\<rparr>,
      bm_roles = [{RoleProposal}, {RoleAll}, {RoleAttestation}],
      bm_tier_thresholds = default_thresholds\<rparr>"

theorem selection_is_sound_witness:
  "wf_manager three_nodes \<and> bm_endpoints three_nodes \<noteq> []
   \<and> fst (synced_indices RoleProposal TierSynced PRODUCE_BLOCK_V4 three_nodes) = [1]
   \<and> fst (synced_indices RoleAttestation TierSynced ''get_attestation_data'' three_nodes) = [1]
   \<and> sorted_wrt (selects_before three_nodes ''get_genesis'') (fst (synced_indices RoleAttestation TierUnsynced ''get_genesis'' three_nodes))
   \<and> (\<exists>ts. snd (synced_indices RoleProposal TierSynced PRODUCE_BLOCK_V4 three_nodes) = three_nodes\<lparr>bm_health_trackers := ts\<rparr>
        \<and> list_all2 (skips_only (skip_ops PRODUCE_BLOCK_V4)) (bm_health_trackers three_nodes) ts)"
proof -
  have ok: "wf_manager three_nodes" "bm_endpoints three_nodes \<noteq> []"
    by (simp_all add: wf_manager_def three_nodes_def)
  moreover have "fst (synced_indices RoleProposal TierSynced PRODUCE_BLOCK_V4 three_nodes) = [1]"
    "fst (synced_indices RoleAttestation TierSynced ''get_attestation_data'' three_nodes) = [1]"
    by code_simp+
  moreover note selection_is_sound [OF ok prod.collapse [symmetric], of RoleAttestation TierUnsynced "''get_genesis''"]
    selection_is_sound [OF ok prod.collapse [symmetric], of RoleProposal TierSynced PRODUCE_BLOCK_V4]
  ultimately show ?thesis by blast
qed

section \<open>Flagged nodes are probed again\<close>

definition tracker_skips_ok :: "bn_health_tracker \<Rightarrow> bool" where
  "tracker_skips_ok t \<longleftrightarrow> list_all (\<lambda>(_, n). n \<le> CAPABILITY_REPROBE_SKIP) (ht_reprobe_skips t)
     \<and> distinct (map fst (ht_reprobe_skips t))"

definition skips_ok :: "bn_manager \<Rightarrow> bool" where
  "skips_ok m \<longleftrightarrow> list_all tracker_skips_ok (bm_health_trackers m)"

lemma list_all_alist_update:
  "\<lbrakk>list_all P xs; P (k, v)\<rbrakk> \<Longrightarrow> list_all P (AList.update k v xs)"
  by (induction xs) auto

lemma tracker_skips_marks [simp]:
  "tracker_skips_ok t \<Longrightarrow> tracker_skips_ok (mark_incapable op t)"
  "tracker_skips_ok t \<Longrightarrow> tracker_skips_ok (mark_capable op t)"
  "tracker_skips_ok (record_success latency t) = tracker_skips_ok t"
  "tracker_skips_ok (record_error t) = tracker_skips_ok t"
proof -
  show "tracker_skips_ok t \<Longrightarrow> tracker_skips_ok (mark_incapable op t)"
    by (simp add: tracker_skips_ok_def mark_incapable_def distinct_update list_all_alist_update)
  show "tracker_skips_ok t \<Longrightarrow> tracker_skips_ok (mark_capable op t)"
    by (auto simp: tracker_skips_ok_def mark_capable_def AList.delete_eq list.pred_set distinct_map_filter)
qed (simp_all add: tracker_skips_ok_def record_success_def record_error_def push_outcome_def update_latency_ema_def)

lemma tracker_skips_apply: "tracker_skips_ok t \<Longrightarrow> tracker_skips_ok (apply_outcome op outcome t)"
  by (simp add: apply_outcome_def Let_def split: tracker_outcome.splits)

lemma record_outcomes_frame:
  "wf_manager m \<Longrightarrow> wf_manager (record_outcomes op outcomes m)
     \<and> (\<exists>ts. record_outcomes op outcomes m = m\<lparr>bm_health_trackers := ts\<rparr> \<and> length ts = length (bm_health_trackers m))"
proof (induction op outcomes m rule: record_outcomes.induct)
  case (2 op idx outcome rest m)
  let ?m = "set_tracker idx (apply_outcome op outcome (tracker_at m idx)) m"
  have "wf_manager ?m" using 2(2) by (simp add: set_tracker_def wf_manager_def)
  from 2(1) [OF this] show ?case by (auto simp: set_tracker_def)
qed (auto intro!: exI [of _ "bm_health_trackers m" for m])

lemma record_outcomes_endpoints [simp]: "bm_endpoints (record_outcomes op outcomes m) = bm_endpoints m"
  by (induction op outcomes m rule: record_outcomes.induct) (simp_all add: set_tracker_def)

lemma record_outcomes_skips:
  "\<lbrakk>skips_ok m; \<forall>(i, _) \<in> set outcomes. i < length (bm_health_trackers m)\<rbrakk> \<Longrightarrow> skips_ok (record_outcomes op outcomes m)"
proof (induction op outcomes m rule: record_outcomes.induct)
  case (2 op idx outcome rest m)
  have "tracker_skips_ok (tracker_at m idx)" using 2 by (auto simp: skips_ok_def list_all_length)
  then have "skips_ok (set_tracker idx (apply_outcome op outcome (tracker_at m idx)) m)"
    using 2(2,3) by (auto simp: skips_ok_def set_tracker_def list_all_length nth_list_update tracker_skips_apply)
  then show ?case using 2 by (simp add: set_tracker_def)
qed simp

lemma consume_again:
  assumes "consume_reprobe_skip op t = (skip, t1)" "tracker_skips_ok t"
  shows "consume_reprobe_skip op t1 = (False, t1)" "tracker_skips_ok t1"
    "op' \<noteq> op \<Longrightarrow> map_of (ht_reprobe_skips t1) op' = map_of (ht_reprobe_skips t) op'"
    "ht_incapable t1 = ht_incapable t"
proof -
  have "n \<le> 1" if "map_of (ht_reprobe_skips t) op = Some n" for n
    using assms(2) map_of_SomeD [OF that] by (auto simp: tracker_skips_ok_def CAPABILITY_REPROBE_SKIP_def list.pred_set)
  then show "consume_reprobe_skip op t1 = (False, t1)"
    using assms(1) by (fastforce simp: consume_reprobe_skip_def update_conv' split: if_splits option.splits)
  show "tracker_skips_ok t1"
    using assms \<open>\<And>n. map_of (ht_reprobe_skips t) op = Some n \<Longrightarrow> n \<le> 1\<close>
    by (auto simp: consume_reprobe_skip_def tracker_skips_ok_def distinct_update CAPABILITY_REPROBE_SKIP_def
        intro!: list_all_alist_update split: if_splits option.splits)
  show "op' \<noteq> op \<Longrightarrow> map_of (ht_reprobe_skips t1) op' = map_of (ht_reprobe_skips t) op'" "ht_incapable t1 = ht_incapable t"
    using assms(1) by (auto simp: consume_reprobe_skip_def update_conv' split: if_splits option.splits)
qed

lemma consume_cong:
  "\<lbrakk>map_of (ht_reprobe_skips t) op = map_of (ht_reprobe_skips u) op; ht_incapable t = ht_incapable u;
    consume_reprobe_skip op u = (False, u)\<rbrakk> \<Longrightarrow> consume_reprobe_skip op t = (False, t)"
  by (auto simp: consume_reprobe_skip_def split: if_splits option.splits)

text \<open>One selection uses up every skip a flagged node has for the operation.\<close>

lemma skip_once:
  assumes "skip_capability t op = (skip, t1)" "tracker_skips_ok t"
  shows "skip_capability t1 op = (False, t1)"
proof -
  obtain s1 u where u: "consume_reprobe_skip op t = (s1, u)" by (cases "consume_reprobe_skip op t")
  note one = consume_again [OF u assms(2)]
  show ?thesis
  proof (cases "op = PRODUCE_BLOCK_V4")
    case False
    with assms(1) u one show ?thesis by (simp add: skip_capability_def)
  next
    case True
    have ne: "PRODUCE_BLOCK_V4 \<noteq> FORK_RECOGNISED" by (simp add: PRODUCE_BLOCK_V4_def FORK_RECOGNISED_def)
    obtain s2 v where v: "consume_reprobe_skip FORK_RECOGNISED u = (s2, v)" by (cases "consume_reprobe_skip FORK_RECOGNISED u")
    note two = consume_again [OF v one(2)]
    have "consume_reprobe_skip op v = (False, v)"
      by (rule consume_cong [OF two(3) two(4) one(1)]) (use True ne in simp)
    then show ?thesis using assms(1) u v two True by (simp add: skip_capability_def)
  qed
qed

lemma skip_capability_ok: "tracker_skips_ok t \<Longrightarrow> tracker_skips_ok (snd (skip_capability t op))"
  using consume_again(2) by (auto simp: skip_capability_def split: prod.splits)

lemma tier_filtered_trackers: "tier_filtered (m\<lparr>bm_health_trackers := ts\<rparr>) role t = tier_filtered m role t"
proof -
  have "role_pool (m\<lparr>bm_health_trackers := ts\<rparr>) role = role_pool m role"
    by (simp add: role_pool_def role_matching_indices_eq Let_def)
  moreover have "tier_of (m\<lparr>bm_health_trackers := ts\<rparr>) = tier_of m" by (simp add: fun_eq_iff tier_of_def)
  ultimately show ?thesis by (simp only: tier_filtered_def)
qed

text \<open>
  C25: a node flagged as unable to serve an operation is not forgotten. When a capable peer serves
  the operation, a flagged node is left out of at most one selection: if the first selection leaves
  it out, the next one asks it before any capable peer. The skip counters stay within their bound.
\<close>

theorem flagged_node_is_probed_again:
  assumes "wf_manager m" "bm_endpoints m \<noteq> []" "skips_ok m"
    and "i \<in> set (tier_filtered m role min_tier)" "\<not> capable_of (tracker_at m i) op_name"
    and "j \<in> set (tier_filtered m role min_tier)" "capable_of (tracker_at m j) op_name"
    and "synced_indices role min_tier op_name m = (first, m1)" "synced_indices role min_tier op_name m1 = (second, m2)"
  shows "skips_ok m1 \<and> (i \<in> set first \<or> i \<in> set second) \<and> sorted_wrt (selects_before m1 op_name) second"
proof -
  let ?pool = "tier_filtered m role min_tier"
  have len: "length (bm_health_trackers m) = client_count m" and bound: "k < client_count m" if "k \<in> set ?pool" for k
    using assms(1) role_pool_props(3) [OF assms(2) tier_filtered_props(3) [OF assms(2) that]] by (auto simp: wf_manager_def)
  from synced_indices_cases [OF assms(1,2,8)] have m1: "m1 = m\<lparr>bm_health_trackers := map (after_scan op_name ?pool m) [0 ..< client_count m]\<rparr>"
    using assms(6,7) by cases auto
  have wf1: "wf_manager m1" "bm_endpoints m1 \<noteq> []" using synced_indices_sound [OF assms(1,2,8)] by auto
  have pool1: "tier_filtered m1 role min_tier = ?pool"
    unfolding m1 by (rule tier_filtered_trackers)
  have at1: "tracker_at m1 k = after_scan op_name ?pool m k" if "k < client_count m" for k using that by (simp add: m1)
  have ok: "tracker_skips_ok (tracker_at m k)" if "k < client_count m" for k
    using assms(3) that len [OF assms(4)] by (simp add: skips_ok_def list_all_length)
  have "\<not> fst (skip_capability (tracker_at m1 i) op_name)"
    using skip_once [OF prod.collapse [symmetric] ok] bound [OF assms(4)] assms(4,5) by (simp add: at1 after_scan_def)
  moreover have "\<not> capable_of (tracker_at m1 i) op_name" "capable_of (tracker_at m1 j) op_name"
    using assms(5,7) bound [OF assms(4)] bound [OF assms(6)] by (simp_all add: at1)
  ultimately have "i \<in> set second"
    using assms(4,6) unfolding pool1 [symmetric] by (cases rule: synced_indices_cases [OF wf1 assms(9)]) simp_all
  moreover have "skips_ok m1"
    using ok len assms(4) by (auto simp: skips_ok_def m1 list_all_length after_scan_def skip_capability_ok)
  ultimately show ?thesis using synced_indices_sound [OF wf1 assms(9)] by blast
qed

theorem flagged_node_is_probed_again_witness:
  "skips_ok three_nodes \<and> fst (synced_indices RoleProposal TierSynced PRODUCE_BLOCK_V4 three_nodes) = [1]
   \<and> 0 \<in> set (fst (synced_indices RoleProposal TierSynced PRODUCE_BLOCK_V4
       (snd (synced_indices RoleProposal TierSynced PRODUCE_BLOCK_V4 three_nodes))))"
proof -
  let ?first = "synced_indices RoleProposal TierSynced PRODUCE_BLOCK_V4 three_nodes"
  have base: "wf_manager three_nodes" "bm_endpoints three_nodes \<noteq> []" by (simp_all add: wf_manager_def three_nodes_def)
  have ok: "skips_ok three_nodes" "0 \<in> set (tier_filtered three_nodes RoleProposal TierSynced)"
    "\<not> capable_of (tracker_at three_nodes 0) PRODUCE_BLOCK_V4"
    "1 \<in> set (tier_filtered three_nodes RoleProposal TierSynced)" "capable_of (tracker_at three_nodes 1) PRODUCE_BLOCK_V4"
    by code_simp+
  have "fst ?first = [1]" by code_simp
  then show ?thesis
    using ok(1) flagged_node_is_probed_again [OF base ok prod.collapse [symmetric] prod.collapse [symmetric]] by auto
qed

section \<open>Sequential strategies\<close>

lemma attempt_timeout_None [simp]: "attempt_timeout remaining n = None \<longleftrightarrow> remaining = 0"
  by (simp add: attempt_timeout_def)

lemma attempt_timeout_Some:
  assumes "attempt_timeout remaining n = Some d"
  shows "0 < d" "d \<le> remaining" "min remaining ATTEMPT_TIMEOUT_FLOOR \<le> d"
    and "\<lbrakk>0 < n; n * ATTEMPT_TIMEOUT_FLOOR \<le> remaining\<rbrakk> \<Longrightarrow> d * n \<le> remaining"
proof -
  have floor: "0 < ATTEMPT_TIMEOUT_FLOOR" by (simp add: ATTEMPT_TIMEOUT_FLOOR_def)
  have d: "0 < remaining" "d = min remaining (max (split_attempt_timeout remaining n) ATTEMPT_TIMEOUT_FLOOR)"
    using assms by (auto simp: attempt_timeout_def split: if_splits)
  then show "0 < d" "d \<le> remaining" "min remaining ATTEMPT_TIMEOUT_FLOOR \<le> d" using floor by auto
  assume n: "0 < n" "n * ATTEMPT_TIMEOUT_FLOOR \<le> remaining"
  then have "ATTEMPT_TIMEOUT_FLOOR \<le> remaining div n" by (simp add: less_eq_div_iff_mult_less_eq mult.commute)
  then have "split_attempt_timeout remaining n = remaining div n" "ATTEMPT_TIMEOUT_FLOOR \<le> remaining div n"
    using n floor by (auto simp: split_attempt_timeout_def Let_def le_Suc_eq)
  then have "d \<le> remaining div n" using d by simp
  then show "d * n \<le> remaining" using n by (simp add: less_eq_div_iff_mult_less_eq)
qed

text \<open>What attempt \<open>k\<close> of a strategy over \<open>n\<close> nodes gives; nothing when the deadline has passed.\<close>

definition first_attempt :: "string \<Rightarrow> nat option \<Rightarrow> nat \<Rightarrow> (nat \<Rightarrow> 'a attempt) \<Rightarrow> nat \<Rightarrow> (beacon_error + 'a) option" where
  "first_attempt op deadline n env k =
     (case attempt_limit op deadline (at_check (env k)) (n - k) of
        Inl _ \<Rightarrow> None
      | Inr bound \<Rightarrow> Some (await_attempt op bound (env k)))"

definition failover_attempt ::
  "(nat \<times> nat) option \<Rightarrow> nat \<Rightarrow> (nat \<Rightarrow> 'a attempt) \<Rightarrow> nat \<Rightarrow> (beacon_error + 'a) option" where
  "failover_attempt deadline n env k =
     (case failover_bound deadline (at_check (env k)) (n - k) of
        None \<Rightarrow> None
      | Some bound \<Rightarrow> Some (timed bound (\<lambda>_. BeaconTimeout) (env k)))"

text \<open>
  A sequential run from attempt \<open>t0\<close>: attempts before the last failed with an error that lets the
  strategy go on; the result is the answer of the last one, or an error after a failure that stops
  it, after the last node or at the deadline.
\<close>

definition in_turn ::
  "(nat \<Rightarrow> (beacon_error + 'a) option) \<Rightarrow> (beacon_error \<Rightarrow> bool) \<Rightarrow> nat \<Rightarrow> nat \<Rightarrow> nat \<Rightarrow> beacon_error + 'a \<Rightarrow> bool" where
  "in_turn ask go n t0 tried r \<longleftrightarrow> t0 \<le> tried \<and> tried \<le> n
     \<and> (\<forall>k. t0 \<le> k \<and> Suc k < tried \<longrightarrow> (\<exists>e. ask k = Some (Inl e) \<and> go e))
     \<and> (case r of
          Inr v \<Rightarrow> t0 < tried \<and> ask (tried - 1) = Some (Inr v)
        | Inl _ \<Rightarrow> t0 < tried \<and> (\<exists>e. ask (tried - 1) = Some (Inl e) \<and> \<not> go e)
            \<or> (t0 < tried \<longrightarrow> (\<exists>e. ask (tried - 1) = Some (Inl e) \<and> go e)) \<and> (tried = n \<or> ask tried = None))"

lemma in_turn_answer: "\<lbrakk>ask t0 = Some (Inr v); t0 < n\<rbrakk> \<Longrightarrow> in_turn ask go n t0 (Suc t0) (Inr v)"
  by (auto simp: in_turn_def)

lemma in_turn_stop: "\<lbrakk>ask t0 = Some (Inl e); \<not> go e; t0 < n\<rbrakk> \<Longrightarrow> in_turn ask go n t0 (Suc t0) (Inl e')"
  by (auto simp: in_turn_def)

lemma in_turn_end: "\<lbrakk>t0 = n \<or> ask t0 = None; t0 \<le> n\<rbrakk> \<Longrightarrow> in_turn ask go n t0 t0 (Inl e)"
  by (auto simp: in_turn_def)

lemma in_turn_step:
  assumes "ask t0 = Some (Inl e)" "go e" "in_turn ask go n (Suc t0) tried r"
  shows "in_turn ask go n t0 tried r"
proof -
  have earlier: "\<exists>e. ask k = Some (Inl e) \<and> go e" if "t0 \<le> k" "Suc k < tried" for k
    using assms that by (cases "k = t0") (auto simp: in_turn_def)
  have "tried = Suc t0 \<or> Suc t0 < tried" using assms(3) by (auto simp: in_turn_def)
  then show ?thesis using assms earlier by (auto simp: in_turn_def split: sum.splits)
qed

lemma query_first_loop_run:
  "query_first_loop op role deadline env indices t0 last_err m = (r, tried, m')
   \<Longrightarrow> in_turn (first_attempt op deadline (t0 + length indices) env) (\<lambda>_. True) (t0 + length indices) t0 tried (map_sum id snd r)
     \<and> (\<forall>ep v. r = Inr (ep, v) \<longrightarrow> ep = bm_endpoints m ! (indices ! (tried - 1 - t0)))"
proof (induction op role deadline env indices t0 last_err m rule: query_first_loop.induct)
  case (1 op role deadline env tried last_err m)
  then show ?case by (auto intro!: in_turn_end)
next
  case (2 op role deadline env i "is" t0 last_err m)
  let ?at = "first_attempt op deadline (t0 + length (i # is)) env"
  show ?case
  proof (cases "attempt_limit op deadline (at_check (env t0)) (length (i # is))")
    case (Inl e)
    then have "?at t0 = None" by (simp add: first_attempt_def)
    then show ?thesis using "2.prems" Inl by (auto intro!: in_turn_end)
  next
    case (Inr bound)
    then have at: "?at t0 = Some (await_attempt op bound (env t0))" by (simp add: first_attempt_def)
    show ?thesis
    proof (cases "await_attempt op bound (env t0)")
      case v: (Inr v)
      then show ?thesis using "2.prems" Inr at by (auto intro!: in_turn_answer)
    next
      case (Inl e)
      let ?m = "record_outcomes op [(i, error_outcome op e)] m"
      have run: "query_first_loop op role deadline env is (t0 + 1) (Some e) ?m = (r, tried, m')"
        using "2.prems" Inr Inl by simp
      have ep: "bm_endpoints ?m = bm_endpoints m" by (simp add: set_tracker_def)
      from "2.IH" [OF Inr Inl run, unfolded ep]
      have ih: "in_turn ?at (\<lambda>_. True) (t0 + length (i # is)) (Suc t0) tried (map_sum id snd r)"
        "\<forall>ep v. r = Inr (ep, v) \<longrightarrow> ep = bm_endpoints m ! (is ! (tried - 1 - Suc t0))" by (simp_all add: id_def)
      have "Suc t0 < tried" if "r = Inr x" for x using ih(1) that by (auto simp: in_turn_def)
      then have "\<forall>ep v. r = Inr (ep, v) \<longrightarrow> ep = bm_endpoints m ! ((i # is) ! (tried - 1 - t0))"
        using ih(2) by (auto simp: nth_Cons' Suc_diff_Suc)
      then show ?thesis using in_turn_step [OF _ _ ih(1)] at Inl by (simp add: id_def)
    qed
  qed
qed

lemma query_failover_loop_run:
  "query_failover_loop op role deadline env indices t0 failures incapables last_err m = (r, tried, m')
   \<Longrightarrow> in_turn (failover_attempt deadline (t0 + length indices) env) is_production_failover_error (t0 + length indices) t0 tried r"
proof (induction op role deadline env indices t0 failures incapables last_err m rule: query_failover_loop.induct)
  case (1 op role deadline env tried failures incapables last_err m)
  then show ?case by (auto intro!: in_turn_end)
next
  case (2 op role deadline env i "is" t0 failures incapables last_err m)
  let ?at = "failover_attempt deadline (t0 + length (i # is)) env"
  show ?case
  proof (cases "failover_bound deadline (at_check (env t0)) (length (i # is))")
    case None
    then have "?at t0 = None" by (simp add: failover_attempt_def)
    then show ?thesis using "2.prems" None by (auto intro!: in_turn_end)
  next
    case (Some bound)
    then have at: "?at t0 = Some (timed bound (\<lambda>_. BeaconTimeout) (env t0))" by (simp add: failover_attempt_def)
    show ?thesis
    proof (cases "timed bound (\<lambda>_. BeaconTimeout) (env t0)")
      case (Inr v)
      then have "r = Inr v" "tried = Suc t0" using "2.prems" Some by simp_all
      then show ?thesis using at Inr by (simp add: in_turn_answer)
    next
      case (Inl e)
      show ?thesis
      proof (cases "is_production_failover_error e")
        case True
        have "in_turn ?at is_production_failover_error (t0 + length (i # is)) (Suc t0) tried r"
          using "2.IH" [OF Some Inl refl refl refl True] "2.prems" Some Inl True by (simp add: Let_def)
        then show ?thesis using in_turn_step at Inl True by metis
      next
        case False
        then show ?thesis using "2.prems" Some Inl at by (auto simp: Let_def intro!: in_turn_stop)
      qed
    qed
  qed
qed

lemma first_attempt_in_time:
  assumes "first_attempt op (Some end_at) n env k = Some r"
  shows "\<exists>d > 0. at_check (env k) + d \<le> end_at
    \<and> r = (if at_delay (env k) \<le> d then at_answer (env k) else Inl (OperationTimeout op d))"
proof -
  obtain d where d: "attempt_timeout (end_at - at_check (env k)) (n - k) = Some d"
    "r = (if at_delay (env k) \<le> d then at_answer (env k) else Inl (OperationTimeout op d))"
    using assms by (auto simp: first_attempt_def attempt_limit_def await_attempt_def timed_def split: option.splits)
  with attempt_timeout_Some(1,2) [OF d(1)] show ?thesis by (intro exI [of _ d]) auto
qed

lemma in_turn_asked: "\<lbrakk>in_turn ask go n 0 tried r; k < tried\<rbrakk> \<Longrightarrow> ask k \<noteq> None"
  by (cases "Suc k < tried") (fastforce simp: in_turn_def not_less_eq less_Suc_eq split: sum.splits)+

text \<open>
  C26: a read asks the selected nodes one after another. Every contacted node but the last one failed;
  the result is the answer of the last contacted node, with its endpoint; an error comes back only
  when every selected node has been asked or the deadline has passed. With a deadline, no attempt
  starts after it and each one is cut off before it.
\<close>

theorem query_first_asks_in_turn:
  assumes "wf_manager m" "bm_endpoints m \<noteq> []"
    and "synced_indices role min_tier op_name m = (indices, m1)"
    and "query_first_inner op_name role min_tier deadline env m = (r, tried, m')"
  shows "in_turn (first_attempt op_name deadline (length indices) env) (\<lambda>_. True) (length indices) 0 tried (map_sum id snd r)
    \<and> (\<forall>ep v. r = Inr (ep, v) \<longrightarrow> ep = bm_endpoints m ! (indices ! (tried - 1)))
    \<and> (\<forall>end_at k. deadline = Some end_at \<and> k < tried \<longrightarrow>
         (\<exists>d > 0. at_check (env k) + d \<le> end_at \<and> first_attempt op_name deadline (length indices) env k
            = Some (if at_delay (env k) \<le> d then at_answer (env k) else Inl (OperationTimeout op_name d))))"
proof -
  note sel = synced_indices_sound [OF assms(1-3)]
  from assms(3,4) sel have "query_first_loop op_name role deadline env indices 0 None m1 = (r, tried, m')"
    by (simp add: query_first_inner_def)
  from query_first_loop_run [OF this] sel
  have run: "in_turn (first_attempt op_name deadline (length indices) env) (\<lambda>_. True) (length indices) 0 tried (map_sum id snd r)"
    "\<forall>ep v. r = Inr (ep, v) \<longrightarrow> ep = bm_endpoints m ! (indices ! (tried - 1))" by (auto simp: id_def)
  then show ?thesis using in_turn_asked [OF run(1)] first_attempt_in_time by fast
qed

text \<open>Answers half a second apart, the first one late.\<close>

definition scripted :: "nat \<Rightarrow> string attempt" where
  "scripted k =
     \<lparr>at_check = 500000000 * k, at_delay = (if k = 0 then 600000000 else 1000),
      at_answer = (if k = 0 then Inr ''late'' else Inr ''data''), at_recheck = 500000000 * k + 500000000\<rparr>"

lemma three_nodes_ok: "wf_manager three_nodes" "bm_endpoints three_nodes \<noteq> []"
  "fst (synced_indices RoleProposal TierSynced ''get_attestation_data'' three_nodes) = [1, 0]"
proof -
  show "fst (synced_indices RoleProposal TierSynced ''get_attestation_data'' three_nodes) = [1, 0]" by code_simp
qed (simp_all add: wf_manager_def three_nodes_def)

lemma attempt_examples:
  "attempt_timeout 1000000000 (Suc (Suc 0)) = Some 500000000" "attempt_timeout 500000000 (Suc 0) = Some 500000000"
  by (simp_all add: attempt_timeout_def split_attempt_timeout_def ATTEMPT_TIMEOUT_FLOOR_def Let_def flip: numeral_2_eq_2)

theorem query_first_asks_in_turn_witness:
  "\<exists>m'. query_first_inner ''get_attestation_data'' RoleProposal TierSynced (Some 1000000000) scripted three_nodes
       = (Inr (''http://a'', ''data''), 2, m')
     \<and> in_turn (first_attempt ''get_attestation_data'' (Some 1000000000) 2 scripted) (\<lambda>_. True) 2 0 2 (Inr ''data'')"
proof -
  obtain m1 where sel: "synced_indices RoleProposal TierSynced ''get_attestation_data'' three_nodes = ([1, 0], m1)"
    using three_nodes_ok(3) by (metis prod.collapse)
  have "bm_endpoints m1 = [''http://a'', ''http://b'', ''http://c'']"
    using synced_indices_sound [OF three_nodes_ok(1,2) sel] by (auto simp: three_nodes_def)
  then obtain m' where run: "query_first_inner ''get_attestation_data'' RoleProposal TierSynced (Some 1000000000) scripted three_nodes
      = (Inr (''http://a'', ''data''), 2, m')"
    by (simp add: query_first_inner_def sel attempt_limit_def attempt_examples await_attempt_def timed_def scripted_def
        set_tracker_def)
  from query_first_asks_in_turn [OF three_nodes_ok(1,2) sel run] run show ?thesis by (simp add: numeral_2_eq_2)
qed

text \<open>
  C27: block production never asks a second node after an answer that may have been acted on. Production
  contacts each selected node at most once and one at a time; it goes on to the next only after a
  connection failure, a timeout, a 5xx or a missing endpoint, and it returns exactly the answer of the
  last node it contacted. Without an answer it ends with an error.
\<close>

theorem production_failover_is_safe:
  assumes "wf_manager m" "bm_endpoints m \<noteq> []"
    and "synced_indices role min_tier op_name m = (indices, m1)"
    and "query_failover op_name role min_tier budget now env m = (r, tried, m')"
  defines "ask \<equiv> failover_attempt (map_option (\<lambda>d. (now + d, d)) budget) (length indices) env"
  shows "tried \<le> length indices \<and> distinct (take tried indices)
    \<and> (\<forall>k. Suc k < tried \<longrightarrow> (\<exists>e. ask k = Some (Inl e) \<and> is_production_failover_error e))
    \<and> (\<forall>v. r = Inr v \<longleftrightarrow> 0 < tried \<and> ask (tried - 1) = Some (Inr v))
    \<and> (isl r \<and> tried < length indices \<longrightarrow>
         ask tried = None \<or> 0 < tried \<and> (\<exists>e. ask (tried - 1) = Some (Inl e) \<and> \<not> is_production_failover_error e))"
proof -
  note sel = synced_indices_sound [OF assms(1-3)]
  from assms(3,4) sel
  have "query_failover_loop op_name role (map_option (\<lambda>d. (now + d, d)) budget) env indices 0 0 0 None m1 = (r, tried, m')"
    by (simp add: query_failover_def)
  from query_failover_loop_run [OF this] sel
  have "in_turn ask is_production_failover_error (length indices) 0 tried r" "distinct indices" by (auto simp: ask_def)
  then show ?thesis by (auto simp: in_turn_def split: sum.splits)
qed

theorem production_failover_is_safe_witness:
  "\<exists>m'. query_failover ''get_attestation_data'' RoleProposal TierSynced (Some 1000000000) 0 scripted three_nodes
       = (Inr ''data'', 2, m')
     \<and> (\<exists>e. failover_attempt (Some (1000000000, 1000000000)) 2 scripted 0 = Some (Inl e) \<and> is_production_failover_error e)"
proof -
  obtain m1 where sel: "synced_indices RoleProposal TierSynced ''get_attestation_data'' three_nodes = ([1, 0], m1)"
    using three_nodes_ok(3) by (metis prod.collapse)
  obtain m' where run: "query_failover ''get_attestation_data'' RoleProposal TierSynced (Some 1000000000) 0 scripted three_nodes
      = (Inr ''data'', 2, m')"
    by (simp add: query_failover_def sel failover_bound_def attempt_examples timed_def scripted_def
        set_tracker_def is_production_failover_error_def Let_def)
  from production_failover_is_safe [OF three_nodes_ok(1,2) sel run] run show ?thesis by (simp add: numeral_2_eq_2)
qed

section \<open>No data is an answer only of all\<close>

fun last_failure :: "beacon_error option \<Rightarrow> (beacon_error + 'a) list \<Rightarrow> beacon_error option" where
  "last_failure last_err [] = last_err"
| "last_failure last_err (Inl e # rs) = last_failure (Some e) rs"
| "last_failure last_err (Inr _ # rs) = last_failure last_err rs"

definition no_data_run :: "(beacon_error + 'a option) list \<Rightarrow> bool \<Rightarrow> beacon_error option \<Rightarrow> bool" where
  "no_data_run rs saw_none last_err \<longleftrightarrow> (\<forall>v. Inr (Some v) \<notin> set rs) \<and> (saw_none \<or> Inr None \<in> set rs)
     \<and> (case last_failure last_err rs of Some e \<Rightarrow> \<not> is_operation_timeout e | None \<Rightarrow> True)"

lemma no_data_run_Cons:
  "no_data_run rs True last_err \<Longrightarrow> no_data_run (Inr None # rs) saw_none last_err"
  "no_data_run rs saw_none (Some e) \<Longrightarrow> no_data_run (Inl e # rs) saw_none last_err"
  by (auto simp: no_data_run_def)

lemma prefer_some_loop_run:
  "prefer_some_loop op role deadline env indices t0 saw_none last_err m = (r, tried, m')
   \<Longrightarrow> (r = Inr None \<longrightarrow> tried = t0 + length indices
       \<and> (\<exists>rs. map (first_attempt op deadline (t0 + length indices) env) [t0 ..< t0 + length indices] = map Some rs
            \<and> no_data_run rs saw_none last_err))
     \<and> (\<forall>v. r = Inr (Some v) \<longrightarrow> t0 < tried \<and> tried \<le> t0 + length indices
         \<and> first_attempt op deadline (t0 + length indices) env (tried - 1) = Some (Inr (Some v)))"
proof (induction op role deadline env indices t0 saw_none last_err m rule: prefer_some_loop.induct)
  case (1 op role deadline env tried saw_none last_err m)
  then show ?case by (auto simp: prefer_some_end_def no_data_run_def split: option.splits if_splits)
next
  case (2 op role deadline env i "is" t0 saw_none last_err m)
  let ?n = "t0 + length (i # is)"
  let ?at = "first_attempt op deadline ?n env"
  have upt: "[t0 ..< ?n] = t0 # [Suc t0 ..< Suc t0 + length is]" by (simp add: upt_conv_Cons del: upt_Suc)
  show ?case
  proof (cases "attempt_limit op deadline (at_check (env t0)) (length (i # is))")
    case (Inl e)
    then show ?thesis using "2.prems" by auto
  next
    case (Inr bound)
    then have at: "?at t0 = Some (await_attempt op bound (env t0))" by (simp add: first_attempt_def)
    consider (data) v where "await_attempt op bound (env t0) = Inr (Some v)" | (none) "await_attempt op bound (env t0) = Inr None"
      | (err) e where "await_attempt op bound (env t0) = Inl e"
      by (cases "await_attempt op bound (env t0)") auto
    then show ?thesis
    proof cases
      case data
      then show ?thesis using "2.prems" Inr at by auto
    next
      case none
      have "prefer_some_loop op role deadline env is (t0 + 1) True last_err m = (r, tried, m')"
        using "2.prems" Inr none by simp
      from "2.IH"(2) [OF Inr none refl this] show ?thesis
        unfolding upt using at none by (auto simp del: upt_Suc intro!: exI [of _ "Inr None # rs" for rs] no_data_run_Cons)
    next
      case err
      let ?m1 = "record_outcomes op [(i, error_outcome op e)] m"
      let ?again = "if is_operation_timeout e then attempt_limit op deadline (at_recheck (env t0)) (length is) else Inr None"
      show ?thesis
      proof (cases "isl r")
        case True
        then show ?thesis by auto
      next
        case False
        then obtain x where r: "r = Inr x" by (cases r) auto
        have more: "\<not> (is_operation_timeout e \<and> is = [])"
          using "2.prems" Inr err unfolding r by (auto simp: Let_def)
        obtain b where again: "?again = Inr b"
          using "2.prems" Inr err more unfolding r by (cases ?again) (auto simp: Let_def)
        have "prefer_some_loop op role deadline env is (t0 + 1) saw_none (Some e) ?m1 = (r, tried, m')"
          using "2.prems" Inr err more again by (auto simp: Let_def)
        from "2.IH"(1) [OF Inr err refl more again this] show ?thesis
          unfolding upt using at err by (auto simp del: upt_Suc intro!: exI [of _ "Inl e # rs" for rs] no_data_run_Cons)
      qed
    qed
  qed
qed

text \<open>
  C28: no data is an answer of the whole cluster. A query that prefers data returns no data only when
  every selected node was asked, none had data and at least one said so, and then the last node
  that failed did not hang; data it returns is what the last contacted node answered.
\<close>

theorem no_data_needs_every_node:
  assumes "wf_manager m" "bm_endpoints m \<noteq> []"
    and "synced_indices role min_tier op_name m = (indices, m1)"
    and "query_first_prefer_some op_name role min_tier deadline env m = (r, tried, m')"
  shows "(r = Inr None \<longrightarrow> tried = length indices
      \<and> (\<exists>rs. map (first_attempt op_name deadline (length indices) env) [0 ..< length indices] = map Some rs
           \<and> (\<forall>v. Inr (Some v) \<notin> set rs) \<and> Inr None \<in> set rs
           \<and> (\<forall>e. last_failure None rs = Some e \<longrightarrow> \<not> is_operation_timeout e)))
    \<and> (\<forall>v. r = Inr (Some v) \<longrightarrow> 0 < tried \<and> tried \<le> length indices
         \<and> first_attempt op_name deadline (length indices) env (tried - 1) = Some (Inr (Some v)))"
proof -
  from assms(3,4) synced_indices_sound [OF assms(1-3)]
  have "prefer_some_loop op_name role deadline env indices 0 False None m1 = (r, tried, m')"
    by (simp add: query_first_prefer_some_def)
  from prefer_some_loop_run [OF this] show ?thesis by (auto simp: no_data_run_def split: option.splits)
qed

text \<open>
  A cluster in which the first node has no data, the second one hangs until its time is up, and the
  third one fails: the hang is not reported.
\<close>

definition three_peers :: bn_manager where
  "three_peers = three_nodes\<lparr>bm_sync_statuses := replicate 3 (synced_detail 0), bm_roles := replicate 3 {RoleAll},
     bm_health_trackers := map new_tracker (bm_endpoints three_nodes)\<rparr>"

definition hidden_hang :: "nat \<Rightarrow> string option attempt" where
  "hidden_hang k =
     \<lparr>at_check = 100000000 * k, at_delay = (if k = 1 then 9000000000 else 1000),
      at_answer = (if k = 0 then Inr None else if k = 1 then Inr (Some ''late'') else Inl (ApiError 500 ''boom'')),
      at_recheck = 500000000\<rparr>"

lemma three_peers_ok: "wf_manager three_peers" "bm_endpoints three_peers \<noteq> []"
  "fst (synced_indices RoleAttestation TierSynced ''get_block'' three_peers) = [0, 1, 2]"
proof -
  show "fst (synced_indices RoleAttestation TierSynced ''get_block'' three_peers) = [0, 1, 2]" by code_simp
qed (simp_all add: wf_manager_def three_peers_def three_nodes_def)

theorem no_data_needs_every_node_witness:
  "\<exists>m'. query_first_prefer_some ''get_block'' RoleAttestation TierSynced (Some 1000000000) hidden_hang three_peers = (Inr None, 3, m')
     \<and> first_attempt ''get_block'' (Some 1000000000) 3 hidden_hang 1 = Some (Inl (OperationTimeout ''get_block'' 450000000))
     \<and> (\<exists>rs. map (first_attempt ''get_block'' (Some 1000000000) 3 hidden_hang) [0 ..< 3] = map Some rs \<and> Inr None \<in> set rs)"
proof -
  obtain m1 where sel: "synced_indices RoleAttestation TierSynced ''get_block'' three_peers = ([0, 1, 2], m1)"
    using three_peers_ok(3) by (metis prod.collapse)
  have time: "attempt_timeout 1000000000 (Suc (Suc (Suc 0))) = Some 333333333"
    "attempt_timeout 900000000 (Suc (Suc 0)) = Some 450000000" "attempt_timeout 500000000 (Suc 0) = Some 500000000"
    "attempt_timeout 800000000 (Suc 0) = Some 800000000"
    by (simp_all add: attempt_timeout_def split_attempt_timeout_def ATTEMPT_TIMEOUT_FLOOR_def Let_def
        flip: numeral_2_eq_2 numeral_3_eq_3)
  obtain m' where run: "query_first_prefer_some ''get_block'' RoleAttestation TierSynced (Some 1000000000) hidden_hang three_peers = (Inr None, 3, m')"
    by (simp add: query_first_prefer_some_def sel attempt_limit_def time await_attempt_def timed_def hidden_hang_def
        prefer_some_end_def Let_def)
  have "first_attempt ''get_block'' (Some 1000000000) 3 hidden_hang 1 = Some (Inl (OperationTimeout ''get_block'' 450000000))"
    using time(2) by (simp add: first_attempt_def attempt_limit_def await_attempt_def timed_def hidden_hang_def numeral_2_eq_2)
  moreover have "length [0, 1, 2::nat] = 3" by simp
  ultimately show ?thesis using run no_data_needs_every_node [OF three_peers_ok(1,2) sel run] by metis
qed

section \<open>Parallel strategies\<close>

lemma best_of_run:
  assumes "\<And>a b. pick_best a b \<longleftrightarrow> f a > (f b :: int)"
  shows "case best_of pick_best best rs of
      Some v \<Rightarrow> (best = Some v \<or> Inr v \<in> set rs) \<and> (\<forall>w. best = Some w \<or> Inr w \<in> set rs \<longrightarrow> f w \<le> f v)
    | None \<Rightarrow> best = None \<and> (\<forall>w. Inr w \<notin> set rs)"
proof (induction rs arbitrary: best)
  case Nil
  then show ?case by (cases best) auto
next
  case (Cons r rs)
  show ?case
  proof (cases r)
    case (Inl e)
    with Cons [of best] show ?thesis by (auto split: option.splits)
  next
    case (Inr v)
    let ?b = "case best of None \<Rightarrow> v | Some prev \<Rightarrow> if pick_best v prev then v else prev"
    have "(best = Some ?b \<or> Inr ?b = r) \<and> f v \<le> f ?b \<and> (\<forall>w. best = Some w \<longrightarrow> f w \<le> f ?b)"
      using assms Inr by (auto split: option.splits)
    with Cons [of "Some ?b"] Inr show ?thesis
      by (cases "best_of pick_best (Some ?b) rs") (auto intro: order_trans)
  qed
qed

lemma fallback_loop_run:
  "case fst (fallback_loop answer indices) of
     Some v \<Rightarrow> \<exists>i \<in> set indices. fst (answer i) = Inr v
   | None \<Rightarrow> \<forall>i \<in> set indices. isl (fst (answer i))"
  by (induction answer indices rule: fallback_loop.induct) (auto split: sum.splits option.splits prod.splits)

lemma fallback_unsynced_run:
  assumes "fallback_unsynced op answer tried_indices m = (x, m')"
  shows "x = Some v \<Longrightarrow> \<exists>i < client_count m. fst (answer i) = Inr v"
    and "\<lbrakk>x = None; i < client_count m; i \<notin> set tried_indices\<rbrakk> \<Longrightarrow> isl (fst (answer i))"
  using assms fallback_loop_run [of "filter (\<lambda>i. i \<notin> set tried_indices) [0 ..< client_count m]" answer]
  by (auto simp: fallback_unsynced_def Let_def split: prod.splits option.splits)

text \<open>
  C29: the block with the highest value wins, and no node is left unasked. The block that best-of
  production returns was answered by some node and no selected node answered one with a higher
  payload value; production fails only when every configured node failed.
\<close>

theorem best_block_is_maximal:
  assumes "wf_manager m" "bm_endpoints m \<noteq> []"
    and "synced_indices role min_tier op_name m = (indices, m1)"
    and "query_best op_name role min_tier answer is_better_block m = (r, m')"
  shows "(\<forall>v. r = Inr v \<longrightarrow> (\<exists>i < client_count m. fst (answer i) = Inr v)
      \<and> (\<forall>i \<in> set indices. \<forall>w. fst (answer i) = Inr w \<longrightarrow> payload_value w \<le> payload_value v))
    \<and> (isl r \<longrightarrow> (\<forall>i < client_count m. isl (fst (answer i))))"
proof -
  note sel = synced_indices_sound [OF assms(1-3)]
  let ?m2 = "record_outcomes op_name (outcomes_of op_name answer indices) m1"
  have ep: "client_count ?m2 = client_count m" using sel by auto
  obtain x m3 where fb: "fallback_unsynced op_name answer indices ?m2 = (x, m3)" by (cases "fallback_unsynced op_name answer indices ?m2")
  note late = fallback_unsynced_run [OF fb, unfolded ep]
  have in_range: "i < client_count m" if "i \<in> set indices" for i using sel that by auto
  show ?thesis
  proof (cases "length indices = 1")
    case True
    then obtain i where i: "indices = [i]" by (metis One_nat_def length_0_conv length_Suc_conv)
    show ?thesis
    proof (cases "fst (answer i)")
      case (Inl e)
      then show ?thesis using assms(3,4) fb late i by (cases x) (auto simp: query_best_def Let_def)
    next
      case (Inr v)
      then have "r = Inr v" using assms(3,4) i by (simp add: query_best_def Let_def)
      then show ?thesis using Inr i in_range [of i] by auto
    qed
  next
    case False
    let ?best = "best_of is_better_block None (map (fst \<circ> answer) indices)"
    have eq: "(r, m') = (case ?best of Some value \<Rightarrow> (Inr value, ?m2)
        | None \<Rightarrow> (case (x, m3) of (Some v, m3) \<Rightarrow> (Inr v, m3)
            | (None, m3) \<Rightarrow> (Inl (HttpError (op_name @ '': all BNs failed in best-selection'')), m3)))"
      using assms(3,4) sel False fb by (cases ?best; cases x) (simp_all add: query_best_def Let_def)
    note best = best_of_run [of is_better_block payload_value None "map (fst \<circ> answer) indices", OF is_better_block_def]
    show ?thesis
    proof (cases ?best)
      case None
      with best have "isl (fst (answer i))" if "i \<in> set indices" for i
        using that by (cases "fst (answer i)") (auto simp: image_iff, metis)
      then show ?thesis using eq None late by (cases x) fastforce+
    next
      case (Some v)
      with best eq in_range show ?thesis by (fastforce simp: image_iff)
    qed
  qed
qed

definition block_answers :: "string option fleet" where
  "block_answers i = (if i = 0 then Inr (Some ''100'') else if i = 1 then Inr (Some ''250'') else Inl BeaconTimeout, 5)"

theorem best_block_is_maximal_witness:
  "fst (query_best ''produce_block_v3'' RoleProposal TierSynced block_answers is_better_block three_peers) = Inr (Some ''250'')
   \<and> payload_value (Some ''100'') \<le> payload_value (Some ''250'')"
proof -
  let ?sel = "synced_indices RoleProposal TierSynced ''produce_block_v3'' three_peers"
  let ?run = "query_best ''produce_block_v3'' RoleProposal TierSynced block_answers is_better_block three_peers"
  have ev: "fst ?run = Inr (Some ''250'')" "0 \<in> set (fst ?sel)" by code_simp+
  moreover have "fst (block_answers 0) = Inr (Some ''100'')" by (simp add: block_answers_def)
  ultimately show ?thesis
    using best_block_is_maximal [OF three_peers_ok(1,2),
        of RoleProposal TierSynced "''produce_block_v3''" "fst ?sel" "snd ?sel" block_answers "fst ?run" "snd ?run"]
    by (metis prod.collapse)
qed

section \<open>Broadcasts and merges\<close>

lemma first_ok_run:
  "(\<forall>ep v. first_ok outcomes last_err = Inr (ep, v) \<longrightarrow> (\<exists>oc \<in> set outcomes. bo_endpoint oc = ep \<and> bo_result oc = Inr v))
   \<and> (isl (first_ok outcomes last_err) \<longleftrightarrow> (\<forall>oc \<in> set outcomes. isl (bo_result oc)))"
  by (induction outcomes last_err rule: first_ok.induct) (auto split: sum.splits)

lemma any_success_iff: "any_success outcomes \<longleftrightarrow> (\<exists>oc \<in> set outcomes. \<not> isl (bo_result oc))"
  by (simp add: any_success_def list_ex_iff)

definition voters :: "bn_manager \<Rightarrow> bn_role \<Rightarrow> nat set" where
  "voters m role = {i. i < client_count m \<and> role_matches (bm_roles m ! i) role}"

lemma broadcast_inner_run:
  assumes "broadcast_inner op role answer m = (outcomes, m1)"
  shows "\<exists>is. set is = voters m role \<and> outcomes =
    map (\<lambda>i. \<lparr>bo_endpoint = bm_endpoints m ! i, bo_result = fst (answer i), bo_latency = snd (answer i)\<rparr>) is
    \<and> m1 = record_outcomes op (outcomes_of op answer is) m"
  using assms
  by (intro exI [of _ "role_matching_indices m role"]) (auto simp: broadcast_inner_def Let_def role_matching_indices_eq voters_def)

text \<open>
  C30: a submission reaches every node of its role and no other. The broadcast succeeds exactly when some
  node of the role accepted, naming a node that did; with no node of the role it fails and nothing
  is published and no health record changes.
\<close>

theorem broadcast_reaches_its_role:
  assumes "broadcast_with_result_attributed op_name role answer m = (r, m')"
  shows "(isl r \<longleftrightarrow> (\<forall>i \<in> voters m role. isl (fst (answer i))))
    \<and> (\<forall>ep v. r = Inr (ep, v) \<longrightarrow> (\<exists>i \<in> voters m role. bm_endpoints m ! i = ep \<and> fst (answer i) = Inr v))
    \<and> (voters m role = {} \<longrightarrow> r = Inl (no_eligible_bn op_name role) \<and> m' = m)
    \<and> (\<exists>xs. set xs = voters m role \<and> m' = record_outcomes op_name (outcomes_of op_name answer xs) m)"
proof -
  obtain outcomes where b: "broadcast_inner op_name role answer m = (outcomes, m')"
    using assms by (cases "broadcast_inner op_name role answer m") (auto simp: broadcast_with_result_attributed_def)
  obtain xs where xs: "set xs = voters m role" "outcomes =
      map (\<lambda>i. \<lparr>bo_endpoint = bm_endpoints m ! i, bo_result = fst (answer i), bo_latency = snd (answer i)\<rparr>) xs"
    "m' = record_outcomes op_name (outcomes_of op_name answer xs) m"
    using broadcast_inner_run [OF b] by blast
  show ?thesis
  proof (cases "xs = []")
    case True
    then show ?thesis using assms b xs by (auto simp: broadcast_with_result_attributed_def outcomes_of_def)
  next
    case False
    then have r: "r = first_ok outcomes None"
      using assms b xs(2) by (simp add: broadcast_with_result_attributed_def into_result_attributed_def)
    have "voters m role \<noteq> {}" using False xs(1) by auto
    with first_ok_run [of outcomes None] xs show ?thesis unfolding r xs(2) by (fastforce simp: xs(1) [symmetric])
  qed
qed

theorem broadcast_reaches_its_role_witness:
  "fst (broadcast_with_result_attributed ''submit_attestation'' RoleAttestation block_answers three_nodes) = Inr (''http://b'', Some ''250'')
   \<and> voters three_nodes RoleAttestation = {1, 2}
   \<and> (\<exists>i \<in> {1, 2}. bm_endpoints three_nodes ! i = ''http://b'' \<and> fst (block_answers i) = Inr (Some ''250''))"
proof -
  let ?run = "broadcast_with_result_attributed ''submit_attestation'' RoleAttestation block_answers three_nodes"
  have "fst ?run = Inr (''http://b'', Some ''250'')" by code_simp
  moreover have "voters three_nodes RoleAttestation = {1, 2}"
    by (auto simp: voters_def three_nodes_def role_matches_def less_Suc_eq numeral_3_eq_3)
  ultimately show ?thesis
    using broadcast_reaches_its_role [of "''submit_attestation''" RoleAttestation block_answers three_nodes "fst ?run" "snd ?run"]
    by (metis prod.collapse)
qed

text \<open>The merge keeps one entry per index, live when any entry was.\<close>

lemma merge_entry_step:
  "distinct (map fst acc) \<Longrightarrow> distinct (map fst (merge_entry acc x))"
  "map_of (merge_entry acc x) idx =
     (if idx = vl_index x then Some (map_of acc idx = Some True \<or> vl_is_live x) else map_of acc idx)"
proof -
  show "distinct (map fst acc) \<Longrightarrow> distinct (map fst (merge_entry acc x))"
    by (auto simp: merge_entry_def distinct_update map_of_eq_None_iff split: option.splits)
  show "map_of (merge_entry acc x) idx =
      (if idx = vl_index x then Some (map_of acc idx = Some True \<or> vl_is_live x) else map_of acc idx)"
    by (cases "map_of acc (vl_index x)"; cases "map_of acc idx") (auto simp: merge_entry_def update_conv' map_add_def)
qed

lemma merge_entries_run:
  "distinct (map fst (foldl merge_entry [] es)) \<and>
   map_of (foldl merge_entry [] es) idx =
     (if idx \<in> vl_index ` set es then Some (\<exists>e \<in> set es. vl_index e = idx \<and> vl_is_live e) else None)"
proof (induction es rule: rev_induct)
  case Nil
  then show ?case by simp
next
  case (snoc x xs)
  then show ?case
    by (cases "idx \<in> vl_index ` set xs") (auto simp: merge_entry_step image_iff simp del: map_of_eq_Some_iff)
qed

definition reports :: "validator_liveness list fleet \<Rightarrow> bn_manager \<Rightarrow> validator_liveness set" where
  "reports answer m = (\<Union>i \<in> voters m RoleAll. case fst (answer i) of Inr data \<Rightarrow> set data | Inl _ \<Rightarrow> {})"

lemma post_validator_liveness_merged_run:
  assumes "post_validator_liveness_merged answer m = (r, m')"
  shows "(isl r \<longleftrightarrow> (\<forall>i \<in> voters m RoleAll. isl (fst (answer i))))
    \<and> (\<forall>data. r = Inr data \<longrightarrow> distinct (map vl_index data)
         \<and> vl_index ` set data = vl_index ` reports answer m
         \<and> (\<forall>e \<in> set data. vl_is_live e \<longleftrightarrow> (\<exists>e' \<in> reports answer m. vl_index e' = vl_index e \<and> vl_is_live e')))"
proof -
  obtain outcomes where b: "broadcast_inner ''post_validator_liveness_merged'' RoleAll answer m = (outcomes, m')"
    "r = (if outcomes = [] then Inl (no_eligible_bn ''post_validator_liveness_merged'' RoleAll) else merge_liveness_broadcast outcomes)"
    using assms by (auto simp: post_validator_liveness_merged_def Let_def split: prod.splits)
  obtain xs where xs: "set xs = voters m RoleAll" "outcomes =
      map (\<lambda>i. \<lparr>bo_endpoint = bm_endpoints m ! i, bo_result = fst (answer i), bo_latency = snd (answer i)\<rparr>) xs"
    using broadcast_inner_run [OF b(1)] by blast
  have entries: "set (ok_entries outcomes) = reports answer m"
    unfolding xs(2) by (simp add: ok_entries_def reports_def xs(1) sum.case_distrib [of set] cong: sum.case_cong)
  have any: "any_success outcomes \<longleftrightarrow> (\<exists>i \<in> voters m RoleAll. \<not> isl (fst (answer i)))"
    unfolding xs(2) by (simp add: any_success_iff xs(1))
  show ?thesis
  proof (cases "any_success outcomes")
    case False
    then have "isl r"
      using b(2) first_ok_run [of outcomes None]
      by (auto simp: merge_liveness_broadcast_def into_result_def into_result_attributed_def any_success_iff isl_map_sum)
    then show ?thesis using any False by auto
  next
    case True
    then have "outcomes \<noteq> []" by (auto simp: any_success_def)
    with True b(2) have r: "r = Inr (map (\<lambda>(index, is_live). \<lparr>vl_index = index, vl_is_live = is_live\<rparr>)
        (foldl merge_entry [] (ok_entries outcomes)))" by (simp add: merge_liveness_broadcast_def)
    let ?acc = "foldl merge_entry [] (ok_entries outcomes)"
    have acc: "distinct (map fst ?acc)" "map_of ?acc idx = (if idx \<in> vl_index ` reports answer m
        then Some (\<exists>e \<in> reports answer m. vl_index e = idx \<and> vl_is_live e) else None)" for idx
      using merge_entries_run [of "ok_entries outcomes" idx] entries by auto
    have mem: "(idx, live) \<in> set ?acc \<longleftrightarrow> map_of ?acc idx = Some live" for idx live
      using acc(1) by simp
    let ?data = "map (\<lambda>(index, is_live). \<lparr>vl_index = index, vl_is_live = is_live\<rparr>) ?acc"
    have index: "map vl_index ?data = map fst ?acc" by (simp add: comp_def case_prod_beta)
    have "dom (map_of ?acc) = vl_index ` reports answer m" using acc(2) by (auto simp: dom_def simp del: map_of_eq_Some_iff)
    then have keys: "vl_index ` set ?data = vl_index ` reports answer m"
      using arg_cong [OF index, of set] by (simp add: dom_map_of_conv_image_fst image_image)
    have live: "vl_is_live e \<longleftrightarrow> (\<exists>e' \<in> reports answer m. vl_index e' = vl_index e \<and> vl_is_live e')" if "e \<in> set ?data" for e
    proof -
      from that have "map_of ?acc (vl_index e) = Some (vl_is_live e)" using mem by auto
      then show ?thesis using acc(2) [of "vl_index e"] by (simp split: if_splits del: map_of_eq_Some_iff)
    qed
    have "distinct (map vl_index ?data)" unfolding index by (rule acc(1))
    then have "\<forall>data. r = Inr data \<longrightarrow> distinct (map vl_index data) \<and> vl_index ` set data = vl_index ` reports answer m
        \<and> (\<forall>e \<in> set data. vl_is_live e \<longleftrightarrow> (\<exists>e' \<in> reports answer m. vl_index e' = vl_index e \<and> vl_is_live e'))"
      unfolding r using keys live by (simp only: sum.inject) metis
    moreover have "isl r \<longleftrightarrow> (\<forall>i \<in> voters m RoleAll. isl (fst (answer i)))"
      unfolding r using any True by (simp only: sum.disc) blast
    ultimately show ?thesis by (rule conjI [rotated])
  qed
qed

text \<open>
  C31: one node that saw the validator is enough, among those with the role \<open>All\<close>. The merged liveness answer
  fails exactly when every node with the role \<open>All\<close> failed; otherwise it has one entry for each index any of
  them reported, and the entry is live exactly when one of them reported it live. Nodes configured without
  that role are not asked, whatever they would say: the comments on the method speak of every configured
  node.
\<close>

theorem merged_liveness_is_union:
  assumes "post_validator_liveness_merged answer m = (r, m')"
  shows "(isl r \<longleftrightarrow> (\<forall>i \<in> voters m RoleAll. isl (fst (answer i))))
    \<and> (\<forall>data. r = Inr data \<longrightarrow> distinct (map vl_index data)
         \<and> vl_index ` set data = vl_index ` reports answer m
         \<and> (\<forall>e \<in> set data. vl_is_live e \<longleftrightarrow> (\<exists>e' \<in> reports answer m. vl_index e' = vl_index e \<and> vl_is_live e')))"
  by (rule post_validator_liveness_merged_run [OF assms])

definition liveness_answers :: "validator_liveness list fleet" where
  "liveness_answers i =
     (if i = 0 then Inr [\<lparr>vl_index = ''7'', vl_is_live = False\<rparr>, \<lparr>vl_index = ''9'', vl_is_live = False\<rparr>]
      else if i = 1 then Inr [\<lparr>vl_index = ''7'', vl_is_live = True\<rparr>] else Inl BeaconTimeout, 5)"

text \<open>The same fleet, whose second node serves attestations only.\<close>

definition mixed_peers :: bn_manager where
  "mixed_peers = three_peers\<lparr>bm_roles := [{RoleAll}, {RoleAttestation}, {RoleAll}]\<rparr>"

text \<open>
  With three nodes of the role \<open>All\<close> the live report of the second node wins. When that node has another
  role, its live report is lost; and when no other node answers, the call fails although that node
  would have answered.
\<close>

theorem merged_liveness_is_union_witness:
  "fst (post_validator_liveness_merged liveness_answers three_peers)
     = Inr [\<lparr>vl_index = ''7'', vl_is_live = True\<rparr>, \<lparr>vl_index = ''9'', vl_is_live = False\<rparr>]
   \<and> (\<exists>e \<in> reports liveness_answers three_peers. vl_index e = ''7'' \<and> vl_is_live e)
   \<and> fst (post_validator_liveness_merged liveness_answers mixed_peers)
     = Inr [\<lparr>vl_index = ''7'', vl_is_live = False\<rparr>, \<lparr>vl_index = ''9'', vl_is_live = False\<rparr>]
   \<and> isl (fst (post_validator_liveness_merged (\<lambda>i. if i = 0 then (Inl BeaconTimeout, 5) else liveness_answers i) mixed_peers))"
proof -
  let ?none = "\<lambda>i. if i = 0 then (Inl BeaconTimeout, 5) else liveness_answers i"
  have "fst (post_validator_liveness_merged liveness_answers three_peers)
      = Inr [\<lparr>vl_index = ''7'', vl_is_live = True\<rparr>, \<lparr>vl_index = ''9'', vl_is_live = False\<rparr>]" by code_simp
  moreover have "fst (post_validator_liveness_merged liveness_answers mixed_peers)
      = Inr [\<lparr>vl_index = ''7'', vl_is_live = False\<rparr>, \<lparr>vl_index = ''9'', vl_is_live = False\<rparr>]" by code_simp
  moreover have "voters mixed_peers RoleAll = {0, 2}"
    by (auto simp: voters_def mixed_peers_def three_peers_def three_nodes_def role_matches_def numeral_2_eq_2 less_Suc_eq)
  then have "\<forall>i \<in> voters mixed_peers RoleAll. isl (fst (?none i))" by (simp add: liveness_answers_def)
  ultimately show ?thesis
    using merged_liveness_is_union [OF prod.collapse [symmetric], of liveness_answers three_peers]
      merged_liveness_is_union [OF prod.collapse [symmetric], of ?none mixed_peers] by simp
qed

end
