(* ===== verification/Pubkey_Index.thy ===== *)
theory Pubkey_Index
  imports Canonical_Text Signer_Locks "HOL-Library.AList" "HOL-Library.List_Lexorder" "HOL-Library.Char_ord"
begin

text \<open>
  The registry of validator indices (\<open>rvc/src/pubkey_index.rs\<close>): public keys to the numeric
  indices of the beacon chain and back to the bare hex the doppelganger machine uses as its key.
  The hash maps are association lists with distinct keys; a loop over one runs in the order of
  the list, and the theorems hold for every order.
\<close>

section \<open>The registry\<close>

record pubkey_index_registry =
  pi_by_pubkey :: "(pubkey48 \<times> string) list"
  pi_by_index :: "(string \<times> string) list"

definition new_registry :: pubkey_index_registry where
  "new_registry = \<lparr>pi_by_pubkey = [], pi_by_index = []\<rparr>"

definition registry_insert ::
  "hex_codec \<Rightarrow> pubkey48 \<Rightarrow> string \<Rightarrow> pubkey_index_registry \<Rightarrow> pubkey_index_registry" where
  "registry_insert hx pubkey index r =
     (let bare = hex_encode hx pubkey;
          cleaned = (case map_of (pi_by_pubkey r) pubkey of
            Some old_index \<Rightarrow> if old_index \<noteq> index then AList.delete old_index (pi_by_index r) else pi_by_index r
          | None \<Rightarrow> pi_by_index r)
      in \<lparr>pi_by_pubkey = AList.update pubkey index (pi_by_pubkey r),
          pi_by_index = AList.update index bare cleaned\<rparr>)"

text \<open>\<open>strip_prefix\<close> twice, then the hex crate and the length.\<close>

definition parse_pubkey_bytes :: "hex_codec \<Rightarrow> string \<Rightarrow> pubkey48 option" where
  "parse_pubkey_bytes hx s =
     (let hex_str = (case strip_prefix_str ''0x'' s of Some r \<Rightarrow> r
         | None \<Rightarrow> (case strip_prefix_str ''0X'' s of Some r \<Rightarrow> r | None \<Rightarrow> s))
      in case hex_decode hx hex_str of
           Inl _ \<Rightarrow> None
         | Inr bytes \<Rightarrow> if length bytes \<noteq> 48 then None else Some bytes)"

definition pubkey_bytes_to_0x :: "hex_codec \<Rightarrow> pubkey48 \<Rightarrow> string" where
  "pubkey_bytes_to_0x hx bytes = ''0x'' @ hex_encode hx bytes"

definition insert_hex ::
  "hex_codec \<Rightarrow> string \<Rightarrow> string \<Rightarrow> pubkey_index_registry \<Rightarrow> bool \<times> pubkey_index_registry" where
  "insert_hex hx pubkey_hex index r =
     (case parse_pubkey_bytes hx pubkey_hex of
        Some bytes \<Rightarrow> (True, registry_insert hx bytes index r)
      | None \<Rightarrow> (False, r))"

definition index_of :: "pubkey_index_registry \<Rightarrow> pubkey48 \<Rightarrow> string option" where
  "index_of r pubkey = map_of (pi_by_pubkey r) pubkey"

definition bare_hex_of_index :: "pubkey_index_registry \<Rightarrow> string \<Rightarrow> string option" where
  "bare_hex_of_index r index = map_of (pi_by_index r) index"

definition registry_indices :: "pubkey_index_registry \<Rightarrow> string list" where
  "registry_indices r = map fst (pi_by_index r)"

definition registry_len :: "pubkey_index_registry \<Rightarrow> nat" where
  "registry_len r = length (pi_by_pubkey r)"

definition merge_hex_map ::
  "hex_codec \<Rightarrow> (string \<times> string) list \<Rightarrow> pubkey_index_registry \<Rightarrow> pubkey_index_registry" where
  "merge_hex_map hx pubkey_to_index r = foldl (\<lambda>r (pubkey, index). snd (insert_hex hx pubkey index r)) r pubkey_to_index"

definition merge_bytes_map ::
  "hex_codec \<Rightarrow> (pubkey48 \<times> string) list \<Rightarrow> pubkey_index_registry \<Rightarrow> pubkey_index_registry" where
  "merge_bytes_map hx pubkey_to_index r = foldl (\<lambda>r (pubkey, index). registry_insert hx pubkey index r) r pubkey_to_index"

definition extend_from ::
  "hex_codec \<Rightarrow> pubkey_index_registry \<Rightarrow> pubkey_index_registry \<Rightarrow> pubkey_index_registry" where
  "extend_from hx other r = merge_bytes_map hx (pi_by_pubkey other) r"

text \<open>The duty indices: the loaded keys that have an index, sorted, each once.\<close>

definition source_indices :: "pubkey48 list \<Rightarrow> pubkey_index_registry \<Rightarrow> string list" where
  "source_indices loaded r = remdups_adj (sort (List.map_filter (index_of r) loaded))"

section \<open>The contract\<close>

text \<open>
  What the clients of the registry rely on: a lookup after an insert, and a reverse lookup that is
  the inverse of the forward one as long as no two keys were given one index.
\<close>

locale index_registry =
  fixes empty_reg :: 'r
    and put :: "'k \<Rightarrow> 'i \<Rightarrow> 'r \<Rightarrow> 'r"
    and forward :: "'r \<Rightarrow> 'k \<Rightarrow> 'i option"
    and backward :: "'r \<Rightarrow> 'i \<Rightarrow> 'n option"
    and name_of :: "'k \<Rightarrow> 'n"
  assumes forward_empty: "forward empty_reg k = None"
    and backward_empty: "backward empty_reg i = None"
    and forward_put: "forward (put k i r) k' = (if k' = k then Some i else forward r k')"
    and backward_put: "backward (put k i r) i' =
      (if i' = i then Some (name_of k) else if forward r k = Some i' then None else backward r i')"
begin

definition put_all :: "('k \<times> 'i) list \<Rightarrow> 'r \<Rightarrow> 'r" where
  "put_all xs r = foldl (\<lambda>r (k, i). put k i r) r xs"

lemma put_all_snoc: "put_all (xs @ [(k, i)]) r = put k i (put_all xs r)"
  by (simp add: put_all_def)

lemma forward_put_all: "forward (put_all xs empty_reg) = map_of (rev xs)"
proof (induction xs rule: rev_induct)
  case Nil
  then show ?case by (auto simp: put_all_def forward_empty)
next
  case (snoc x xs)
  then show ?case by (cases x) (auto simp: put_all_snoc forward_put fun_eq_iff)
qed

text \<open>Indices are never shared: the reverse lookup is the inverse.\<close>

lemma backward_put_all:
  assumes "\<And>k k' i. \<lbrakk>(k, i) \<in> set xs; (k', i) \<in> set xs\<rbrakk> \<Longrightarrow> k = k'"
  shows "backward (put_all xs empty_reg) i = Some n \<longleftrightarrow> (\<exists>k. map_of (rev xs) k = Some i \<and> name_of k = n)"
  using assms
proof (induction xs arbitrary: i n rule: rev_induct)
  case Nil
  then show ?case by (simp add: put_all_def backward_empty)
next
  case (snoc x xs)
  obtain k j where x: "x = (k, j)" by (cases x)
  let ?r = "put_all xs empty_reg"
  have ih: "backward ?r i = Some n \<longleftrightarrow> (\<exists>k. map_of (rev xs) k = Some i \<and> name_of k = n)" for i n
    by (rule snoc.IH) (rule snoc.prems, auto)
  have other: "k' = k" if "map_of (rev xs) k' = Some j" for k'
    using snoc.prems [of k' j k] map_of_SomeD [OF that] by (auto simp: x)
  have same: "k' = k" if "map_of (rev xs) k' = Some i'" "map_of (rev xs) k = Some i'" for k' i'
    using snoc.prems [of k' i' k] map_of_SomeD [OF that(1)] map_of_SomeD [OF that(2)] by auto
  have now: "(\<exists>k'. map_of (rev (xs @ [x])) k' = Some i \<and> name_of k' = n)
      \<longleftrightarrow> i = j \<and> name_of k = n \<or> (\<exists>k'. k' \<noteq> k \<and> map_of (rev xs) k' = Some i \<and> name_of k' = n)"
    by (auto simp: x)
  consider "i = j" | "i \<noteq> j" "map_of (rev xs) k = Some i" | "i \<noteq> j" "map_of (rev xs) k \<noteq> Some i" by blast
  then show ?case
  proof cases
    case 1
    then have "\<not> (\<exists>k'. k' \<noteq> k \<and> map_of (rev xs) k' = Some i \<and> name_of k' = n)" using other by blast
    with 1 show ?thesis unfolding now by (simp add: x put_all_snoc backward_put) blast
  next
    case 2
    then have "\<not> (\<exists>k'. k' \<noteq> k \<and> map_of (rev xs) k' = Some i \<and> name_of k' = n)" using same by blast
    with 2 show ?thesis unfolding now by (simp add: x put_all_snoc backward_put forward_put_all)
  next
    case 3
    then have "(\<exists>k'. k' \<noteq> k \<and> map_of (rev xs) k' = Some i \<and> name_of k' = n)
        \<longleftrightarrow> (\<exists>k'. map_of (rev xs) k' = Some i \<and> name_of k' = n)" by metis
    with 3 ih [of i n] show ?thesis unfolding now by (simp add: x put_all_snoc backward_put forward_put_all)
  qed
qed

end

lemma registry_by_pubkey: "pi_by_pubkey (registry_insert hx pk i r) = AList.update pk i (pi_by_pubkey r)"
  by (simp add: registry_insert_def Let_def)

interpretation registry: index_registry new_registry "registry_insert hx" index_of bare_hex_of_index "hex_encode hx" for hx
  by unfold_locales
    (auto simp: new_registry_def index_of_def bare_hex_of_index_def registry_insert_def Let_def update_conv delete_conv
      split: option.splits)

text \<open>
  C35: the registry is the map it stands for. After any sequence of assignments of indices to public keys
  in which no two keys are ever given the same index, the index of a key is the last one assigned,
  and the reverse lookup of an index finds exactly the key that has it now; an index that was
  replaced finds nothing.
\<close>

theorem registry_refines_map:
  fixes hx :: hex_codec
  assumes "\<forall>(k, i) \<in> set xs. \<forall>(k', i') \<in> set xs. i = i' \<longrightarrow> k = k'"
  defines "r \<equiv> merge_bytes_map hx xs new_registry"
  shows "index_of r = map_of (rev xs)
    \<and> (\<forall>i n. bare_hex_of_index r i = Some n \<longleftrightarrow> (\<exists>k. map_of (rev xs) k = Some i \<and> hex_encode hx k = n))"
proof -
  have r: "r = registry.put_all hx xs new_registry" by (simp add: r_def merge_bytes_map_def registry.put_all_def)
  have "k = k'" if "(k, i) \<in> set xs" "(k', i) \<in> set xs" for k k' i using assms(1) that by fastforce
  from registry.backward_put_all [OF this] show ?thesis by (simp add: r registry.forward_put_all)
qed

definition key_a :: pubkey48 where
  "key_a = replicate 48 1"

definition key_b :: pubkey48 where
  "key_b = replicate 48 2"

lemma key_a_b: "key_a \<noteq> key_b"
  by (simp add: key_a_def key_b_def replicate_eq_replicate)

theorem registry_refines_map_witness:
  "let r = merge_bytes_map hex_ref [(key_a, ''7''), (key_b, ''9''), (key_a, ''8'')] new_registry
   in index_of r key_a = Some ''8'' \<and> bare_hex_of_index r ''9'' = Some (hex_encode hex_ref key_b)
     \<and> bare_hex_of_index r ''7'' = None"
proof -
  let ?xs = "[(key_a, ''7''), (key_b, ''9''), (key_a, ''8'')]"
  let ?r = "merge_bytes_map hex_ref ?xs new_registry"
  have "\<forall>(k, i) \<in> set ?xs. \<forall>(k', i') \<in> set ?xs. i = i' \<longrightarrow> k = k'" using key_a_b by simp
  note run = registry_refines_map [OF this, of hex_ref]
  have "index_of ?r key_a = Some ''8''" using run key_a_b by simp
  moreover have "bare_hex_of_index ?r ''9'' = Some (hex_encode hex_ref key_b)" using run key_a_b by auto
  moreover have "bare_hex_of_index ?r ''7'' \<noteq> Some n" for n using run key_a_b by (auto split: if_splits)
  ultimately show ?thesis by (auto simp: Let_def)
qed

text \<open>
  Two keys with one index: when the first of them moves on, the reverse entry of the second is
  dropped with it, although the second still has the index.
\<close>

lemma shared_index_loses_key:
  assumes "a \<noteq> b"
  shows "let r = merge_bytes_map hx [(a, ''1''), (b, ''1''), (a, ''2'')] new_registry
    in index_of r b = Some ''1'' \<and> bare_hex_of_index r ''1'' = None"
  using assms by (simp add: merge_bytes_map_def registry.forward_put registry.backward_put registry.backward_empty registry.forward_empty)

section \<open>The duty indices\<close>

lemma source_indices_iff:
  "i \<in> set (source_indices loaded r) \<longleftrightarrow> (\<exists>k \<in> set loaded. index_of r k = Some i)"
  by (auto simp: source_indices_def map_filter_def image_iff)

lemma sorted_remdups_adj_distinct: "sorted xs \<Longrightarrow> distinct (remdups_adj xs)"
  by (induction xs rule: remdups_adj.induct) (auto simp: order_le_less)

lemma source_indices_sorted: "sorted (source_indices loaded r) \<and> distinct (source_indices loaded r)"
  by (simp add: source_indices_def sorted_remdups_adj_distinct)

lemma parse_pubkey_bytes_to_0x:
  "\<lbrakk>hex_codec_ok hx; length bytes = 48\<rbrakk> \<Longrightarrow> parse_pubkey_bytes hx (pubkey_bytes_to_0x hx bytes) = Some bytes"
  by (simp add: parse_pubkey_bytes_def pubkey_bytes_to_0x_def strip_prefix_str_def hex_decode_encode)

end
