(* ===== verification/Liveness_Loop.thy ===== *)
theory Liveness_Loop
  imports Doppelganger Bn_Manager Pubkey_Index
begin

text \<open>
  The liveness observation loop (\<open>rvc/src/liveness_loop.rs\<close>) and the construction of the signing
  gate (\<open>rvc/src/config/builder.rs\<close>, \<open>build_signing_enablement\<close>). One cycle asks the beacon nodes
  about the epochs of the look-back range, translates indices with the registry, feeds the
  doppelganger machine and ticks it. The theorems join the three components: what the nodes
  answer, what the registry knows and whether the gate opens.

  The merged answer of the nodes is an argument of a cycle, a function of the epoch and the indices
  asked for. Import sidecar files, cancellation and the sleep between cycles are not modelled.
\<close>

section \<open>The gate at start-up\<close>

definition DEFAULT_MONITORING_EPOCHS :: u64 where
  "DEFAULT_MONITORING_EPOCHS = 2"

text \<open>
  \<open>reader\<close> is the answer of the slashing database for a key, \<open>unfinished\<close> the keys with an import
  that is not complete, \<open>loaded\<close> the keys of the process.
\<close>

definition register_loaded ::
  "hex_codec \<Rightarrow> (pubkey48 \<Rightarrow> epoch option) \<Rightarrow> pubkey48 list \<Rightarrow> epoch \<Rightarrow> forward_window_machine \<Rightarrow> pubkey48
     \<Rightarrow> forward_window_machine" where
  "register_loaded hx reader unfinished current_epoch m pubkey =
     (if pubkey \<in> set unfinished then register_for_import hx pubkey current_epoch m
      else register hx (reader pubkey) pubkey current_epoch m)"

definition build_signing_enablement ::
  "hex_codec \<Rightarrow> bool \<Rightarrow> (pubkey48 \<Rightarrow> epoch option) \<Rightarrow> pubkey48 list \<Rightarrow> pubkey48 list \<Rightarrow> epoch
     \<Rightarrow> (pubkey48 \<Rightarrow> bool) \<times> forward_window_machine option" where
  "build_signing_enablement hx doppelganger_detection reader unfinished loaded current_epoch =
     (if \<not> doppelganger_detection then (disabled_by_operator, None)
      else case new_machine DEFAULT_MONITORING_EPOCHS of
        None \<Rightarrow> (\<lambda>_. False, None)
      | Some machine \<Rightarrow>
          (let m = foldl (register_loaded hx reader unfinished current_epoch) machine loaded
           in (is_signing_enabled hx m, Some m)))"

section \<open>One cycle\<close>

definition LIVENESS_LOOKBACK_EPOCHS :: u64 where
  "LIVENESS_LOOKBACK_EPOCHS = DEFAULT_MONITORING_EPOCHS + 2"

datatype observe_error = QueryFailed beacon_error | ObserveFailed doppelganger_error

type_synonym liveness_api = "epoch \<Rightarrow> string list \<Rightarrow> beacon_error + validator_liveness list"

definition translate :: "(string \<times> string) list \<Rightarrow> validator_liveness list \<Rightarrow> validator_liveness_data list" where
  "translate index_to_bare data =
     List.map_filter (\<lambda>v. map_option (\<lambda>pubkey_hex. \<lparr>ld_index = pubkey_hex, ld_is_live = vl_is_live v\<rparr>)
       (map_of index_to_bare (vl_index v))) data"

definition observe_epoch ::
  "pubkey_index_registry \<Rightarrow> liveness_api \<Rightarrow> epoch \<Rightarrow> forward_window_machine
     \<Rightarrow> (observe_error + bool) \<times> forward_window_machine" where
  "observe_epoch reg beacon epoch m =
     (let index_to_bare = pi_by_index reg in
      if index_to_bare = [] then (Inr False, m)
      else case beacon epoch (map fst index_to_bare) of
        Inl e \<Rightarrow> (Inl (QueryFailed e), m)
      | Inr data \<Rightarrow>
          (case observe_liveness epoch (translate index_to_bare data) m of
             (Inr (), m1) \<Rightarrow> (Inr True, m1)
           | (Inl (IncompleteLiveness _ _), m1) \<Rightarrow> (Inr False, m1)
           | (Inl e, m1) \<Rightarrow> (Inl (ObserveFailed e), m1)))"

record liveness_loop =
  ll_machine :: forward_window_machine
  ll_observed_epochs :: "epoch list"
  ll_has_pending :: bool

definition new_loop :: "forward_window_machine \<Rightarrow> liveness_loop" where
  "new_loop m = \<lparr>ll_machine = m, ll_observed_epochs = [], ll_has_pending = True\<rparr>"

text \<open>The half-open range \<open>lookback_start..current_epoch\<close>.\<close>

definition lookback_epochs :: "epoch \<Rightarrow> epoch list" where
  "lookback_epochs current_epoch =
     map of_nat [unat (saturating_sub current_epoch LIVENESS_LOOKBACK_EPOCHS) ..< unat current_epoch]"

definition observe_one :: "pubkey_index_registry \<Rightarrow> liveness_api \<Rightarrow> liveness_loop \<Rightarrow> epoch \<Rightarrow> liveness_loop" where
  "observe_one reg beacon lp epoch =
     (if \<not> ll_has_pending lp \<and> epoch \<in> set (ll_observed_epochs lp) then lp
      else case observe_epoch reg beacon epoch (ll_machine lp) of
        (Inr True, m1) \<Rightarrow> lp\<lparr>ll_machine := m1, ll_observed_epochs := List.insert epoch (ll_observed_epochs lp)\<rparr>
      | (_, m1) \<Rightarrow> lp\<lparr>ll_machine := m1\<rparr>)"

definition bound_memory :: "epoch \<Rightarrow> epoch list \<Rightarrow> epoch list" where
  "bound_memory current_epoch observed =
     (if current_epoch > LIVENESS_LOOKBACK_EPOCHS + 4
      then filter (\<lambda>e. e \<ge> saturating_sub current_epoch (LIVENESS_LOOKBACK_EPOCHS + 4)) observed
      else observed)"

definition loop_cycle ::
  "pubkey_index_registry \<Rightarrow> liveness_api \<Rightarrow> epoch \<Rightarrow> u64 \<Rightarrow> liveness_loop \<Rightarrow> liveness_loop" where
  "loop_cycle reg beacon current_epoch slot_in_epoch lp =
     (let lp1 = (if current_epoch > 0 then foldl (observe_one reg beacon) lp (lookback_epochs current_epoch) else lp)
      in case tick current_epoch slot_in_epoch (ll_machine lp1) of (statuses, m2) \<Rightarrow>
        \<lparr>ll_machine = m2,
         ll_observed_epochs = bound_memory current_epoch (ll_observed_epochs lp1),
         ll_has_pending = (StatusPending \<in> set statuses)\<rparr>)"

text \<open>The nodes behind the loop: the merged broadcast of the manager.\<close>

definition merged_api :: "(epoch \<Rightarrow> validator_liveness list fleet) \<Rightarrow> bn_manager \<Rightarrow> liveness_api" where
  "merged_api answer m epoch validator_indices = fst (post_validator_liveness_merged (answer epoch) m)"

section \<open>What a cycle does to one key\<close>

lemma lookback_iff:
  "e \<in> set (lookback_epochs c) \<longleftrightarrow> unat c \<le> unat e + 4 \<and> e < c"
proof -
  have four: "unat (saturating_sub c LIVENESS_LOOKBACK_EPOCHS) = unat c - 4"
    by (simp add: unat_saturating_sub LIVENESS_LOOKBACK_EPOCHS_def DEFAULT_MONITORING_EPOCHS_def)
  show ?thesis
  proof
    assume "e \<in> set (lookback_epochs c)"
    then obtain n where n: "e = of_nat n" "unat c - 4 \<le> n" "n < unat c" by (auto simp: lookback_epochs_def four)
    then have "unat e = n" using unat_u64_bound [of c] by (simp add: unat_of_nat take_bit_nat_eq_self)
    then show "unat c \<le> unat e + 4 \<and> e < c" using n by (simp add: word_less_nat_alt)
  next
    assume "unat c \<le> unat e + 4 \<and> e < c"
    then have "unat e \<in> {unat c - 4 ..< unat c}" "e = of_nat (unat e)" by (auto simp: word_less_nat_alt)
    then show "e \<in> set (lookback_epochs c)" unfolding lookback_epochs_def four by (metis imageI set_map set_upt)
  qed
qed

text \<open>What the answer for an epoch says about a key, if it mentions it.\<close>

definition key_sample :: "pubkey_index_registry \<Rightarrow> liveness_api \<Rightarrow> epoch \<Rightarrow> string \<Rightarrow> bool option" where
  "key_sample reg beacon e k =
     (if pi_by_index reg = [] then None
      else case beacon e (map fst (pi_by_index reg)) of
        Inl _ \<Rightarrow> None
      | Inr data \<Rightarrow> map_of (response_of (translate (pi_by_index reg) data)) k)"

definition step_state :: "pubkey_index_registry \<Rightarrow> liveness_api \<Rightarrow> string \<Rightarrow> epoch \<Rightarrow> validator_state \<Rightarrow> validator_state" where
  "step_state reg beacon k e st = (if in_window e st then observe_state e (key_sample reg beacon e k) st else st)"

lemma observe_epoch_machine:
  "snd (observe_epoch reg beacon e m) =
     (if pi_by_index reg = [] then m
      else case beacon e (map fst (pi_by_index reg)) of
        Inl _ \<Rightarrow> m
      | Inr data \<Rightarrow> snd (observe_liveness e (translate (pi_by_index reg) data) m))"
  by (simp add: observe_epoch_def Let_def split: sum.split prod.split doppelganger_error.split unit.split)

lemma observe_epoch_run:
  assumes "wf_machine m" "observe_epoch reg beacon e m = (r, m1)"
  shows "wf_machine m1 \<and> state_of m1 k = map_option (step_state reg beacon k e) (state_of m k)"
proof (cases "key_sample reg beacon e k = None \<and> m1 = m")
  case True
  then show ?thesis using assms(1) by (cases "state_of m k") (simp_all add: step_state_def)
next
  case False
  then obtain data where data: "pi_by_index reg \<noteq> []" "beacon e (map fst (pi_by_index reg)) = Inr data"
    using observe_epoch_machine [of reg beacon e m] assms(2)
    by (cases "beacon e (map fst (pi_by_index reg))") (auto simp: key_sample_def split: if_splits)
  then have "observe_liveness e (translate (pi_by_index reg) data) m
      = (fst (observe_liveness e (translate (pi_by_index reg) data) m), m1)"
    using observe_epoch_machine [of reg beacon e m] assms(2) by (simp add: prod_eq_iff)
  from observe_liveness_run(1,3) [OF assms(1) this] data show ?thesis
    by (auto simp: step_state_def key_sample_def split: option.splits)
qed

lemma observe_one_run:
  assumes "wf_machine (ll_machine lp)"
  shows "wf_machine (ll_machine (observe_one reg beacon lp e))"
    and "ll_has_pending (observe_one reg beacon lp e) = ll_has_pending lp"
    and "state_of (ll_machine (observe_one reg beacon lp e)) k =
      (if \<not> ll_has_pending lp \<and> e \<in> set (ll_observed_epochs lp) then state_of (ll_machine lp) k
       else map_option (step_state reg beacon k e) (state_of (ll_machine lp) k))"
proof -
  obtain r m1 where o: "observe_epoch reg beacon e (ll_machine lp) = (r, m1)" by (cases "observe_epoch reg beacon e (ll_machine lp)")
  have "observe_one reg beacon lp e =
      (if \<not> ll_has_pending lp \<and> e \<in> set (ll_observed_epochs lp) then lp
       else if r = Inr True then lp\<lparr>ll_machine := m1, ll_observed_epochs := List.insert e (ll_observed_epochs lp)\<rparr>
       else lp\<lparr>ll_machine := m1\<rparr>)"
    by (auto simp: observe_one_def o split: sum.splits bool.splits)
  with observe_epoch_run [OF assms o, of k] assms
  show "wf_machine (ll_machine (observe_one reg beacon lp e))"
    "ll_has_pending (observe_one reg beacon lp e) = ll_has_pending lp"
    "state_of (ll_machine (observe_one reg beacon lp e)) k =
      (if \<not> ll_has_pending lp \<and> e \<in> set (ll_observed_epochs lp) then state_of (ll_machine lp) k
       else map_option (step_state reg beacon k e) (state_of (ll_machine lp) k))" by simp_all
qed

text \<open>A property of one key's state that every observation keeps, along a whole range of epochs.\<close>

lemma observe_range_keeps:
  assumes "wf_machine (ll_machine lp)" "state_of (ll_machine lp) k = Some st" "P st"
    and "\<And>e st. \<lbrakk>e \<in> set es; P st\<rbrakk> \<Longrightarrow> P (step_state reg beacon k e st)"
  shows "wf_machine (ll_machine (foldl (observe_one reg beacon) lp es))
    \<and> ll_has_pending (foldl (observe_one reg beacon) lp es) = ll_has_pending lp
    \<and> (\<exists>st'. state_of (ll_machine (foldl (observe_one reg beacon) lp es)) k = Some st' \<and> P st')"
  using assms
proof (induction es arbitrary: lp st)
  case (Cons e es)
  let ?lp = "observe_one reg beacon lp e"
  note one = observe_one_run [OF Cons.prems(1), of reg beacon e]
  obtain st' where "state_of (ll_machine ?lp) k = Some st'" "P st'"
    using one(3) [of k] Cons.prems(2-4) by (auto split: if_splits)
  from Cons.IH [OF one(1) this] Cons.prems(4) one(2) show ?case by simp
qed auto

lemma observe_range_steps:
  assumes "wf_machine (ll_machine lp)" "ll_has_pending lp" "state_of (ll_machine lp) k = Some st"
  shows "state_of (ll_machine (foldl (observe_one reg beacon) lp es)) k = Some (fold (step_state reg beacon k) es st)"
  using assms
proof (induction es arbitrary: lp st)
  case (Cons e es)
  note one = observe_one_run [OF Cons.prems(1), of reg beacon e]
  show ?case using Cons.IH [OF one(1), of "step_state reg beacon k e st"] one(2,3) Cons.prems(2,3) by simp
qed simp

lemma loop_cycle_state:
  assumes "c > 0" "state_of (ll_machine (foldl (observe_one reg beacon) lp (lookback_epochs c))) k = Some st"
  shows "state_of (ll_machine (loop_cycle reg beacon c sl lp)) k = Some (tick_state c sl st)"
  using assms tick_run(1) [OF prod.collapse [symmetric], of c sl _ k]
  by (simp add: loop_cycle_def Let_def split_beta)

lemma loop_cycle_wf:
  assumes "wf_machine (ll_machine (foldl (observe_one reg beacon) lp (lookback_epochs c)))" "c > 0"
  shows "wf_machine (ll_machine (loop_cycle reg beacon c sl lp))"
  using assms tick_run(2) [OF prod.collapse [symmetric], of c sl]
  by (simp add: loop_cycle_def Let_def split_beta wf_machine_def)

text \<open>A range of idle answers collects the epochs of the window; one live answer ends in detection.\<close>

lemma idle_range:
  assumes "\<And>x. \<lbrakk>x \<in> set es; s \<le> x; x \<le> e\<rbrakk> \<Longrightarrow> key_sample reg beacon x k = Some False"
  shows "fold (step_state reg beacon k) es (Pending s e obs) = Pending s e (obs \<union> {x \<in> set es. s \<le> x \<and> x \<le> e})"
  using assms
proof (induction es arbitrary: obs)
  case (Cons x es)
  have "step_state reg beacon k x (Pending s e obs) = Pending s e (if s \<le> x \<and> x \<le> e then insert x obs else obs)"
    using Cons.prems [of x] by (simp add: step_state_def)
  with Cons.IH Cons.prems show ?case by auto
qed simp

lemma step_Detected [simp]: "step_state reg beacon k x Detected = Detected"
  by (simp add: step_state_def)

lemma fold_Detected [simp]: "fold (step_state reg beacon k) es Detected = Detected"
  by (induction es) simp_all

lemma live_range:
  assumes "y \<in> set es" "s \<le> y" "y \<le> e" "key_sample reg beacon y k = Some True"
  shows "fold (step_state reg beacon k) es (Pending s e obs) = Detected"
  using assms(1)
proof (induction es arbitrary: obs)
  case (Cons x es)
  show ?case
  proof (cases "x = y")
    case True
    then have "step_state reg beacon k x (Pending s e obs) = Detected" using assms by (simp add: step_state_def)
    then show ?thesis by simp
  next
    case False
    have "step_state reg beacon k x (Pending s e obs) = Detected \<or> (\<exists>obs'. step_state reg beacon k x (Pending s e obs) = Pending s e obs')"
      by (cases "key_sample reg beacon x k") (auto simp: step_state_def)
    then show ?thesis using Cons False by auto
  qed
qed simp

text \<open>With one index per key, the sample of a key is what the merged answer says of its index.\<close>

definition names_only :: "pubkey_index_registry \<Rightarrow> string \<Rightarrow> string \<Rightarrow> bool" where
  "names_only reg idx k \<longleftrightarrow> map_of (pi_by_index reg) idx = Some k
     \<and> list_all (\<lambda>(i, k'). k' = k \<longrightarrow> i = idx) (pi_by_index reg)"

lemma translate_mem:
  "x \<in> set (translate ib data) \<longleftrightarrow> (\<exists>v \<in> set data. map_of ib (vl_index v) = Some (ld_index x) \<and> ld_is_live x = vl_is_live v)"
  by (cases x) (auto simp: translate_def map_filter_def image_iff)

lemma names_only_iff: "names_only reg idx k \<Longrightarrow> map_of (pi_by_index reg) i = Some k \<longleftrightarrow> i = idx"
  using map_of_SomeD [of "pi_by_index reg" i k] unfolding names_only_def list.pred_set by blast

lemma names_only_nonempty: "names_only reg idx k \<Longrightarrow> pi_by_index reg \<noteq> []"
  by (cases "pi_by_index reg") (simp_all add: names_only_def)

lemma translated_sample:
  assumes "names_only reg idx k"
  shows "(\<exists>x \<in> set (translate (pi_by_index reg) data). ld_index x = k \<and> P (ld_is_live x))
    \<longleftrightarrow> (\<exists>v \<in> set data. vl_index v = idx \<and> P (vl_is_live v))" (is "?l \<longleftrightarrow> ?r")
proof
  assume ?l
  then obtain x where x: "x \<in> set (translate (pi_by_index reg) data)" "ld_index x = k" "P (ld_is_live x)" by blast
  from x(1) obtain v where "v \<in> set data" "map_of (pi_by_index reg) (vl_index v) = Some (ld_index x)"
    "ld_is_live x = vl_is_live v" unfolding translate_mem by blast
  with x(2,3) names_only_iff [OF assms, of "vl_index v"] show ?r by (intro bexI [of _ v]) simp_all
next
  assume ?r
  then obtain v where v: "v \<in> set data" "vl_index v = idx" "P (vl_is_live v)" by blast
  then have "\<lparr>ld_index = k, ld_is_live = vl_is_live v\<rparr> \<in> set (translate (pi_by_index reg) data)"
    using names_only_iff [OF assms, of idx] by (auto simp: translate_mem)
  then show ?l using v(3) by (intro bexI [of _ "\<lparr>ld_index = k, ld_is_live = vl_is_live v\<rparr>"]) simp_all
qed

lemma key_sample_answer:
  assumes "names_only reg idx k" "beacon e (map fst (pi_by_index reg)) = Inr data"
  shows "key_sample reg beacon e k =
    (if idx \<in> vl_index ` set data then Some (\<exists>v \<in> set data. vl_index v = idx \<and> vl_is_live v) else None)"
  using translated_sample [OF assms(1), of data "\<lambda>_. True"] translated_sample [OF assms(1), of data "\<lambda>l. l"]
    names_only_nonempty [OF assms(1)] assms(2)
  by (simp add: key_sample_def response_of_lookup image_iff eq_commute [of k] eq_commute [of idx])

lemma key_sample_merged:
  assumes "names_only reg idx k"
  shows "key_sample reg (merged_api answer mgr) e k =
    (if idx \<in> vl_index ` reports (answer e) mgr
     then Some (\<exists>v \<in> reports (answer e) mgr. vl_index v = idx \<and> vl_is_live v) else None)"
proof -
  let ?R = "reports (answer e) mgr"
  obtain r m' where run: "post_validator_liveness_merged (answer e) mgr = (r, m')" by (cases "post_validator_liveness_merged (answer e) mgr")
  note merged = post_validator_liveness_merged_run [OF run]
  show ?thesis
  proof (cases r)
    case (Inl err)
    then have "\<forall>i \<in> voters mgr RoleAll. isl (fst (answer e i))" using merged by simp
    then have "?R = {}" unfolding reports_def by (auto simp: isl_def split: sum.splits)
    with Inl run show ?thesis by (simp add: key_sample_def merged_api_def)
  next
    case (Inr data)
    with merged have ix: "vl_index ` set data = vl_index ` ?R"
      and live: "\<And>v. v \<in> set data \<Longrightarrow> vl_is_live v \<longleftrightarrow> (\<exists>v' \<in> ?R. vl_index v' = vl_index v \<and> vl_is_live v')" by simp_all
    have "(\<exists>v \<in> set data. vl_index v = idx \<and> vl_is_live v) \<longleftrightarrow> (\<exists>v \<in> ?R. vl_index v = idx \<and> vl_is_live v)"
      if mem: "idx \<in> vl_index ` set data"
    proof -
      obtain w where w: "w \<in> set data" "vl_index w = idx" using mem by blast
      show ?thesis using live w by auto
    qed
    then show ?thesis
      using key_sample_answer [OF assms, of "merged_api answer mgr" e data] Inr run ix by (simp add: merged_api_def)
  qed
qed

text \<open>
  C32: a clean window opens the gate. A key waits in its window \<open>s\<close> to \<open>e\<close>. In a cycle after the
  window has ended and while its first epoch is still in the look-back range, if for every epoch of
  the window some node with the role \<open>All\<close> reports the key's index and no such node reports it live, then
  signing is enabled for the key when the cycle ends, whatever the nodes say of other keys. The nodes
  configured without the role \<open>All\<close> are not asked: one that would report the key live does not keep the
  gate closed, although the comments on the loop speak of every configured node; the second part of the
  witness is such a fleet.
\<close>

theorem clean_window_opens_gate:
  assumes "wf_machine (ll_machine lp)" "ll_has_pending lp"
    and "state_of (ll_machine lp) (hex_encode hx pk) = Some (Pending s e obs)"
    and "names_only reg idx (hex_encode hx pk)"
    and "e < c" "unat c \<le> unat s + 4"
    and "\<forall>x. s \<le> x \<and> x \<le> e \<longrightarrow> idx \<in> vl_index ` reports (answer x) mgr
      \<and> \<not> (\<exists>v \<in> reports (answer x) mgr. vl_index v = idx \<and> vl_is_live v)"
  shows "is_signing_enabled hx (ll_machine (loop_cycle reg (merged_api answer mgr) c slot_in_epoch lp)) pk"
proof -
  let ?k = "hex_encode hx pk" and ?api = "merged_api answer mgr"
  have "c > 0" using assms(5) by (simp add: word_less_nat_alt)
  have sample: "key_sample reg ?api x ?k = Some False" if "s \<le> x" "x \<le> e" for x
    using key_sample_merged [OF assms(4), of answer mgr x] assms(7) that by auto
  have "state_of (ll_machine (foldl (observe_one reg ?api) lp (lookback_epochs c))) ?k
      = Some (Pending s e (obs \<union> {x \<in> set (lookback_epochs c). s \<le> x \<and> x \<le> e}))"
    unfolding observe_range_steps [OF assms(1-3)] by (simp add: idle_range sample)
  note final = loop_cycle_state [OF \<open>c > 0\<close> this, of slot_in_epoch]
  have "x \<in> set (lookback_epochs c)" if "s \<le> x" "x \<le> e" for x
    using that assms(5,6) by (auto simp: lookback_iff word_le_nat_alt word_less_nat_alt)
  then have "state_of (ll_machine (loop_cycle reg ?api c slot_in_epoch lp)) ?k = Some Safe"
    using final assms(5) by (auto simp: tick_state_def list.pred_set epoch_range_iff)
  then show ?thesis by (simp add: is_signing_enabled_def status_def)
qed

definition waiting_loop :: liveness_loop where
  "waiting_loop = new_loop \<lparr>fw_states = [(hex_encode hex_ref key_a, Pending 10 12 {})], fw_monitoring_epochs = 2\<rparr>"

definition one_key_registry :: pubkey_index_registry where
  "one_key_registry = registry_insert hex_ref key_a ''7'' new_registry"

definition says :: "bool \<Rightarrow> epoch \<Rightarrow> validator_liveness list fleet" where
  "says live x i = (Inr [\<lparr>vl_index = ''7'', vl_is_live = live \<and> i = 1\<rparr>], 5)"

lemma fixture_ok:
  "wf_machine (ll_machine waiting_loop)" "ll_has_pending waiting_loop"
  "state_of (ll_machine waiting_loop) (hex_encode hex_ref key_a) = Some (Pending 10 12 {})"
  "names_only one_key_registry ''7'' (hex_encode hex_ref key_a)"
  "reports (says live x) three_peers =
     {\<lparr>vl_index = ''7'', vl_is_live = False\<rparr>, \<lparr>vl_index = ''7'', vl_is_live = live\<rparr>}"
proof -
  have "voters three_peers RoleAll = {0, 1, 2}"
    by (auto simp: voters_def three_peers_def three_nodes_def role_matches_def numeral_3_eq_3 less_Suc_eq)
  then show "reports (says live x) three_peers =
     {\<lparr>vl_index = ''7'', vl_is_live = False\<rparr>, \<lparr>vl_index = ''7'', vl_is_live = live\<rparr>}"
    by (auto simp: reports_def says_def)
qed (simp_all add: waiting_loop_def new_loop_def wf_machine_def names_only_def one_key_registry_def registry_insert_def
      new_registry_def)

lemma mixed_reports: "reports (says True x) mixed_peers = {\<lparr>vl_index = ''7'', vl_is_live = False\<rparr>}"
proof -
  have "voters mixed_peers RoleAll = {0, 2}"
    by (auto simp: voters_def mixed_peers_def three_peers_def three_nodes_def role_matches_def numeral_2_eq_2 less_Suc_eq)
  then show ?thesis by (auto simp: reports_def says_def)
qed

theorem clean_window_opens_gate_witness:
  "is_signing_enabled hex_ref
     (ll_machine (loop_cycle one_key_registry (merged_api (says False) three_peers) 13 0 waiting_loop)) key_a
   \<and> \<not> is_signing_enabled hex_ref (ll_machine waiting_loop) key_a
   \<and> fst (says True 11 1) = Inr [\<lparr>vl_index = ''7'', vl_is_live = True\<rparr>]
   \<and> is_signing_enabled hex_ref
       (ll_machine (loop_cycle one_key_registry (merged_api (says True) mixed_peers) 13 0 waiting_loop)) key_a"
proof -
  have "is_signing_enabled hex_ref
      (ll_machine (loop_cycle one_key_registry (merged_api (says False) three_peers) 13 0 waiting_loop)) key_a"
    by (rule clean_window_opens_gate [OF fixture_ok(1-4), of 13]) (simp_all add: fixture_ok(5))
  moreover have "is_signing_enabled hex_ref
      (ll_machine (loop_cycle one_key_registry (merged_api (says True) mixed_peers) 13 0 waiting_loop)) key_a"
    by (rule clean_window_opens_gate [OF fixture_ok(1-4), of 13]) (simp_all add: mixed_reports)
  ultimately show ?thesis using fixture_ok(3) by (simp add: is_signing_enabled_def status_def says_def)
qed

text \<open>
  C33: one live report closes the gate. If during a cycle any node with the role \<open>All\<close> reports the key's index
  live for an epoch of the key's window that is in the look-back range, the key is detected when the
  cycle ends and signing stays disabled, whatever the other nodes answer.
\<close>

theorem one_live_report_closes_gate:
  fixes slot_in_epoch :: u64
  assumes "wf_machine (ll_machine lp)" "ll_has_pending lp"
    and "state_of (ll_machine lp) (hex_encode hx pk) = Some (Pending s e obs)"
    and "names_only reg idx (hex_encode hx pk)"
    and "s \<le> x" "x \<le> e" "x < c" "unat c \<le> unat x + 4"
    and "v \<in> reports (answer x) mgr" "vl_index v = idx" "vl_is_live v"
  defines "after \<equiv> ll_machine (loop_cycle reg (merged_api answer mgr) c slot_in_epoch lp)"
  shows "state_of after (hex_encode hx pk) = Some Detected \<and> \<not> is_signing_enabled hx after pk"
proof -
  let ?k = "hex_encode hx pk" and ?api = "merged_api answer mgr"
  have "c > 0" using assms(7) by (simp add: word_less_nat_alt)
  have "key_sample reg ?api x ?k = Some True" using key_sample_merged [OF assms(4), of answer mgr x] assms(9-11) by auto
  moreover have "x \<in> set (lookback_epochs c)" using assms(7,8) by (simp add: lookback_iff)
  ultimately have "state_of (ll_machine (foldl (observe_one reg ?api) lp (lookback_epochs c))) ?k = Some Detected"
    unfolding observe_range_steps [OF assms(1-3)] using live_range assms(5,6) by simp
  from loop_cycle_state [OF \<open>c > 0\<close> this, of slot_in_epoch] show ?thesis
    by (simp add: after_def tick_state_def is_signing_enabled_def status_def)
qed

theorem one_live_report_closes_gate_witness:
  "state_of (ll_machine (loop_cycle one_key_registry (merged_api (says True) three_peers) 13 0 waiting_loop))
     (hex_encode hex_ref key_a) = Some Detected"
  using one_live_report_closes_gate [OF fixture_ok(1-4), of 11 13 "\<lparr>vl_index = ''7'', vl_is_live = True\<rparr>" "says True" three_peers 0]
  by (simp add: fixture_ok(5))

section \<open>An epoch that is missed\<close>

definition run_cycles ::
  "(pubkey_index_registry \<times> liveness_api \<times> epoch \<times> u64) list \<Rightarrow> liveness_loop \<Rightarrow> liveness_loop" where
  "run_cycles cycles lp = foldl (\<lambda>lp (reg, beacon, c, sl). loop_cycle reg beacon c sl lp) lp cycles"

definition misses :: "epoch \<Rightarrow> epoch \<Rightarrow> epoch \<Rightarrow> validator_state \<Rightarrow> bool" where
  "misses s e x st \<longleftrightarrow> st = Detected \<or> (\<exists>obs. st = Pending s e obs \<and> x \<notin> obs)"

lemma misses_step: "\<lbrakk>misses s e x st; y \<noteq> x\<rbrakk> \<Longrightarrow> misses s e x (step_state reg beacon k y st)"
  by (cases "key_sample reg beacon y k") (auto simp: misses_def step_state_def)

lemma misses_tick:
  assumes "misses s e x st" "s \<le> x" "x \<le> e"
  shows "misses s e x (tick_state c sl st)"
proof -
  have "\<not> list_all (\<lambda>e. e \<in> obs) (epoch_range s e)" if "x \<notin> obs" for obs
    using that assms(2,3) by (auto simp: list.pred_set epoch_range_iff)
  then have "tick_state c sl st = st" using assms(1) by (auto simp: misses_def tick_state_def)
  then show ?thesis using assms(1) by simp
qed

lemma misses_cycle:
  assumes "wf_machine (ll_machine lp)" "state_of (ll_machine lp) k = Some st" "misses s e x st" "s \<le> x" "x \<le> e" "unat x + 4 < unat c"
  shows "wf_machine (ll_machine (loop_cycle reg beacon c sl lp))
    \<and> (\<exists>st'. state_of (ll_machine (loop_cycle reg beacon c sl lp)) k = Some st' \<and> misses s e x st')"
proof -
  have "c > 0" using assms(6) by (simp add: word_less_nat_alt)
  have "y \<noteq> x" if "y \<in> set (lookback_epochs c)" for y using that assms(6) by (auto simp: lookback_iff)
  with observe_range_keeps [OF assms(1,2), of "misses s e x" "lookback_epochs c" reg beacon] misses_step assms(3)
  obtain st' where "wf_machine (ll_machine (foldl (observe_one reg beacon) lp (lookback_epochs c)))"
    "state_of (ll_machine (foldl (observe_one reg beacon) lp (lookback_epochs c))) k = Some st'" "misses s e x st'" by blast
  with loop_cycle_wf loop_cycle_state \<open>c > 0\<close> misses_tick assms(4,5) show ?thesis by blast
qed

text \<open>
  C34: an epoch the loop missed is lost. When an epoch of a key's window was not answered before it left
  the look-back range, no later cycle, with whatever answers, ever opens the gate for the key.
\<close>

theorem missed_epoch_is_never_recovered:
  assumes "wf_machine (ll_machine lp)"
    and "state_of (ll_machine lp) (hex_encode hx pk) = Some (Pending s e obs)"
    and "s \<le> x" "x \<le> e" "x \<notin> obs"
    and "\<forall>(reg, beacon, c, sl) \<in> set cycles. unat x + 4 < unat c"
  shows "\<not> is_signing_enabled hx (ll_machine (run_cycles cycles lp)) pk"
proof -
  let ?k = "hex_encode hx pk"
  have "wf_machine (ll_machine (run_cycles cycles lp)) \<and> (\<exists>st. state_of (ll_machine (run_cycles cycles lp)) ?k = Some st \<and> misses s e x st)"
    using assms(6)
  proof (induction cycles rule: rev_induct)
    case Nil
    then show ?case using assms(1,2,5) by (auto simp: run_cycles_def misses_def)
  next
    case (snoc y ys)
    obtain reg beacon c sl where y: "y = (reg, beacon, c, sl)" by (cases y)
    have "run_cycles (ys @ [y]) lp = loop_cycle reg beacon c sl (run_cycles ys lp)" by (simp add: run_cycles_def y)
    moreover have "unat x + 4 < unat c" using snoc.prems by (auto simp: y)
    ultimately show ?case using snoc.IH snoc.prems misses_cycle [OF _ _ _ assms(3,4)] by auto
  qed
  then show ?thesis by (auto simp: is_signing_enabled_def status_def misses_def)
qed

theorem missed_epoch_is_never_recovered_witness:
  "\<not> is_signing_enabled hex_ref
     (ll_machine (run_cycles [(one_key_registry, merged_api (says False) three_peers, 15, 0),
        (one_key_registry, merged_api (says False) three_peers, 16, 0)] waiting_loop)) key_a"
  by (rule missed_epoch_is_never_recovered [OF fixture_ok(1,3), of 10]) simp_all

end
