(* ===== verification/Eth_Forks.thy ===== *)
theory Eth_Forks
  imports Canonical_Text
begin

text \<open>
  Consensus forks (\<open>eth-types/src/fork.rs\<close>): names, numeric ids, the schedule of activation epochs,
  and the lookups over it. A lookup that the code ends with \<open>expect\<close> returns an option here, with
  \<open>None\<close> for the panic; the theorems show that it never happens.
\<close>

section \<open>Fork names\<close>

datatype fork_name = Phase0 | Altair | Bellatrix | Capella | Deneb | Electra | Fulu | Gloas

definition fork_id :: "fork_name \<Rightarrow> u32" where
  "fork_id f = (case f of Phase0 \<Rightarrow> 0 | Altair \<Rightarrow> 1 | Bellatrix \<Rightarrow> 2 | Capella \<Rightarrow> 3 | Deneb \<Rightarrow> 4
     | Electra \<Rightarrow> 5 | Fulu \<Rightarrow> 6 | Gloas \<Rightarrow> 7)"

text \<open>The derived order is the order of declaration.\<close>

instantiation fork_name :: linorder
begin

definition less_eq_fork_name :: "fork_name \<Rightarrow> fork_name \<Rightarrow> bool" where
  "f \<le> g \<longleftrightarrow> fork_id f \<le> fork_id g"

definition less_fork_name :: "fork_name \<Rightarrow> fork_name \<Rightarrow> bool" where
  "f < g \<longleftrightarrow> fork_id f < fork_id g"

instance
proof
  fix f g :: fork_name
  assume "f \<le> g" "g \<le> f"
  then have "fork_id f = fork_id g" by (simp add: less_eq_fork_name_def)
  then show "f = g" by (cases f; cases g) (simp_all add: fork_id_def)
qed (auto simp: less_eq_fork_name_def less_fork_name_def)

end

definition ALL_FORKS :: "fork_name list" where
  "ALL_FORKS = [Phase0, Altair, Bellatrix, Capella, Deneb, Electra, Fulu, Gloas]"

definition NAMES :: "(fork_name \<times> string \<times> u32) list" where
  "NAMES =
     [(Phase0, ''phase0'', 0), (Altair, ''altair'', 1), (Bellatrix, ''bellatrix'', 2), (Capella, ''capella'', 3),
      (Deneb, ''deneb'', 4), (Electra, ''electra'', 5), (Fulu, ''fulu'', 6), (Gloas, ''gloas'', 7)]"

definition fork_as_ref :: "fork_name \<Rightarrow> string option" where
  "fork_as_ref f = map_option (\<lambda>(_, s, _). s) (find (\<lambda>(name, _, _). name = f) NAMES)"

datatype fork_error = ParseForkNameError | UnknownForkIdError u32

definition fork_from_str :: "string \<Rightarrow> fork_error + fork_name" where
  "fork_from_str s =
     (case find (\<lambda>(_, name, _). name = s) NAMES of
        Some (f, _, _) \<Rightarrow> Inr f
      | None \<Rightarrow> Inl ParseForkNameError)"

definition fork_try_from :: "u32 \<Rightarrow> fork_error + fork_name" where
  "fork_try_from n =
     (case find (\<lambda>(_, _, m). m = n) NAMES of
        Some (f, _, _) \<Rightarrow> Inr f
      | None \<Rightarrow> Inl (UnknownForkIdError n))"

datatype body_fork_layout = LayoutDeneb | LayoutElectra | LayoutGloas

definition body_layout :: "fork_name \<Rightarrow> body_fork_layout option" where
  "body_layout f =
     (case f of
        Deneb \<Rightarrow> Some LayoutDeneb
      | Electra \<Rightarrow> Some LayoutElectra
      | Fulu \<Rightarrow> Some LayoutElectra
      | Gloas \<Rightarrow> Some LayoutGloas
      | _ \<Rightarrow> None)"

section \<open>The schedule\<close>

type_synonym version = "byte list"

record fork_schedule =
  genesis_fork_version :: version
  altair_fork_epoch :: epoch
  altair_fork_version :: version
  bellatrix_fork_epoch :: epoch
  bellatrix_fork_version :: version
  capella_fork_epoch :: epoch
  capella_fork_version :: version
  deneb_fork_epoch :: epoch
  deneb_fork_version :: version
  electra_fork_epoch :: epoch
  electra_fork_version :: version
  fulu_fork_epoch :: epoch
  fulu_fork_version :: version
  gloas_fork_epoch :: epoch
  gloas_fork_version :: version

abbreviation u64_MAX :: u64 where
  "u64_MAX \<equiv> - 1"

definition unscheduled_gloas :: fork_schedule where
  "unscheduled_gloas =
     \<lparr>genesis_fork_version = [0, 0, 0, 0],
      altair_fork_epoch = 0, altair_fork_version = [1, 0, 0, 0],
      bellatrix_fork_epoch = 0, bellatrix_fork_version = [2, 0, 0, 0],
      capella_fork_epoch = 0, capella_fork_version = [3, 0, 0, 0],
      deneb_fork_epoch = 0, deneb_fork_version = [4, 0, 0, 0],
      electra_fork_epoch = 0, electra_fork_version = [5, 0, 0, 0],
      fulu_fork_epoch = 0, fulu_fork_version = [6, 0, 0, 0],
      gloas_fork_epoch = u64_MAX, gloas_fork_version = [7, 0, 0, 0]\<rparr>"

definition entries :: "fork_schedule \<Rightarrow> (fork_name \<times> epoch \<times> version) list" where
  "entries s =
     [(Phase0, 0, genesis_fork_version s),
      (Altair, altair_fork_epoch s, altair_fork_version s),
      (Bellatrix, bellatrix_fork_epoch s, bellatrix_fork_version s),
      (Capella, capella_fork_epoch s, capella_fork_version s),
      (Deneb, deneb_fork_epoch s, deneb_fork_version s),
      (Electra, electra_fork_epoch s, electra_fork_version s),
      (Fulu, fulu_fork_epoch s, fulu_fork_version s),
      (Gloas, gloas_fork_epoch s, gloas_fork_version s)]"

definition next_activation :: "fork_schedule \<Rightarrow> epoch \<Rightarrow> (fork_name \<times> epoch) option" where
  "next_activation s epoch =
     map_option (\<lambda>(name, activation, _). (name, activation))
       (find (\<lambda>(_, activation, _). activation > epoch \<and> activation \<noteq> u64_MAX) (entries s))"

definition from_epoch :: "epoch \<Rightarrow> fork_schedule \<Rightarrow> fork_name option" where
  "from_epoch epoch s = map_option fst (find (\<lambda>(_, activation, _). activation \<le> epoch) (rev (entries s)))"

definition fork_version :: "fork_name \<Rightarrow> fork_schedule \<Rightarrow> version option" where
  "fork_version f s = map_option (\<lambda>(_, _, v). v) (find (\<lambda>(name, _, _). name = f) (entries s))"

definition activation_epoch :: "fork_name \<Rightarrow> fork_schedule \<Rightarrow> epoch option" where
  "activation_epoch f s = map_option (\<lambda>(_, e, _). e) (find (\<lambda>(name, _, _). name = f) (entries s))"

definition previous_fork :: "fork_name \<Rightarrow> fork_schedule \<Rightarrow> fork_name option" where
  "previous_fork f s =
     (case activation_epoch f s of
        None \<Rightarrow> None
      | Some e \<Rightarrow> if e = 0 then Some Phase0 else from_epoch (e - 1) s)"

section \<open>Facts\<close>

lemma fork_as_ref_total: "\<exists>s. fork_as_ref f = Some s \<and> fork_from_str s = Inr f"
  by (cases f) (simp_all add: fork_as_ref_def fork_from_str_def NAMES_def)

lemma fork_try_from_id: "fork_try_from (fork_id f) = Inr f"
  by (cases f) (simp_all add: fork_try_from_def fork_id_def NAMES_def)

lemma fork_try_from_Inr: "fork_try_from n = Inr f \<Longrightarrow> fork_id f = n"
  by (auto simp: fork_try_from_def NAMES_def fork_id_def split: if_splits)

lemma fork_version_total: "fork_version f s \<noteq> None" "activation_epoch f s \<noteq> None"
  by (cases f; simp add: fork_version_def activation_epoch_def entries_def)+

definition activates :: "fork_schedule \<Rightarrow> fork_name \<Rightarrow> epoch" where
  "activates s f =
     (case f of Phase0 \<Rightarrow> 0 | Altair \<Rightarrow> altair_fork_epoch s | Bellatrix \<Rightarrow> bellatrix_fork_epoch s
      | Capella \<Rightarrow> capella_fork_epoch s | Deneb \<Rightarrow> deneb_fork_epoch s | Electra \<Rightarrow> electra_fork_epoch s
      | Fulu \<Rightarrow> fulu_fork_epoch s | Gloas \<Rightarrow> gloas_fork_epoch s)"

lemma activation_epoch_eq: "activation_epoch f s = Some (activates s f)"
  by (cases f) (simp_all add: activation_epoch_def entries_def activates_def)

lemma entries_forks: "map (\<lambda>(f, e, _). (f, e)) (entries s) = map (\<lambda>f. (f, activates s f)) ALL_FORKS"
  by (simp add: entries_def ALL_FORKS_def activates_def)

lemma find_rev_latest:
  assumes "sorted_wrt (<) xs" "find P (rev xs) = Some x"
  shows "x \<in> set xs \<and> P x \<and> (\<forall>y \<in> set xs. P y \<longrightarrow> y \<le> (x :: 'a :: linorder))"
  using assms
proof (induction xs rule: rev_induct)
  case (snoc y ys)
  then show ?case by (fastforce simp: sorted_wrt_append split: if_splits)
qed simp

lemma find_rev_None: "find P (rev xs) = None \<longleftrightarrow> (\<forall>x \<in> set xs. \<not> P x)"
  by (auto simp: find_None_iff)

lemma from_epoch_eq: "from_epoch e s = find (\<lambda>f. activates s f \<le> e) (rev ALL_FORKS)"
  by (simp add: from_epoch_def entries_def ALL_FORKS_def activates_def)

lemma all_forks_sorted: "sorted_wrt (<) ALL_FORKS" "f \<in> set ALL_FORKS"
  by (simp add: ALL_FORKS_def less_fork_name_def fork_id_def) (cases f; simp add: ALL_FORKS_def)

lemma from_epoch_total: "\<exists>f. from_epoch e s = Some f"
proof -
  have "activates s Phase0 \<le> e" by (simp add: activates_def)
  then have "from_epoch e s \<noteq> None" unfolding from_epoch_eq find_rev_None using all_forks_sorted(2) by blast
  then show ?thesis by blast
qed

lemma from_epoch_iff:
  "from_epoch e s = Some f \<longleftrightarrow> activates s f \<le> e \<and> (\<forall>g. activates s g \<le> e \<longrightarrow> g \<le> f)"
proof -
  have latest: "activates s f \<le> e \<and> (\<forall>g. activates s g \<le> e \<longrightarrow> g \<le> f)" if "from_epoch e s = Some f" for f
    using find_rev_latest [OF all_forks_sorted(1), of "\<lambda>f. activates s f \<le> e" f] that all_forks_sorted(2) by (simp add: from_epoch_eq)
  obtain g where g: "from_epoch e s = Some g" using from_epoch_total by blast
  with latest [OF g] latest [of f] show ?thesis by (auto intro: antisym)
qed

lemma next_activation_eq:
  "next_activation s e =
     map_option (\<lambda>f. (f, activates s f)) (find (\<lambda>f. activates s f > e \<and> activates s f \<noteq> u64_MAX) ALL_FORKS)"
  by (simp add: next_activation_def entries_def ALL_FORKS_def activates_def)

lemma find_least:
  "\<lbrakk>sorted (map A xs); find P xs = Some x\<rbrakk> \<Longrightarrow> x \<in> set xs \<and> P x \<and> (\<forall>y \<in> set xs. P y \<longrightarrow> A x \<le> A y)"
  by (induction xs) (auto split: if_splits)

definition schedule_sorted :: "fork_schedule \<Rightarrow> bool" where
  "schedule_sorted s \<longleftrightarrow> sorted (map (activates s) ALL_FORKS)"

lemma activates_mono:
  assumes "schedule_sorted s" "f \<le> g"
  shows "activates s f \<le> activates s g"
proof -
  have "unat (fork_id f) \<le> unat (fork_id g)" using assms(2) by (simp add: less_eq_fork_name_def word_le_nat_alt)
  then show ?thesis using assms(1)
    by (cases f; cases g) (simp_all add: schedule_sorted_def ALL_FORKS_def fork_id_def)
qed

text \<open>
  C38: every epoch has one active fork, and it changes exactly at the announced epochs. The lookup of the
  active fork never panics; it gives the latest fork whose activation epoch has come. In a schedule
  in activation order it stays the same until the epoch that \<open>next_activation\<close> announces and is a later fork
  there; when nothing is announced it stays the same for every epoch below the far-future marker.
\<close>

theorem fork_constant_until_next_activation:
  assumes "schedule_sorted s"
  shows "\<exists>f. from_epoch e s = Some f \<and> activates s f \<le> e \<and> (\<forall>g. activates s g \<le> e \<longrightarrow> g \<le> f)
    \<and> (case next_activation s e of
         Some (g, a) \<Rightarrow> e < a \<and> f < g \<and> activation_epoch g s = Some a
           \<and> (\<forall>x. e \<le> x \<and> x < a \<longrightarrow> from_epoch x s = Some f) \<and> (\<exists>h \<ge> g. from_epoch a s = Some h)
       | None \<Rightarrow> (\<forall>x. e \<le> x \<and> x < u64_MAX \<longrightarrow> from_epoch x s = Some f))"
proof -
  obtain f where f: "from_epoch e s = Some f" using from_epoch_total by blast
  note act = f [unfolded from_epoch_iff]
  have stay: "from_epoch x s = Some f" if "e \<le> x" "\<And>h. activates s h \<le> x \<Longrightarrow> activates s h \<le> e" for x
    using act that by (auto simp: from_epoch_iff intro: order_trans)
  let ?P = "\<lambda>f. activates s f > e \<and> activates s f \<noteq> u64_MAX"
  show ?thesis
  proof (cases "find ?P ALL_FORKS")
    case None
    then have "activates s h \<le> e" if "activates s h \<le> x" "x < u64_MAX" for h x
      using that all_forks_sorted(2) [of h] by (auto simp: find_None_iff not_less)
    then show ?thesis using f act stay None by (auto simp: next_activation_eq)
  next
    case (Some g)
    from find_least [OF assms [unfolded schedule_sorted_def] Some] all_forks_sorted(2)
    have g: "activates s g > e" "activates s g \<noteq> u64_MAX" "\<And>h. ?P h \<Longrightarrow> activates s g \<le> activates s h" by auto
    have "activates s h \<le> e" if "activates s h \<le> x" "x < activates s g" for h x
    proof (rule ccontr)
      assume "\<not> activates s h \<le> e"
      moreover have "activates s h \<noteq> u64_MAX" using that by (metis word_n1_ge leD order_trans)
      ultimately show False using g(3) [of h] that by (meson leD le_less_trans not_le)
    qed
    moreover have "f < g" using g(1) act activates_mono [OF assms, of g f] by (meson leD not_le order_trans)
    moreover obtain h where "from_epoch (activates s g) s = Some h" "g \<le> h"
      using from_epoch_total from_epoch_iff by blast
    ultimately show ?thesis using f act stay g(1) Some by (auto simp: next_activation_eq activation_epoch_eq)
  qed
qed

theorem fork_constant_until_next_activation_witness:
  "schedule_sorted unscheduled_gloas \<and> next_activation unscheduled_gloas 5 = None
   \<and> (\<exists>f. from_epoch 5 unscheduled_gloas = Some f \<and> from_epoch 900000 unscheduled_gloas = Some f)"
proof -
  have ok: "schedule_sorted unscheduled_gloas" by code_simp
  have none: "next_activation unscheduled_gloas 5 = None" by code_simp
  have "(900000 :: u64) < u64_MAX" "(5 :: u64) \<le> 900000" by simp_all
  with fork_constant_until_next_activation [OF ok, of 5] ok none show ?thesis by auto
qed

end
