(* ===== verification/Slot_Timing.thy ===== *)
theory Slot_Timing
  imports Eth_Forks Doppelganger
begin

text \<open>
  The slot clock (\<open>timing/src/clock.rs\<close>, \<open>lib.rs\<close>, \<open>error.rs\<close>): slots and their start times, and the
  waits until a slot or a deadline inside it. A \<open>Duration\<close> is a natural number of nanoseconds. The
  time is an argument. Arithmetic that the code does not check wraps, as in a release build; a
  division by zero panics, written \<open>None\<close>.
\<close>

section \<open>Deadlines\<close>

definition BASIS_POINTS :: u64 where
  "BASIS_POINTS = 10000"

definition ATTESTATION_DUE_BPS :: u64 where
  "ATTESTATION_DUE_BPS = 3333"

definition AGGREGATE_DUE_BPS :: u64 where
  "AGGREGATE_DUE_BPS = 6667"

record deadline_bps =
  db_attestation :: u64
  db_aggregate :: u64
  db_sync_message :: u64
  db_contribution :: u64
  db_payload :: u64
  db_payload_attestation :: u64

definition default_deadlines :: deadline_bps where
  "default_deadlines =
     \<lparr>db_attestation = ATTESTATION_DUE_BPS, db_aggregate = AGGREGATE_DUE_BPS, db_sync_message = ATTESTATION_DUE_BPS,
      db_contribution = AGGREGATE_DUE_BPS, db_payload = AGGREGATE_DUE_BPS, db_payload_attestation = AGGREGATE_DUE_BPS\<rparr>"

definition due_ms :: "u64 \<Rightarrow> u64 \<Rightarrow> u64" where
  "due_ms bps slot_duration_ms = bps * slot_duration_ms div BASIS_POINTS"

record deadline_schedule =
  ds_pre_gloas :: deadline_bps
  ds_gloas :: deadline_bps

definition uniform :: "deadline_bps \<Rightarrow> deadline_schedule" where
  "uniform deadlines = \<lparr>ds_pre_gloas = deadlines, ds_gloas = deadlines\<rparr>"

definition for_fork :: "deadline_schedule \<Rightarrow> fork_name \<Rightarrow> deadline_bps" where
  "for_fork sch fork = (if fork \<ge> Gloas then ds_gloas sch else ds_pre_gloas sch)"

datatype timing_error = BeforeGenesis u64 u64 | InvalidSlotDuration | TimeOverflow

section \<open>Durations\<close>

definition as_secs :: "nat \<Rightarrow> u64" where
  "as_secs d = of_nat (d div 1000000000)"

definition subsec_millis :: "nat \<Rightarrow> u64" where
  "subsec_millis d = of_nat (d mod 1000000000 div 1000000)"

definition as_millis_u64 :: "nat \<Rightarrow> u64" where
  "as_millis_u64 d = of_nat (d div 1000000)"

definition from_millis :: "u64 \<Rightarrow> nat" where
  "from_millis ms = unat ms * 1000000"

section \<open>The clock\<close>

record slot_clock =
  sc_genesis_time :: u64
  sc_slot_duration :: nat
  sc_slots_per_epoch :: u64
  sc_schedule :: deadline_schedule

definition new_clock :: "u64 \<Rightarrow> nat \<Rightarrow> u64 \<Rightarrow> timing_error + slot_clock" where
  "new_clock genesis_time slot_duration slots_per_epoch =
     (if as_secs slot_duration < 1 then Inl InvalidSlotDuration
      else Inr \<lparr>sc_genesis_time = genesis_time, sc_slot_duration = slot_duration,
        sc_slots_per_epoch = slots_per_epoch, sc_schedule = uniform default_deadlines\<rparr>)"

definition with_deadlines :: "deadline_bps \<Rightarrow> slot_clock \<Rightarrow> slot_clock" where
  "with_deadlines deadlines c = c\<lparr>sc_schedule := uniform deadlines\<rparr>"

definition with_deadline_schedule :: "deadline_schedule \<Rightarrow> slot_clock \<Rightarrow> slot_clock" where
  "with_deadline_schedule sch c = c\<lparr>sc_schedule := sch\<rparr>"

definition new_mainnet :: "u64 \<Rightarrow> timing_error + slot_clock" where
  "new_mainnet genesis_time = new_clock genesis_time (from_millis SLOT_DURATION_MS) SLOTS_PER_EPOCH"

text \<open>The system clock; computing the epoch for the trace line divides by \<open>slots_per_epoch\<close>.\<close>

definition current_slot :: "slot_clock \<Rightarrow> nat \<Rightarrow> (timing_error + slot) option" where
  "current_slot c now =
     (let current_time = as_secs now in
      if current_time < sc_genesis_time c then Some (Inl (BeforeGenesis current_time (sc_genesis_time c)))
      else if as_secs (sc_slot_duration c) = 0 \<or> sc_slots_per_epoch c = 0 then None
      else Some (Inr ((current_time - sc_genesis_time c) div as_secs (sc_slot_duration c))))"

text \<open>The mock clock carries its own time, in milliseconds.\<close>

record mock_clock = slot_clock +
  mc_current_time_ms :: u64

definition mock_new :: "u64 \<Rightarrow> nat \<Rightarrow> u64 \<Rightarrow> mock_clock" where
  "mock_new genesis_time slot_duration slots_per_epoch =
     \<lparr>sc_genesis_time = genesis_time, sc_slot_duration = slot_duration, sc_slots_per_epoch = slots_per_epoch,
      sc_schedule = uniform default_deadlines, mc_current_time_ms = saturating_mul genesis_time 1000\<rparr>"

definition set_current_time :: "u64 \<Rightarrow> mock_clock \<Rightarrow> mock_clock" where
  "set_current_time time m = m\<lparr>mc_current_time_ms := saturating_mul time 1000\<rparr>"

definition set_current_time_ms :: "u64 \<Rightarrow> mock_clock \<Rightarrow> mock_clock" where
  "set_current_time_ms time_ms m = m\<lparr>mc_current_time_ms := time_ms\<rparr>"

definition advance_time :: "u64 \<Rightarrow> mock_clock \<Rightarrow> mock_clock" where
  "advance_time seconds m = m\<lparr>mc_current_time_ms := mc_current_time_ms m + seconds * 1000\<rparr>"

definition advance_ms :: "u64 \<Rightarrow> mock_clock \<Rightarrow> mock_clock" where
  "advance_ms millis m = m\<lparr>mc_current_time_ms := mc_current_time_ms m + millis\<rparr>"

definition set_slot :: "slot \<Rightarrow> mock_clock \<Rightarrow> mock_clock" where
  "set_slot slot m = set_current_time (sc_genesis_time m + slot * as_secs (sc_slot_duration m)) m"

definition now_since_epoch :: "mock_clock \<Rightarrow> nat" where
  "now_since_epoch m = from_millis (mc_current_time_ms m)"

definition mock_current_slot :: "mock_clock \<Rightarrow> (timing_error + slot) option" where
  "mock_current_slot m =
     (let current_time = mc_current_time_ms m div 1000 in
      if current_time < sc_genesis_time m then Some (Inl (BeforeGenesis current_time (sc_genesis_time m)))
      else if as_secs (sc_slot_duration m) = 0 then None
      else Some (Inr ((current_time - sc_genesis_time m) div as_secs (sc_slot_duration m))))"

text \<open>The methods both clocks inherit.\<close>

definition current_time_ms :: "nat \<Rightarrow> u64" where
  "current_time_ms now = as_secs now * 1000 + subsec_millis now"

definition deadlines :: "('a slot_clock_scheme) \<Rightarrow> deadline_bps" where
  "deadlines c = ds_pre_gloas (sc_schedule c)"

definition deadlines_for :: "('a slot_clock_scheme) \<Rightarrow> fork_name \<Rightarrow> deadline_bps" where
  "deadlines_for c fork = for_fork (sc_schedule c) fork"

definition slot_start_time :: "('a slot_clock_scheme) \<Rightarrow> slot \<Rightarrow> u64" where
  "slot_start_time c slot = sc_genesis_time c + slot * as_secs (sc_slot_duration c)"

definition slot_start_ms :: "('a slot_clock_scheme) \<Rightarrow> slot \<Rightarrow> u64" where
  "slot_start_ms c slot = saturating_mul (slot_start_time c slot) 1000"

definition slot_start_ms_checked :: "('a slot_clock_scheme) \<Rightarrow> slot \<Rightarrow> timing_error + u64" where
  "slot_start_ms_checked c slot =
     (case checked_mul slot (as_secs (sc_slot_duration c)) of
        None \<Rightarrow> Inl TimeOverflow
      | Some slot_secs \<Rightarrow>
          (case checked_add (sc_genesis_time c) slot_secs of
             None \<Rightarrow> Inl TimeOverflow
           | Some start_secs \<Rightarrow>
               (case checked_mul start_secs 1000 of None \<Rightarrow> Inl TimeOverflow | Some ms \<Rightarrow> Inr ms)))"

definition ms_into_slot :: "('a slot_clock_scheme) \<Rightarrow> nat \<Rightarrow> slot \<Rightarrow> u64" where
  "ms_into_slot c now slot = saturating_sub (current_time_ms now) (slot_start_ms c slot)"

definition set_slot_with_offset_ms :: "slot \<Rightarrow> u64 \<Rightarrow> mock_clock \<Rightarrow> mock_clock" where
  "set_slot_with_offset_ms slot offset_ms m = set_current_time_ms (slot_start_ms m slot + offset_ms) m"

definition slot_end_time :: "('a slot_clock_scheme) \<Rightarrow> slot \<Rightarrow> u64" where
  "slot_end_time c slot = slot_start_time c (slot + 1)"

definition time_until_slot :: "('a slot_clock_scheme) \<Rightarrow> nat \<Rightarrow> slot \<Rightarrow> timing_error + nat" where
  "time_until_slot c now slot =
     (case slot_start_ms_checked c slot of
        Inl e \<Rightarrow> Inl e
      | Inr start_ms \<Rightarrow>
          if current_time_ms now \<ge> start_ms then Inr 0
          else Inr (from_millis (start_ms - current_time_ms now)))"

definition time_until_due :: "('a slot_clock_scheme) \<Rightarrow> nat \<Rightarrow> slot \<Rightarrow> u64 \<Rightarrow> timing_error + nat" where
  "time_until_due c now slot bps =
     (case slot_start_ms_checked c slot of
        Inl e \<Rightarrow> Inl e
      | Inr start_ms \<Rightarrow>
          (case checked_add start_ms (due_ms bps (as_millis_u64 (sc_slot_duration c))) of
             None \<Rightarrow> Inl TimeOverflow
           | Some due_time_ms \<Rightarrow>
               if current_time_ms now \<ge> due_time_ms then Inr 0
               else Inr (from_millis (due_time_ms - current_time_ms now))))"

definition time_until_attestation :: "('a slot_clock_scheme) \<Rightarrow> nat \<Rightarrow> slot \<Rightarrow> timing_error + nat" where
  "time_until_attestation c now slot = time_until_due c now slot (db_attestation (deadlines c))"

definition time_until_attestation_for :: "('a slot_clock_scheme) \<Rightarrow> nat \<Rightarrow> slot \<Rightarrow> fork_name \<Rightarrow> timing_error + nat" where
  "time_until_attestation_for c now slot fork = time_until_due c now slot (db_attestation (deadlines_for c fork))"

definition slot_to_epoch :: "('a slot_clock_scheme) \<Rightarrow> slot \<Rightarrow> epoch option" where
  "slot_to_epoch c slot = (if sc_slots_per_epoch c = 0 then None else Some (slot div sc_slots_per_epoch c))"

definition epoch_start_slot :: "('a slot_clock_scheme) \<Rightarrow> epoch \<Rightarrow> slot" where
  "epoch_start_slot c epoch = epoch * sc_slots_per_epoch c"

section \<open>The contract of a slot source\<close>

text \<open>
  Both clocks promise the same: before genesis an error, from genesis on the number of whole slots since.
\<close>

locale slot_source =
  fixes valid :: "'c \<Rightarrow> bool"
    and genesis :: "'c \<Rightarrow> u64"
    and slot_secs :: "'c \<Rightarrow> u64"
    and seconds :: "'t \<Rightarrow> u64"
    and slot_now :: "'c \<Rightarrow> 't \<Rightarrow> (timing_error + slot) option"
  assumes duration: "valid c \<Longrightarrow> slot_secs c > 0"
    and early: "\<lbrakk>valid c; seconds t < genesis c\<rbrakk> \<Longrightarrow> slot_now c t = Some (Inl (BeforeGenesis (seconds t) (genesis c)))"
    and running: "\<lbrakk>valid c; genesis c \<le> seconds t\<rbrakk> \<Longrightarrow> slot_now c t = Some (Inr ((seconds t - genesis c) div slot_secs c))"
begin

lemma slot_contains:
  assumes "valid c" "slot_now c t = Some (Inr s)"
  shows "unat (genesis c) + unat s * unat (slot_secs c) \<le> unat (seconds t)"
    and "unat (seconds t) < unat (genesis c) + (unat s + 1) * unat (slot_secs c)"
proof -
  have le: "genesis c \<le> seconds t" using early [OF assms(1), of t] assms(2) by (cases "genesis c \<le> seconds t") (auto simp: not_le)
  have s: "unat s = (unat (seconds t) - unat (genesis c)) div unat (slot_secs c)"
    using running [OF assms(1) le] assms(2) le by (simp add: unat_div unat_sub)
  have pos: "0 < unat (slot_secs c)" using duration [OF assms(1)] by (simp add: word_less_nat_alt)
  have "unat s * unat (slot_secs c) \<le> unat (seconds t) - unat (genesis c)" by (simp add: s)
  moreover have "unat (seconds t) - unat (genesis c) < (unat s + 1) * unat (slot_secs c)"
    using dividend_less_div_times [OF pos, of "unat (seconds t) - unat (genesis c)"] by (simp add: s algebra_simps)
  moreover have "unat (genesis c) \<le> unat (seconds t)" using le by (simp add: word_le_nat_alt)
  ultimately show "unat (genesis c) + unat s * unat (slot_secs c) \<le> unat (seconds t)"
    "unat (seconds t) < unat (genesis c) + (unat s + 1) * unat (slot_secs c)" by linarith+
qed

lemma slot_mono:
  assumes "valid c" "slot_now c t = Some (Inr s)" "slot_now c t' = Some (Inr s')" "seconds t \<le> seconds t'"
  shows "s \<le> s'"
proof -
  have "unat s * unat (slot_secs c) < (unat s' + 1) * unat (slot_secs c)"
    using slot_contains(1) [OF assms(1,2)] slot_contains(2) [OF assms(1,3)] assms(4) by (simp add: word_le_nat_alt)
  then have "unat s < unat s' + 1" by (rule mult_less_cancel2 [THEN iffD1, THEN conjunct2])
  then show ?thesis by (simp add: word_le_nat_alt)
qed

end

interpretation system: slot_source
  "\<lambda>c. as_secs (sc_slot_duration c) > 0 \<and> sc_slots_per_epoch c > 0" sc_genesis_time "\<lambda>c. as_secs (sc_slot_duration c)" as_secs current_slot
  by unfold_locales (auto simp: current_slot_def Let_def)

interpretation mock: slot_source
  "\<lambda>m. as_secs (sc_slot_duration m) > 0" sc_genesis_time "\<lambda>m. as_secs (sc_slot_duration m)"
  "\<lambda>ms. ms div 1000" "\<lambda>m ms. mock_current_slot (set_current_time_ms ms m)"
  by unfold_locales (auto simp: mock_current_slot_def set_current_time_ms_def Let_def)

section \<open>Slots and waits\<close>

abbreviation start_secs :: "('a slot_clock_scheme) \<Rightarrow> nat \<Rightarrow> nat" where
  "start_secs c n \<equiv> unat (sc_genesis_time c) + n * unat (as_secs (sc_slot_duration c))"

lemma unat_as_secs: "now div 1000000000 < 2 ^ 64 \<Longrightarrow> unat (as_secs now) = now div 1000000000"
  by (simp add: as_secs_def unat_of_nat)

lemma split_millis: "(now :: nat) div 1000000 = now div 1000000000 * 1000 + now mod 1000000000 div 1000000"
proof -
  have "now = now mod 1000000000 + (now div 1000000000 * 1000) * 1000000"
    using div_mult_mod_eq [of now 1000000000] by linarith
  then have "now div 1000000 = (now mod 1000000000 + (now div 1000000000 * 1000) * 1000000) div 1000000" by (rule arg_cong)
  also have "\<dots> = now div 1000000000 * 1000 + now mod 1000000000 div 1000000" by (rule div_mult_self1) simp
  finally show ?thesis .
qed

lemma current_time_ms_of_nat: "current_time_ms now = of_nat (now div 1000000)"
  unfolding split_millis [of now] by (simp add: current_time_ms_def as_secs_def subsec_millis_def)

lemma unat_current_time_ms: "unat (current_time_ms now) = now div 1000000 mod 2 ^ 64"
  by (simp add: current_time_ms_of_nat unat_of_nat)

lemma unat_u64_of_nat: "x < 2 ^ 64 \<Longrightarrow> unat (of_nat x :: u64) = x"
  by (simp add: unat_of_nat)

lemma unat_u64_add: "unat (a :: u64) + unat b < 2 ^ 64 \<Longrightarrow> unat (a + b) = unat a + unat b"
  by (simp add: unat_word_ariths)

lemma unat_u64_mult: "unat (a :: u64) * unat b < 2 ^ 64 \<Longrightarrow> unat (a * b) = unat a * unat b"
  by (simp add: unat_word_ariths)

lemma times_thousand_bound: "x * 1000 < b \<Longrightarrow> x < (b :: nat)"
  by linarith

text \<open>The checked start is the exact one, or the overflow error.\<close>

lemma slot_start_ms_checked_cases:
  "slot_start_ms_checked c slot =
     (if start_secs c (unat slot) * 1000 < 2 ^ 64 then Inr (of_nat (start_secs c (unat slot) * 1000)) else Inl TimeOverflow)"
proof -
  let ?d = "as_secs (sc_slot_duration c)"
  have a: "unat slot * unat ?d < 2 ^ 64 \<Longrightarrow> unat (slot * ?d) = unat slot * unat ?d" by (simp add: unat_word_ariths)
  have b: "\<lbrakk>unat slot * unat ?d < 2 ^ 64; start_secs c (unat slot) < 2 ^ 64\<rbrakk>
      \<Longrightarrow> unat (sc_genesis_time c + slot * ?d) = start_secs c (unat slot)" by (simp add: unat_word_ariths)
  show ?thesis
  proof (cases "start_secs c (unat slot) < 2 ^ 64")
    case True
    then have m: "unat slot * unat ?d < 2 ^ 64" by linarith
    show ?thesis using True b [OF m True] a [OF m] m
      by (simp add: slot_start_ms_checked_def checked_mul_def checked_add_def)
  next
    case False
    then have "\<not> start_secs c (unat slot) * 1000 < 2 ^ 64" using times_thousand_bound by blast
    then show ?thesis using False a
      by (auto simp: slot_start_ms_checked_def checked_mul_def checked_add_def)
  qed
qed

lemma unat_due_ms:
  "unat (due_ms bps (as_millis_u64 d)) = unat bps * (d div 1000000) mod 2 ^ 64 div 10000"
proof -
  have "bps * as_millis_u64 d = of_nat (unat bps * (d div 1000000))" by (simp add: as_millis_u64_def)
  then have "unat (bps * as_millis_u64 d) = unat bps * (d div 1000000) mod 2 ^ 64" by (simp only: unat_of_nat) simp
  then show ?thesis by (simp add: due_ms_def BASIS_POINTS_def unat_div)
qed

lemma from_millis_wait:
  "(if due \<le> current_time_ms now then 0 else from_millis (due - current_time_ms now))
     = (unat due - now div 1000000 mod 2 ^ 64) * 1000000"
  using unat_current_time_ms [of now]
  by (auto simp: from_millis_def word_le_nat_alt unat_sub not_le)

lemma time_until_slot_cases:
  assumes "now div 1000000 < 2 ^ 64"
  shows "time_until_slot c now slot =
     (if start_secs c (unat slot) * 1000 < 2 ^ 64
      then Inr ((start_secs c (unat slot) * 1000 - now div 1000000) * 1000000) else Inl TimeOverflow)"
  using from_millis_wait [of "of_nat (start_secs c (unat slot) * 1000)" now, unfolded mod_less [OF assms]]
    unat_u64_of_nat [of "start_secs c (unat slot) * 1000"]
  by (simp only: time_until_slot_def slot_start_ms_checked_cases sum.case if_distrib [of Inr, symmetric] split: if_split) simp

lemma time_until_due_cases:
  "time_until_due c now slot bps =
     (let due = start_secs c (unat slot) * 1000 + unat bps * (sc_slot_duration c div 1000000) mod 2 ^ 64 div 10000 in
      if due < 2 ^ 64 then Inr ((due - now div 1000000 mod 2 ^ 64) * 1000000) else Inl TimeOverflow)"
proof -
  let ?s = "start_secs c (unat slot) * 1000" and ?m = "as_millis_u64 (sc_slot_duration c)"
  let ?d = "unat bps * (sc_slot_duration c div 1000000) mod 2 ^ 64 div 10000"
  note dm = unat_due_ms [of bps "sc_slot_duration c"]
  show ?thesis
  proof (cases "?s < 2 ^ 64")
    case True
    note ms = unat_u64_of_nat [OF True]
    have start: "slot_start_ms_checked c slot = Inr (of_nat ?s)" unfolding slot_start_ms_checked_cases if_P [OF True] ..
    show ?thesis
    proof (cases "?s + ?d < 2 ^ 64")
      case True
      have sum: "unat (of_nat ?s + due_ms bps ?m) = ?s + ?d"
        using unat_u64_add [of "of_nat ?s" "due_ms bps ?m"] True unfolding ms dm by blast
      have "checked_add (of_nat ?s) (due_ms bps ?m) = Some (of_nat ?s + due_ms bps ?m)"
        unfolding checked_add_def ms dm using True by (rule if_P)
      then have "time_until_due c now slot bps = Inr ((?s + ?d - now div 1000000 mod 2 ^ 64) * 1000000)"
        unfolding time_until_due_def start sum.case if_distrib [of Inr, symmetric]
        using from_millis_wait [of "of_nat ?s + due_ms bps ?m" now, unfolded sum]
        by (simp only: option.case if_distrib [of Inr, symmetric])
      then show ?thesis using True by (simp only: Let_def if_True)
    next
      case False
      have "checked_add (of_nat ?s) (due_ms bps ?m) = None" unfolding checked_add_def ms dm using False by (rule if_not_P)
      then show ?thesis using False by (simp only: time_until_due_def start sum.case option.case Let_def if_False)
    qed
  next
    case False
    then have far: "\<not> ?s + ?d < 2 ^ 64" by (meson le_add1 order_le_less_trans)
    have "slot_start_ms_checked c slot = Inl TimeOverflow" unfolding slot_start_ms_checked_cases if_not_P [OF False] ..
    then show ?thesis using far by (simp only: time_until_due_def sum.case Let_def if_False)
  qed
qed

lemma share_of_slot_fits: "bps \<le> 10000 \<Longrightarrow> d * 10000 < b \<Longrightarrow> bps * d mod b = bps * (d :: nat)"
proof (rule mod_less)
  assume "bps \<le> 10000" "d * 10000 < b"
  then show "bps * d < b" using mult_le_mono1 [of bps 10000 d] order_le_less_trans mult.commute by metis
qed

text \<open>
  C36: what a wait is, for every deadline. The deadline is the start of the slot plus the share of the slot,
  where the product of the basis points and the slot's milliseconds is taken modulo 2^64; the wait is the
  distance from the current millisecond to it, zero once it has passed, and an overflow error exactly when the
  deadline is not a 64-bit number of milliseconds. For a share of at most the whole slot, which is all the
  configuration admits, on a slot whose
  milliseconds times 10000 fit in 64 bits and a clock whose milliseconds do, nothing wraps and the wait is
  exact.
\<close>

theorem waits_are_exact:
  fixes c :: "'a slot_clock_scheme"
  shows "time_until_due c now slot bps =
     (let due = (unat (sc_genesis_time c) + unat slot * unat (as_secs (sc_slot_duration c))) * 1000
                + unat bps * (sc_slot_duration c div 1000000) mod 2 ^ 64 div 10000 in
      if due < 2 ^ 64 then Inr ((due - now div 1000000 mod 2 ^ 64) * 1000000) else Inl TimeOverflow)
   \<and> (unat bps \<le> 10000 \<and> sc_slot_duration c div 1000000 * 10000 < 2 ^ 64 \<and> now div 1000000 < 2 ^ 64 \<longrightarrow>
      time_until_due c now slot bps =
     (let due = (unat (sc_genesis_time c) + unat slot * unat (as_secs (sc_slot_duration c))) * 1000
                + unat bps * (sc_slot_duration c div 1000000) div 10000 in
      if due < 2 ^ 64 then Inr ((due - now div 1000000) * 1000000) else Inl TimeOverflow))"
proof (intro conjI impI)
  assume "unat bps \<le> 10000 \<and> sc_slot_duration c div 1000000 * 10000 < 2 ^ 64 \<and> now div 1000000 < 2 ^ 64"
  then have exact: "unat bps * (sc_slot_duration c div 1000000) mod 2 ^ 64 = unat bps * (sc_slot_duration c div 1000000)"
    "now div 1000000 mod 2 ^ 64 = now div 1000000"
    using share_of_slot_fits by (blast, simp only: mod_less)
  show "time_until_due c now slot bps =
     (let due = (unat (sc_genesis_time c) + unat slot * unat (as_secs (sc_slot_duration c))) * 1000
                + unat bps * (sc_slot_duration c div 1000000) div 10000 in
      if due < 2 ^ 64 then Inr ((due - now div 1000000) * 1000000) else Inl TimeOverflow)"
    using time_until_due_cases [of c now slot bps] unfolding exact .
qed (rule time_until_due_cases)

definition mainnet_clock :: slot_clock where
  "mainnet_clock = \<lparr>sc_genesis_time = 1606824023, sc_slot_duration = 12000000000, sc_slots_per_epoch = 32,
     sc_schedule = uniform default_deadlines\<rparr>"

text \<open>A wait on mainnet, and a share so large that the product wraps to zero: its deadline is the start of the slot.\<close>

theorem waits_are_exact_witness:
  "time_until_due mainnet_clock 1606824047500000000 2 3333 = Inr 3499000000
   \<and> time_until_due mainnet_clock 1606824047000000000 2 (2 ^ 63) = Inr 0"
  using waits_are_exact [of mainnet_clock 1606824047500000000 2 3333] waits_are_exact [of mainnet_clock 1606824047000000000 2 "2 ^ 63"]
  by (simp add: mainnet_clock_def as_secs_def unat_of_nat)

lemma second_arith:
  fixes a t n b d :: nat
  shows "\<lbrakk>a \<le> t; t * 1000 \<le> n\<rbrakk> \<Longrightarrow> a * 1000 \<le> n"
    and "\<lbrakk>t < b; n < t * 1000 + 1000\<rbrakk> \<Longrightarrow> n < b * 1000"
    and "a * 1000 \<le> n \<Longrightarrow> ((a + d) * 1000 - n) * 1000000 \<le> d * 1000000000"
proof -
  assume "a * 1000 \<le> n"
  then have "(a + d) * 1000 - n \<le> d * 1000" by (simp add: algebra_simps)
  from mult_le_mono1 [OF this, of 1000000] show "((a + d) * 1000 - n) * 1000000 \<le> d * 1000000000" by simp
qed linarith+

lemma tiling:
  assumes now: "now div 1000000 < 2 ^ 64"
    and fits: "start_secs c (unat s + 1) * 1000 < 2 ^ 64"
    and pos: "0 < unat (as_secs (sc_slot_duration c))"
    and bounds: "start_secs c (unat s) \<le> unat (as_secs now)" "unat (as_secs now) < start_secs c (unat s + 1)"
  shows "time_until_slot c now s = Inr 0
    \<and> (\<exists>w. time_until_slot c now (s + 1) = Inr w \<and> 0 < w \<and> w \<le> unat (as_secs (sc_slot_duration c)) * 1000000000)"
proof -
  let ?d = "unat (as_secs (sc_slot_duration c))" and ?n = "now div 1000000"
  have "1 \<le> ?d" using pos by simp
  then have "(unat s + 1) * 1 \<le> (unat s + 1) * ?d" by (rule mult_le_mono2)
  then have "unat s + 1 \<le> start_secs c (unat s + 1)" unfolding mult_1_right by (rule trans_le_add2)
  then have "unat s + 1 < 2 ^ 64" using times_thousand_bound [OF fits] by (rule order_le_less_trans)
  then have suc: "unat (s + 1) = unat s + 1" by (simp add: unat_word_ariths)
  have next_start: "start_secs c (unat s + 1) = start_secs c (unat s) + ?d" by (simp add: algebra_simps)
  have "now div 1000000000 = ?n div 1000" by (simp add: div_mult2_eq [symmetric])
  moreover from this have "unat (as_secs now) = now div 1000000000" by (intro unat_as_secs) (use now in linarith)
  ultimately have secs: "unat (as_secs now) * 1000 \<le> ?n" "?n < unat (as_secs now) * 1000 + 1000" by linarith+
  have lo: "start_secs c (unat s) * 1000 \<le> ?n" by (rule second_arith(1) [OF bounds(1) secs(1)])
  have hi: "?n < start_secs c (unat s + 1) * 1000" by (rule second_arith(2) [OF bounds(2) secs(2)])
  have now_wait: "time_until_slot c now s = Inr 0" 
    unfolding time_until_slot_cases [OF now] using order_le_less_trans [OF lo now] lo by (simp only: if_True) simp
  have next_wait: "time_until_slot c now (s + 1) = Inr ((start_secs c (unat s + 1) * 1000 - ?n) * 1000000)"
    unfolding time_until_slot_cases [OF now] suc using fits by (rule if_P)
  have "(start_secs c (unat s + 1) * 1000 - ?n) * 1000000 \<le> ?d * 1000000000"
    unfolding next_start by (rule second_arith(3) [OF lo])
  moreover have "0 < (start_secs c (unat s + 1) * 1000 - ?n) * 1000000" using hi by simp
  ultimately show ?thesis using now_wait next_wait by blast
qed

text \<open>
  C37: Slots tile time. On a clock that was constructed with a nonzero epoch length, the slot it reports at a
  time is the one whose interval contains that time: the wait until its start is zero, and the wait until
  the next slot is positive and at most one slot.
\<close>

theorem slots_tile_time:
  assumes "new_clock g d spe = Inr c" "spe > 0" "now div 1000000 < 2 ^ 64" "current_slot c now = Some (Inr s)"
    and "(unat g + (unat s + 1) * unat (as_secs d)) * 1000 < 2 ^ 64"
  shows "time_until_slot c now s = Inr 0
    \<and> (\<exists>w. time_until_slot c now (s + 1) = Inr w \<and> 0 < w \<and> w \<le> unat (as_secs d) * 1000000000)"
proof -
  have c: "sc_genesis_time c = g" "sc_slot_duration c = d" "sc_slots_per_epoch c = spe" "as_secs d > 0"
    using assms(1) by (auto simp: new_clock_def word_less_nat_alt split: if_splits)
  note bounds = system.slot_contains [of c now s, unfolded c, OF _ assms(4)]
  have valid: "as_secs d > 0 \<and> spe > 0" using c(4) assms(2) by simp
  have "0 < unat (as_secs d)" using c(4) by (simp add: word_less_nat_alt)
  with tiling [of now c s, unfolded c] show ?thesis using assms(3,5) bounds [OF valid] by blast
qed

theorem slots_tile_time_witness:
  "time_until_slot mainnet_clock 1606824047500000000 2 = Inr 0
    \<and> (\<exists>w. time_until_slot mainnet_clock 1606824047500000000 (2 + 1) = Inr w \<and> 0 < w \<and> w \<le> 12000000000)"
  using slots_tile_time [of 1606824023 12000000000 32 mainnet_clock 1606824047500000000 2]
  by (simp add: new_clock_def mainnet_clock_def current_slot_def as_secs_def Let_def)

text \<open>An epoch length of zero is accepted by the constructor and panics at the first reading.\<close>

lemma zero_epoch_length_panics:
  assumes "new_clock g d 0 = Inr c" "g \<le> as_secs now"
  shows "current_slot c now = None" "slot_to_epoch c s = None"
  using assms by (auto simp: new_clock_def current_slot_def slot_to_epoch_def Let_def split: if_splits)

text \<open>The unchecked start wraps before it is made to saturate.\<close>

lemma slot_start_ms_wraps: "slot_start_ms mainnet_clock (2 ^ 62) = 1606824023000"
  by (simp add: slot_start_ms_def slot_start_time_def mainnet_clock_def as_secs_def saturating_mul_def)

text \<open>With a sub-second part in the slot duration, a late deadline lies beyond the start of the next slot.\<close>

lemma fractional_slot_deadline:
  "time_until_slot (mainnet_clock\<lparr>sc_slot_duration := 1900000000\<rparr>) 1606824023000000000 1 = Inr 1000000000"
  "time_until_due (mainnet_clock\<lparr>sc_slot_duration := 1900000000\<rparr>) 1606824023000000000 0 AGGREGATE_DUE_BPS = Inr 1266000000"
  by (subst time_until_slot_cases, simp, simp add: mainnet_clock_def as_secs_def unat_of_nat,
      subst time_until_due_cases, simp add: mainnet_clock_def as_secs_def unat_of_nat AGGREGATE_DUE_BPS_def)

text \<open>The mock clock set to a slot reports it.\<close>

lemma set_slot_current:
  assumes "as_secs (sc_slot_duration m) > 0" "start_secs m (unat s) * 1000 < 2 ^ 64"
  shows "mock_current_slot (set_slot s m) = Some (Inr s)"
proof -
  let ?d = "as_secs (sc_slot_duration m)" and ?t = "start_secs m (unat s)"
  have t: "?t < 2 ^ 64" using assms(2) by (rule times_thousand_bound)
  then have prod: "unat (s * ?d) = unat s * unat ?d" by (intro unat_u64_mult) linarith
  then have start: "unat (sc_genesis_time m + s * ?d) = ?t" using t unat_u64_add [of "sc_genesis_time m" "s * ?d"] by simp
  have ms: "unat (saturating_mul (sc_genesis_time m + s * ?d) 1000) = ?t * 1000"
    unfolding unat_saturating_mul start using assms(2) by simp
  have secs: "saturating_mul (sc_genesis_time m + s * ?d) 1000 div 1000 = sc_genesis_time m + s * ?d"
    by (rule word_unat_eq_iff [THEN iffD2]) (simp only: unat_div ms start, simp)
  have "\<not> sc_genesis_time m + s * ?d < sc_genesis_time m" unfolding word_less_nat_alt start by simp
  moreover have "s * ?d div ?d = s" using assms(1) prod by (simp add: word_unat_eq_iff unat_div word_less_nat_alt)
  ultimately show ?thesis using assms(1) secs by (simp add: mock_current_slot_def set_slot_def set_current_time_def Let_def)
qed

end
