(* ===== verification/Spec2Isabelle.thy ===== *)
theory Spec2Isabelle
  imports Signing_History Liveness_Loop Slot_Timing
begin

text \<open>
  Verification of the rvc validator client (paths below are relative to \<open>src/crates\<close>).

  \<^bold>\<open>The program.\<close> A validator client signs the blocks and attestations of Ethereum validators. It must
  never release two signatures that conflict. The crate \<open>slashing\<close> keeps what was signed in an SQLite
  database; the crate \<open>signer\<close> reserves a row there before a backend is asked to sign and deletes it
  only when no signature can exist. The crate \<open>doppelganger\<close> withholds signing until the network has been
  watched for a window of epochs, which the loop of \<open>rvc/src/liveness_loop.rs\<close> does through the beacon
  node manager of \<open>bn-manager\<close>, with the validator indices of \<open>rvc/src/pubkey_index.rs\<close>. The crates
  \<open>timing\<close> and \<open>eth-types\<close> give slots, deadlines and forks.

  \<^bold>\<open>How code is modelled.\<close> A \<open>u64\<close> is a 64-bit word; \<open>+\<close> and \<open>*\<close> that the code does not check wrap, as in a
  release build, and the saturating and checked operations are those of \<open>Rvc_Prelude\<close>. Structs are records,
  enums datatypes, maps association lists. A function that may fail on a state is an \<open>action\<close>: it returns an
  error or a value, and the new state. \<open>expect\<close>, division by zero and an unwinding panic are values
  (\<open>None\<close>, \<open>Panicked\<close>). Code outside the repository is an argument: the hex crate (a record of its two
  functions with \<open>hex_codec_ok\<close>), the answers of beacon nodes and signing backends with their delays, the
  system time. SQLite is the tables with an arbitrary tape of faults, see \<open>Slashing_Store\<close>. Other threads
  are explicit: what they enqueue during a call, or steps of a transition relation.

  \<^bold>\<open>Theories, code and results.\<close>

  \<^item> \<open>Rvc_Prelude\<close>: words, casts to the signed integers of SQLite, results, the frame predicates
    \<open>keeps\<close> and \<open>keeps_unless\<close>, the collections \<open>result_iff\<close> and \<open>cast_simps\<close>.

  \<^item> \<open>Canonical_Text\<close>: \<open>observability/src/pubkey.rs\<close>, \<open>eth-types/src/canonical\<close>. Parsers and printers of
    keys and roots and that they round-trip.

  \<^item> \<open>Slashing_Rules\<close>: \<open>slashing/src/rules.rs\<close>, \<open>error.rs\<close>. The checks over an abstract history; the locales
    \<open>attestation_history_laws\<close> and \<open>block_history_laws\<close> say what a history promises. A check decides exactly
    the EIP-3076 conditions.

  \<^item> \<open>Slashing_Store\<close>, \<open>Slashing_Db\<close>: \<open>slashing/src/history.rs\<close>, \<open>db/mod.rs\<close>, \<open>stage.rs\<close>. Tables, transactions,
    statements, stage, commit and discard. The SQL histories are interpreted in the same two locales.

  \<^item> \<open>Slashing_Reserve\<close>: \<open>slashing/src/group_commit.rs\<close> and the compensating delete of \<open>stage.rs\<close>. The queue, the
    leader's loop with what arrives meanwhile, the batch in one transaction, the answers. \<open>serves\<close> relates the
    answers sent to the rows written; \<open>enqueue_and_wait_run\<close> gives it to one caller, leader or follower. A
    success is durable, a failed batch writes nothing, the delete removes its own row only.

  \<^item> \<open>Slashing_Watermarks\<close>, \<open>Slashing_Records\<close>: \<open>db/watermarks.rs\<close>, \<open>db/records.rs\<close>, \<open>types.rs\<close>. A logic of
    transactions (\<open>txn_spec\<close>); pruning never weakens, the dry run counts what pruning deletes.

  \<^item> \<open>Slashing_Interchange\<close>, \<open>Slashing_Import\<close>: \<open>db/interchange.rs\<close>. The synthetic floors of an export are the
    least fixed point; an export protects any EIP-3076 importer; an import covers its file; pinning a genesis
    root keeps the chain; a pin that is not canonical blocks every reserve.

  \<^item> \<open>Signer_Locks\<close>, \<open>Signer_Core\<close>: \<open>signer/src/locks.rs\<close>, \<open>core.rs\<close>, \<open>gate.rs\<close>, \<open>error.rs\<close>, \<open>fail_closed.rs\<close>,
    \<open>slashing/src/scoped.rs\<close>, \<open>audit.rs\<close>. Mutual exclusion per key; a signature implies a durable row; an
    ambiguous failure keeps it; an error that permits a retry wrote nothing for the request.

  \<^item> \<open>Signing_History\<close>: the system over time, a step relation over group commits, backends, sessions,
    maintenance, crashes and faults. No two messages that were ever signed are slashable.

  \<^item> \<open>Doppelganger\<close>: \<open>doppelganger/src\<close>, \<open>slashing/src/reader.rs\<close>. Signing is enabled only after a watched window,
    detection is final, a restart skips the window only with recent history, the epoch clock is monotone.

  \<^item> \<open>Bn_Health\<close>, \<open>Bn_Manager\<close>: \<open>bn-manager/src\<close>, \<open>beacon/src/error.rs\<close>. Tiers, trackers, selection, the query
    strategies, broadcast and merges; what each returns, which nodes it contacts, and that a flagged node is
    probed again. Only nodes with the role \<open>All\<close> are asked for liveness.

  \<^item> \<open>Pubkey_Index\<close>: \<open>rvc/src/pubkey_index.rs\<close>. The registry refines a map with its inverse (locale
    \<open>index_registry\<close>).

  \<^item> \<open>Liveness_Loop\<close>: \<open>rvc/src/liveness_loop.rs\<close> and the registration of keys in \<open>rvc/src/config/builder.rs\<close>. A
    clean window opens the gate, one live report closes it, a missed epoch is never recovered.

  \<^item> \<open>Eth_Forks\<close>, \<open>Slot_Timing\<close>: \<open>eth-types/src/fork.rs\<close>, \<open>timing/src\<close>. Fork resolution is total and constant
    between activations; slots tile time and waits are exact; the locale \<open>slot_source\<close> is interpreted for the
    system clock and for the mock clock.

  \<^bold>\<open>Bounds and termination.\<close> There is no fuel. The leader's loop terminates because every round takes items
    from the queue and finitely many arrive; the loop of the synthetic floors because each round raises a bound that is
    the target of a row. The theorems on the database take the stored and queued epochs and slots to be
    below 2^63 (\<open>tables_ok\<close>, \<open>spec_safe\<close>), since the code casts them to signed integers. Health scores are
    rationals where the code has \<open>f64\<close>. Lower-casing is that of ASCII.

  \<^bold>\<open>Not modelled.\<close> The release build is modelled: assertions and snapshots of debug builds are left out. A
  thread that panics while it leads the group commit, the opening of database files and the migrations of
  old schemas, and the JSON, TOML and SSZ encodings (external macros) are left out, as are HTTP and gRPC
  transport, key stores and cryptography, telemetry and the wiring of tasks. Of the liveness loop, the
  import sidecar files, cancellation and sleeping are left out. The typed duties of \<open>signer/src/lib.rs\<close> hash
  SSZ containers and call the modelled core; the duty tracker is a cache of HTTP answers, and the validator
  store keeps per-key settings in a file; none of the modelled components reads them.
\<close>

end
